(* ===== verification/Kernel_Prelude.thy ===== *)
theory Kernel_Prelude
  imports Main "HOL-Library.Word" "HOL-Library.Disjoint_Sets"
begin

text \<open>
  Shared vocabulary of the development: the C integer types of the x86\_64 kernel build as
  ranges of \<^typ>\<open>int\<close> with the conversions written out, C's truncating division, error
  results, processor masks, and the list and function lemmas the components share.

  An object of type \<open>unsigned long\<close>, \<open>u64\<close>, \<open>s64\<close>, \<open>long\<close> (64 bits), \<open>int\<close> or
  \<open>unsigned int\<close> (32 bits) is an \<^typ>\<open>int\<close>; every assignment or arithmetic step of the
  source that can leave the range of its type goes through one of the conversions
  \<open>u64\<close>, \<open>s64\<close>, \<open>u32\<close>, \<open>s32\<close> below, which wrap as the compiled code does (the kernel
  is built with \<open>-fno-strict-overflow\<close>, so signed overflow wraps too).
\<close>

named_theorems conv_simps \<open>conversions between C integer types\<close>
named_theorems frame \<open>fields an operation leaves unchanged\<close>

section \<open>C integers\<close>

type_synonym cint = int
type_synonym tid = nat
type_synonym cpu = nat
type_synonym cpumask = "nat set"

definition u64 :: "int \<Rightarrow> int" where
  "u64 x = x mod 18446744073709551616"

definition u32 :: "int \<Rightarrow> int" where
  "u32 x = x mod 4294967296"

definition s64 :: "int \<Rightarrow> int" where
  "s64 x = (x + 9223372036854775808) mod 18446744073709551616 - 9223372036854775808"

definition s32 :: "int \<Rightarrow> int" where
  "s32 x = (x + 2147483648) mod 4294967296 - 2147483648"

definition in_u64 :: "int \<Rightarrow> bool" where
  "in_u64 x \<longleftrightarrow> 0 \<le> x \<and> x < 18446744073709551616"

definition in_s64 :: "int \<Rightarrow> bool" where
  "in_s64 x \<longleftrightarrow> - 9223372036854775808 \<le> x \<and> x < 9223372036854775808"

definition in_s32 :: "int \<Rightarrow> bool" where
  "in_s32 x \<longleftrightarrow> - 2147483648 \<le> x \<and> x < 2147483648"

text \<open>C's division rounds towards zero.\<close>

definition cdiv :: "int \<Rightarrow> int \<Rightarrow> int" where
  "cdiv a b = (if (a < 0) = (b < 0) then \<bar>a\<bar> div \<bar>b\<bar> else - (\<bar>a\<bar> div \<bar>b\<bar>))"

lemma u64_id [conv_simps]: "in_u64 x \<Longrightarrow> u64 x = x"
  by (simp add: u64_def in_u64_def)

lemma s64_id [conv_simps]: "in_s64 x \<Longrightarrow> s64 x = x"
  by (simp add: s64_def in_s64_def)

lemma s32_id [conv_simps]: "in_s32 x \<Longrightarrow> s32 x = x"
  by (simp add: s32_def in_s32_def)

lemma u64_range [simp]: "0 \<le> u64 x" "u64 x < 18446744073709551616" "in_u64 (u64 x)"
  by (simp_all add: u64_def in_u64_def)

lemma s64_range [simp]: "in_s64 (s64 x)"
  using pos_mod_bound [of 18446744073709551616 "x + 9223372036854775808"]
    pos_mod_sign [of 18446744073709551616 "x + 9223372036854775808"]
  by (simp add: s64_def in_s64_def)

lemma s32_range [simp]: "in_s32 (s32 x)"
  using pos_mod_bound [of 4294967296 "x + 2147483648"]
    pos_mod_sign [of 4294967296 "x + 2147483648"]
  by (simp add: s32_def in_s32_def)

lemma u64_neg:
  assumes "x < 0" and "- 18446744073709551616 \<le> x"
  shows "u64 x = x + 18446744073709551616"
proof -
  have "u64 x = (x + 18446744073709551616) mod 18446744073709551616" by (simp add: u64_def)
  also have "\<dots> = x + 18446744073709551616"
    using assms by (intro mod_pos_pos_trivial) simp_all
  finally show ?thesis .
qed

lemma s32_wrap: "s32 (x - 4294967296) = s32 x"
  using mod_add_self2 [of "x - 4294967296 + 2147483648" 4294967296]
  by (simp add: s32_def add.commute)

lemma s64_wrap: "s64 (x + 18446744073709551616) = s64 x"
  using mod_add_self2 [of "x + 9223372036854775808" 18446744073709551616] by (simp add: s64_def add_ac)

lemma u64_u64 [simp]: "u64 (u64 x) = u64 x"
  by (simp add: u64_def)

lemma u64_add_left [simp]: "u64 (u64 a + b) = u64 (a + b)"
  by (simp add: u64_def mod_simps)

lemma u64_add_right [simp]: "u64 (a + u64 b) = u64 (a + b)"
  by (simp add: u64_def mod_simps)

lemma u64_diff_left [simp]: "u64 (u64 a - b) = u64 (a - b)"
  by (simp add: u64_def mod_simps)

lemma u64_diff_right [simp]: "u64 (a - u64 b) = u64 (a - b)"
  by (simp add: u64_def mod_simps)

lemma u64_s64 [simp]: "u64 (s64 x) = u64 x"
  by (simp add: u64_def s64_def mod_simps)

lemma u64_add_s64 [simp]: "u64 (a + s64 b) = u64 (a + b)"
proof -
  have "u64 (a + s64 b) = u64 (a + u64 (s64 b))"
    by (simp only: u64_add_right)
  then show ?thesis
    by simp
qed

lemma cdiv_nonneg: "0 \<le> a \<Longrightarrow> 0 < b \<Longrightarrow> cdiv a b = a div b"
  by (simp add: cdiv_def)

lemma cdiv_le: "0 \<le> a \<Longrightarrow> 1 \<le> b \<Longrightarrow> cdiv a b \<le> a"
proof -
  assume a: "0 \<le> a" "1 \<le> b"
  have "a div b \<le> a div 1"
    by (rule zdiv_mono2) (use a in auto)
  with a show ?thesis
    by (simp add: cdiv_nonneg)
qed

section \<open>Error numbers\<close>

text \<open>The values of \<open>include/asm-generic/errno-base.h\<close> the handlers return, negated in C.\<close>

definition EPERM :: int where "EPERM = 1"
definition ESRCH :: int where "ESRCH = 3"
definition ENOMEM :: int where "ENOMEM = 12"
definition EFAULT :: int where "EFAULT = 14"
definition EINVAL :: int where "EINVAL = 22"
definition ERESTARTSYS :: int where "ERESTARTSYS = 512"

lemmas errno_defs = EPERM_def ESRCH_def ENOMEM_def EFAULT_def EINVAL_def ERESTARTSYS_def

text \<open>
  An operation that dereferences an invalid pointer, runs past a buffer or hits \<open>BUG_ON\<close>
  does not return: its result is \<open>Oops\<close>.
\<close>

datatype 'a outcome = Returns 'a | Oops

section \<open>Processor masks\<close>

text \<open>\<open>CONFIG_NR_CPUS\<close> of \<open>arch/x86/configs/x86_64_defconfig\<close>.\<close>

definition NR_CPUS :: nat where "NR_CPUS = 64"

text \<open>The iteration order of \<open>for_each_cpu\<close>: the set bits of the mask, in increasing order.\<close>

definition for_each_cpu :: "cpumask \<Rightarrow> cpu list" where
  "for_each_cpu m = filter (\<lambda>i. i \<in> m) [0..<NR_CPUS]"

definition cpumask_first :: "cpumask \<Rightarrow> cpu" where
  "cpumask_first m = (case for_each_cpu m of [] \<Rightarrow> NR_CPUS | i # _ \<Rightarrow> i)"

lemma set_for_each_cpu [simp]: "set (for_each_cpu m) = {i \<in> m. i < NR_CPUS}"
  by (auto simp: for_each_cpu_def)

lemma distinct_for_each_cpu [simp]: "distinct (for_each_cpu m)"
  by (simp add: for_each_cpu_def)

lemma sorted_for_each_cpu [simp]: "sorted (for_each_cpu m)"
  by (simp add: for_each_cpu_def sorted_wrt_filter)

lemma for_each_cpu_Nil [simp]: "for_each_cpu m = [] \<longleftrightarrow> (\<forall>i<NR_CPUS. i \<notin> m)"
  by (auto simp: for_each_cpu_def filter_empty_conv)

lemma cpumask_first_in:
  assumes "i \<in> m" and "i < NR_CPUS"
  shows "cpumask_first m \<in> m" and "cpumask_first m < NR_CPUS" and "cpumask_first m \<le> i"
proof -
  have i: "i \<in> set (for_each_cpu m)"
    using assms by simp
  then obtain x xs where eq: "for_each_cpu m = x # xs"
    by (cases "for_each_cpu m") auto
  have "x \<in> set (for_each_cpu m)"
    by (simp add: eq)
  then have x: "x \<in> m" "x < NR_CPUS"
    by auto
  have "sorted (x # xs)"
    using sorted_for_each_cpu [of m] by (simp only: eq)
  then have "x \<le> i"
    using i by (auto simp: eq)
  then show "cpumask_first m \<in> m" "cpumask_first m < NR_CPUS" "cpumask_first m \<le> i"
    using x by (simp_all add: cpumask_first_def eq)
qed

section \<open>Lists and folds\<close>

lemma remove1_notin [simp]: "p \<notin> set xs \<Longrightarrow> remove1 p xs = xs"
  by (rule remove1_idem)

lemma remove1_map_inj: "inj f \<Longrightarrow> remove1 (f x) (map f xs) = map f (remove1 x xs)"
  by (induction xs) (auto dest: injD)

lemma sum_list_fun_upd:
  assumes "distinct is" and "i \<in> set is"
  shows "(\<Sum>j\<leftarrow>is. f ((g(i := v)) j)) = (\<Sum>j\<leftarrow>is. f (g j)) - f (g i) + (f v :: int)"
  using assms
proof (induction "is")
  case Nil
  then show ?case by simp
next
  case (Cons k ks)
  show ?case
  proof (cases "k = i")
    case True
    with Cons.prems have "i \<notin> set ks" by simp
    then have "map (\<lambda>j. f ((g(i := v)) j)) ks = map (\<lambda>j. f (g j)) ks"
      by auto
    then have "(\<Sum>j\<leftarrow>ks. f ((g(i := v)) j)) = (\<Sum>j\<leftarrow>ks. f (g j))"
      by (rule arg_cong)
    with True show ?thesis by simp
  next
    case False
    with Cons show ?thesis by simp
  qed
qed

text \<open>An invariant of the body of a \<open>for_each\<close> loop holds after the loop.\<close>

lemma fold_invariant_set:
  assumes "P s" and "\<And>x s. x \<in> set xs \<Longrightarrow> P s \<Longrightarrow> P (f x s)"
  shows "P (fold f xs s)"
  using assms by (induction xs arbitrary: s) auto

lemma fold_frame:
  assumes "\<And>x s. g (f x s) = g s"
  shows "g (fold f xs s) = g s"
  using assms by (induction xs arbitrary: s) auto

section \<open>Scans for a best element\<close>

text \<open>Several loops walk a list and keep the best candidate so far; a candidate replaces the kept one
  only when it is strictly better.\<close>

definition scan_best :: "('k \<Rightarrow> 'k \<Rightarrow> bool) \<Rightarrow> ('a \<Rightarrow> 'k) \<Rightarrow> 'a list \<Rightarrow> 'a \<times> 'k \<Rightarrow> 'a \<times> 'k" where
  "scan_best better key xs s = fold (\<lambda>x (a, k). if better (key x) k then (x, key x) else (a, k)) xs s"

locale best_scan =
  fixes better :: "'k \<Rightarrow> 'k \<Rightarrow> bool"
  assumes irrefl: "\<not> better a a"
    and trans: "better a b \<Longrightarrow> better b c \<Longrightarrow> better a c"
    and weak: "\<not> better a b \<Longrightarrow> \<not> better b c \<Longrightarrow> \<not> better a c"
begin

lemma better_not: "better a b \<Longrightarrow> \<not> better c b \<Longrightarrow> better a c"
  using weak by blast

lemma scan_outcome:
  "(scan_best better key xs (a, k) = (a, k) \<and> (\<forall>x \<in> set xs. \<not> better (key x) k)) \<or>
   (\<exists>ys x zs. xs = ys @ x # zs \<and> scan_best better key xs (a, k) = (x, key x) \<and> better (key x) k \<and>
      (\<forall>y \<in> set ys. better (key x) (key y)) \<and> (\<forall>z \<in> set zs. \<not> better (key z) (key x)))"
proof (induction xs arbitrary: a k)
  case Nil
  then show ?case by (simp add: scan_best_def)
next
  case (Cons x xs)
  show ?case
  proof (cases "better (key x) k")
    case True
    then have e: "scan_best better key (x # xs) (a, k) = scan_best better key xs (x, key x)"
      by (simp add: scan_best_def)
    from Cons.IH [of x "key x"] show ?thesis
    proof (elim disjE conjE exE)
      assume "scan_best better key xs (x, key x) = (x, key x)" "\<forall>y \<in> set xs. \<not> better (key y) (key x)"
      then have "x # xs = [] @ x # xs \<and> scan_best better key (x # xs) (a, k) = (x, key x) \<and> better (key x) k \<and>
        (\<forall>y \<in> set []. better (key x) (key y)) \<and> (\<forall>z \<in> set xs. \<not> better (key z) (key x))"
        using e True by simp
      then show ?thesis by blast
    next
      fix ys v zs
      assume h: "xs = ys @ v # zs" "scan_best better key xs (x, key x) = (v, key v)" "better (key v) (key x)"
        "\<forall>y \<in> set ys. better (key v) (key y)" "\<forall>z \<in> set zs. \<not> better (key z) (key v)"
      then have "x # xs = (x # ys) @ v # zs \<and> scan_best better key (x # xs) (a, k) = (v, key v) \<and>
        better (key v) k \<and> (\<forall>y \<in> set (x # ys). better (key v) (key y)) \<and> (\<forall>z \<in> set zs. \<not> better (key z) (key v))"
        using e trans [OF h(3) True] by simp
      then show ?thesis by blast
    qed
  next
    case False
    then have e: "scan_best better key (x # xs) (a, k) = scan_best better key xs (a, k)"
      by (simp add: scan_best_def)
    from Cons.IH [of a k] show ?thesis
    proof (elim disjE conjE exE)
      assume "scan_best better key xs (a, k) = (a, k)" "\<forall>y \<in> set xs. \<not> better (key y) k"
      then show ?thesis using e False by simp
    next
      fix ys v zs
      assume h: "xs = ys @ v # zs" "scan_best better key xs (a, k) = (v, key v)" "better (key v) k"
        "\<forall>y \<in> set ys. better (key v) (key y)" "\<forall>z \<in> set zs. \<not> better (key z) (key v)"
      then have "x # xs = (x # ys) @ v # zs \<and> scan_best better key (x # xs) (a, k) = (v, key v) \<and>
        better (key v) k \<and> (\<forall>y \<in> set (x # ys). better (key v) (key y)) \<and> (\<forall>z \<in> set zs. \<not> better (key z) (key v))"
        using e better_not [OF h(3) False] by simp
      then show ?thesis by blast
    qed
  qed
qed

lemma scan_best_none:
  assumes "\<forall>x \<in> set xs. \<not> better (key x) k"
  shows "scan_best better key xs (a, k) = (a, k)"
  using scan_outcome [of key xs a k] assms by auto

lemma scan_best_some:
  assumes "x \<in> set xs" and "better (key x) k"
  obtains v where "scan_best better key xs (a, k) = (v, key v)" and "v \<in> set xs" and "better (key v) k"
    and "\<forall>y \<in> set xs. \<not> better (key y) (key v)"
    and "\<exists>ys zs. xs = ys @ v # zs \<and> (\<forall>y \<in> set ys. better (key v) (key y))"
proof -
  have "\<not> (\<forall>x \<in> set xs. \<not> better (key x) k)" using assms by blast
  then obtain ys v zs where h: "xs = ys @ v # zs" "scan_best better key xs (a, k) = (v, key v)" "better (key v) k"
    "\<forall>y \<in> set ys. better (key v) (key y)" "\<forall>z \<in> set zs. \<not> better (key z) (key v)"
    using scan_outcome [of key xs a k] by blast
  have "\<not> better (key y) (key v)" if y: "y \<in> set xs" for y
  proof
    assume b: "better (key y) (key v)"
    consider "y \<in> set ys" | "y = v" | "y \<in> set zs" using y h(1) by auto
    then show False
      using b h(4,5) irrefl trans [OF b, of "key y"] by cases auto
  qed
  then have "\<forall>y \<in> set xs. \<not> better (key y) (key v)" by blast
  moreover have "v \<in> set xs" using h(1) by simp
  ultimately show ?thesis using that h(1-4) by blast
qed

end

end
