(* ===== verification/Klist.thy ===== *)
theory Klist
  imports Kernel_Prelude
begin

text \<open>
  The kernel's intrusive doubly linked lists, \<open>include/linux/list.h\<close> and their RCU variants of
  \<open>include/linux/rculist.h\<close>, on an explicit store: a \<open>struct list_head\<close> is an address, and
  its two members are the store's fields \<open>next_of\<close> and \<open>prev_of\<close>.  The theory proves that
  the pointer operations implement the list operations the scheduler relies on, and states
  that contract as the locale \<open>intrusive_lists\<close>, which the run queues are a client of.
\<close>

section \<open>Store and operations\<close>

record 'a lheap =
  next_of :: "'a \<Rightarrow> 'a"
  prev_of :: "'a \<Rightarrow> 'a"

definition set_next :: "'a \<Rightarrow> 'a \<Rightarrow> 'a lheap \<Rightarrow> 'a lheap" where
  "set_next a v h = h\<lparr>next_of := (next_of h)(a := v)\<rparr>"

definition set_prev :: "'a \<Rightarrow> 'a \<Rightarrow> 'a lheap \<Rightarrow> 'a lheap" where
  "set_prev a v h = h\<lparr>prev_of := (prev_of h)(a := v)\<rparr>"

definition INIT_LIST_HEAD :: "'a \<Rightarrow> 'a lheap \<Rightarrow> 'a lheap" where
  "INIT_LIST_HEAD l h = set_prev l l (set_next l l h)"

definition list_add_between :: "'a \<Rightarrow> 'a \<Rightarrow> 'a \<Rightarrow> 'a lheap \<Rightarrow> 'a lheap" where
  "list_add_between new prev next h =
     set_next prev new (set_prev new prev (set_next new next (set_prev next new h)))"

definition list_add :: "'a \<Rightarrow> 'a \<Rightarrow> 'a lheap \<Rightarrow> 'a lheap" where
  "list_add new head h = list_add_between new head (next_of h head) h"

definition list_add_tail :: "'a \<Rightarrow> 'a \<Rightarrow> 'a lheap \<Rightarrow> 'a lheap" where
  "list_add_tail new head h = list_add_between new (prev_of h head) head h"

definition list_del_between :: "'a \<Rightarrow> 'a \<Rightarrow> 'a lheap \<Rightarrow> 'a lheap" where
  "list_del_between prev next h = set_next prev next (set_prev next prev h)"

definition list_del_entry :: "'a \<Rightarrow> 'a lheap \<Rightarrow> 'a lheap" where
  "list_del_entry entry h = list_del_between (prev_of h entry) (next_of h entry) h"

text \<open>\<open>LIST_POISON1\<close> and \<open>LIST_POISON2\<close> are parameters: two addresses no entry has.\<close>

definition list_del :: "'a \<Rightarrow> 'a \<Rightarrow> 'a \<Rightarrow> 'a lheap \<Rightarrow> 'a lheap" where
  "list_del poison1 poison2 entry h =
     set_prev entry poison2 (set_next entry poison1
       (list_del_between (prev_of h entry) (next_of h entry) h))"

definition list_del_init :: "'a \<Rightarrow> 'a lheap \<Rightarrow> 'a lheap" where
  "list_del_init entry h = INIT_LIST_HEAD entry (list_del_entry entry h)"

definition list_move_tail :: "'a \<Rightarrow> 'a \<Rightarrow> 'a lheap \<Rightarrow> 'a lheap" where
  "list_move_tail l head h = list_add_tail l head (list_del_entry l h)"

definition list_empty :: "'a \<Rightarrow> 'a lheap \<Rightarrow> bool" where
  "list_empty head h \<longleftrightarrow> next_of h head = head"

definition list_is_last :: "'a \<Rightarrow> 'a \<Rightarrow> 'a lheap \<Rightarrow> bool" where
  "list_is_last l head h \<longleftrightarrow> next_of h l = head"

definition list_is_singular :: "'a \<Rightarrow> 'a lheap \<Rightarrow> bool" where
  "list_is_singular head h \<longleftrightarrow> \<not> list_empty head h \<and> next_of h head = prev_of h head"

text \<open>
  The RCU writers, as the sequence of stores they issue: the intermediate stores are what a
  reader running concurrently can see.
\<close>

definition list_add_rcu_stores :: "'a \<Rightarrow> 'a \<Rightarrow> 'a \<Rightarrow> ('a lheap \<Rightarrow> 'a lheap) list" where
  "list_add_rcu_stores new prev next =
     [set_next new next, set_prev new prev, set_next prev new, set_prev next new]"

definition list_add_rcu :: "'a \<Rightarrow> 'a \<Rightarrow> 'a lheap \<Rightarrow> 'a lheap" where
  "list_add_rcu new head h = fold id (list_add_rcu_stores new head (next_of h head)) h"

definition list_add_tail_rcu :: "'a \<Rightarrow> 'a \<Rightarrow> 'a lheap \<Rightarrow> 'a lheap" where
  "list_add_tail_rcu new head h = fold id (list_add_rcu_stores new (prev_of h head) head) h"

definition list_del_rcu :: "'a \<Rightarrow> 'a \<Rightarrow> 'a lheap \<Rightarrow> 'a lheap" where
  "list_del_rcu poison2 entry h =
     set_prev entry poison2 (list_del_between (prev_of h entry) (next_of h entry) h)"

definition list_replace_rcu :: "'a \<Rightarrow> 'a \<Rightarrow> 'a \<Rightarrow> 'a lheap \<Rightarrow> 'a lheap" where
  "list_replace_rcu poison2 old new h =
     (let h1 = set_next new (next_of h old) h;
          h2 = set_prev new (prev_of h1 old) h1;
          h3 = set_next (prev_of h2 new) new h2;
          h4 = set_prev (next_of h3 new) new h3
      in set_prev old poison2 h4)"

text \<open>
  \<open>list_for_each_entry\<close>: the entries the loop visits, following \<open>next\<close> from the head until
  the head is reached again.  A corrupted list can make the loop run forever, so the walk is
  bounded by fuel and \<open>None\<close> is a loop that has not ended.
\<close>

fun list_for_each_from :: "nat \<Rightarrow> 'a \<Rightarrow> 'a \<Rightarrow> 'a lheap \<Rightarrow> 'a list option" where
  "list_for_each_from 0 pos head h = None"
| "list_for_each_from (Suc fuel) pos head h =
     (if pos = head then Some []
      else map_option ((#) pos) (list_for_each_from fuel (next_of h pos) head h))"

definition list_for_each :: "nat \<Rightarrow> 'a \<Rightarrow> 'a lheap \<Rightarrow> 'a list option" where
  "list_for_each fuel head h = list_for_each_from fuel (next_of h head) head h"

section \<open>The list a store represents\<close>

fun dseg :: "'a lheap \<Rightarrow> 'a \<Rightarrow> 'a list \<Rightarrow> 'a \<Rightarrow> bool" where
  "dseg h a [] b \<longleftrightarrow> next_of h a = b \<and> prev_of h b = a"
| "dseg h a (x # xs) b \<longleftrightarrow> next_of h a = x \<and> prev_of h x = a \<and> dseg h x xs b"

definition dlist :: "'a lheap \<Rightarrow> 'a \<Rightarrow> 'a list \<Rightarrow> bool" where
  "dlist h head xs \<longleftrightarrow> distinct (head # xs) \<and> dseg h head xs head"

lemma next_of_set [simp]:
  "next_of (set_next a v h) = (next_of h)(a := v)" "next_of (set_prev a v h) = next_of h"
  by (simp_all add: set_next_def set_prev_def)

lemma prev_of_set [simp]:
  "prev_of (set_prev a v h) = (prev_of h)(a := v)" "prev_of (set_next a v h) = prev_of h"
  by (simp_all add: set_next_def set_prev_def)

lemma dseg_append_Cons [simp]:
  "dseg h a (xs @ y # ys) b \<longleftrightarrow> dseg h a xs y \<and> dseg h y ys b"
  by (induction xs arbitrary: a) auto

lemma dseg_cong:
  assumes "\<forall>x \<in> insert a (set xs). next_of h' x = next_of h x"
    and "\<forall>x \<in> insert b (set xs). prev_of h' x = prev_of h x"
  shows "dseg h' a xs b = dseg h a xs b"
  using assms by (induction xs arbitrary: a) auto

lemma dseg_set_next: "x \<notin> insert a (set xs) \<Longrightarrow> dseg (set_next x v h) a xs b = dseg h a xs b"
  by (rule dseg_cong) auto

lemma dseg_set_prev: "x \<notin> insert b (set xs) \<Longrightarrow> dseg (set_prev x v h) a xs b = dseg h a xs b"
  by (rule dseg_cong) auto

lemmas dseg_upd = dseg_set_next dseg_set_prev

lemma dlist_cong:
  assumes "\<forall>x \<in> insert a (set xs). next_of h' x = next_of h x \<and> prev_of h' x = prev_of h x"
  shows "dlist h' a xs = dlist h a xs"
proof -
  have "dseg h' a xs a = dseg h a xs a"
    by (rule dseg_cong) (use assms in auto)
  then show ?thesis
    by (simp add: dlist_def)
qed

lemma dlist_unique: "dlist h a xs \<Longrightarrow> dlist h a ys \<Longrightarrow> xs = ys"
proof -
  have gen: "xs = ys" if "dseg h c xs b" "dseg h c ys b" "b \<notin> set xs" "b \<notin> set ys" for c b
    using that by (induction xs arbitrary: ys c) (case_tac ys; force)+
  assume "dlist h a xs" "dlist h a ys"
  then show ?thesis
    by (intro gen) (auto simp: dlist_def)
qed

section \<open>What the operations do to the represented list\<close>

lemma dlist_init: "dlist (INIT_LIST_HEAD a h) a []"
  by (simp add: dlist_def INIT_LIST_HEAD_def)

lemma dlist_init_other:
  "x \<notin> insert a (set xs) \<Longrightarrow> dlist (INIT_LIST_HEAD x h) a xs = dlist h a xs"
  by (rule dlist_cong) (auto simp: INIT_LIST_HEAD_def)

lemma dseg_last: "dseg h a xs b \<Longrightarrow> prev_of h b = last (a # xs)"
  by (induction xs arbitrary: a) auto

lemma dseg_first: "dseg h a xs b \<Longrightarrow> next_of h a = hd (xs @ [b])"
  by (cases xs) auto

lemma dlist_add:
  assumes "dlist h a xs" and "x \<notin> insert a (set xs)"
  shows "dlist (list_add x a h) a (x # xs)"
proof (cases xs)
  case Nil
  with assms show ?thesis
    by (auto simp: dlist_def list_add_def list_add_between_def)
next
  case (Cons y ys)
  let ?h = "list_add_between x a y h"
  have "dseg ?h y ys a = dseg h y ys a"
    by (rule dseg_cong) (use assms Cons in \<open>auto simp: dlist_def list_add_between_def\<close>)
  with assms Cons show ?thesis
    by (auto simp: dlist_def list_add_def) (auto simp: list_add_between_def)
qed

lemma dlist_add_tail:
  assumes "dlist h a xs" and "x \<notin> insert a (set xs)"
  shows "dlist (list_add_tail x a h) a (xs @ [x])"
proof (cases xs rule: rev_cases)
  case Nil
  with assms show ?thesis
    by (auto simp: dlist_def list_add_tail_def list_add_between_def)
next
  case (snoc ys z)
  let ?h = "list_add_between x z a h"
  have "dseg ?h a ys z = dseg h a ys z"
    by (rule dseg_cong) (use assms snoc in \<open>auto simp: dlist_def list_add_between_def\<close>)
  with assms snoc show ?thesis
    by (auto simp: dlist_def list_add_tail_def) (auto simp: list_add_between_def)
qed

lemma dseg_del:
  assumes "dseg h a ys x" and "dseg h x zs b"
    and "distinct (a # ys @ zs)" and "b \<notin> set (ys @ zs)"
  shows "dseg (list_del_between (prev_of h x) (next_of h x) h) a (ys @ zs) b"
proof -
  let ?p = "last (a # ys)" and ?n = "hd (zs @ [b])"
  let ?h = "list_del_between ?p ?n h"
  have pn: "prev_of h x = ?p" "next_of h x = ?n"
    using assms dseg_last dseg_first by fast+
  show ?thesis
  proof (cases ys rule: rev_cases)
    case Nil
    show ?thesis
    proof (cases zs)
      case Nil
      with \<open>ys = []\<close> show ?thesis
        using assms by (auto simp: list_del_between_def)
    next
      case (Cons z zs')
      have "dseg (list_del_between a z h) z zs' b = dseg h z zs' b"
        by (rule dseg_cong) (use assms Cons \<open>ys = []\<close> in \<open>auto simp: list_del_between_def\<close>)
      with Cons \<open>ys = []\<close> show ?thesis
        using assms pn by (auto simp: list_del_between_def)
    qed
  next
    case (snoc ys' u)
    have left: "dseg ?h a ys' u = dseg h a ys' u"
    proof (rule dseg_cong)
      show "\<forall>w\<in>insert a (set ys'). next_of ?h w = next_of h w"
        using assms snoc by (auto simp: list_del_between_def)
      show "\<forall>w\<in>insert u (set ys'). prev_of ?h w = prev_of h w"
        using assms snoc by (cases zs) (auto simp: list_del_between_def)
    qed
    show ?thesis
    proof (cases zs)
      case Nil
      with snoc left show ?thesis
        using assms pn by (auto simp: list_del_between_def)
    next
      case (Cons z zs')
      have "dseg ?h z zs' b = dseg h z zs' b"
        by (rule dseg_cong) (use assms Cons snoc in \<open>auto simp: list_del_between_def\<close>)
      with Cons snoc left show ?thesis
        using assms pn by (auto simp: list_del_between_def)
    qed
  qed
qed

lemma dlist_del_entry:
  assumes "dlist h a xs" and "x \<in> set xs"
  shows "dlist (list_del_entry x h) a (remove1 x xs)"
proof -
  obtain ys zs where xs: "xs = ys @ x # zs" and "x \<notin> set ys"
    using assms(2) by (meson split_list_first)
  then have "remove1 x xs = ys @ zs"
    by (simp add: remove1_append)
  moreover have "dseg (list_del_entry x h) a (ys @ zs) a"
    unfolding list_del_entry_def
    by (rule dseg_del) (use assms xs in \<open>auto simp: dlist_def\<close>)
  ultimately show ?thesis
    using assms xs by (auto simp: dlist_def)
qed

lemma dlist_members:
  assumes "dlist h a xs" and "x \<in> set xs"
  shows "prev_of h x \<in> insert a (set xs)" and "next_of h x \<in> insert a (set xs)"
proof -
  obtain ys zs where xs: "xs = ys @ x # zs"
    using assms(2) by (meson split_list)
  then have "dseg h a ys x" "dseg h x zs a"
    using assms(1) by (auto simp: dlist_def)
  then have pn: "prev_of h x = last (a # ys)" "next_of h x = hd (zs @ [a])"
    using dseg_last dseg_first by fast+
  show "prev_of h x \<in> insert a (set xs)"
    using pn xs by (cases ys rule: rev_cases) auto
  show "next_of h x \<in> insert a (set xs)"
    using pn xs by (cases zs) auto
qed

lemma dlist_head_members:
  assumes "dlist h a xs"
  shows "prev_of h a \<in> insert a (set xs)" and "next_of h a \<in> insert a (set xs)"
proof -
  have pn: "prev_of h a = last (a # xs)" "next_of h a = hd (xs @ [a])"
    using assms dseg_last dseg_first unfolding dlist_def by fast+
  show "prev_of h a \<in> insert a (set xs)"
    using pn by (cases xs rule: rev_cases) auto
  show "next_of h a \<in> insert a (set xs)"
    using pn by (cases xs) auto
qed

lemma dlist_del_init:
  assumes "dlist h a xs" and "x \<in> set xs"
  shows "dlist (list_del_init x h) a (remove1 x xs)" and "dlist (list_del_init x h) x []"
proof -
  have d: "distinct xs" "a \<notin> set xs"
    using assms by (auto simp: dlist_def)
  have "x \<notin> insert a (set (remove1 x xs))"
    using assms d by auto
  then show "dlist (list_del_init x h) a (remove1 x xs)"
    by (simp add: list_del_init_def dlist_init_other dlist_del_entry assms)
  show "dlist (list_del_init x h) x []"
    by (simp add: list_del_init_def dlist_init)
qed

lemma dlist_empty: "dlist h a xs \<Longrightarrow> list_empty a h \<longleftrightarrow> xs = []"
  by (cases xs) (auto simp: dlist_def list_empty_def)

lemma dlist_singular: "dlist h a xs \<Longrightarrow> list_is_singular a h \<longleftrightarrow> length xs = 1"
proof -
  assume d: "dlist h a xs"
  have ends: "prev_of h a = last (a # xs)" "next_of h a = hd (xs @ [a])"
    using d dseg_last dseg_first unfolding dlist_def by fast+
  show ?thesis
  proof (cases xs)
    case Nil
    with d show ?thesis by (simp add: list_is_singular_def dlist_empty)
  next
    case (Cons y ys)
    with d have "y \<notin> set ys" by (simp add: dlist_def)
    with Cons d ends show ?thesis
      by (cases ys rule: rev_cases) (auto simp: list_is_singular_def dlist_empty)
  qed
qed

lemma for_each_dseg:
  assumes "dseg h a xs b" and "b \<notin> set xs" and "length xs < fuel"
  shows "list_for_each_from fuel (next_of h a) b h = Some xs"
  using assms
proof (induction xs arbitrary: a fuel)
  case Nil
  then show ?case by (cases fuel) auto
next
  case (Cons x xs)
  then obtain fuel' where "fuel = Suc fuel'" by (cases fuel) auto
  with Cons show ?case by auto
qed

lemma for_each_dlist: "dlist h a xs \<Longrightarrow> length xs < fuel \<Longrightarrow> list_for_each fuel a h = Some xs"
  unfolding list_for_each_def dlist_def by (rule for_each_dseg) auto

section \<open>Other lists are not touched\<close>

lemma dlist_add_between_other:
  assumes "dlist h b ys" and "{x, p, n} \<inter> insert b (set ys) = {}"
  shows "dlist (list_add_between x p n h) b ys"
proof -
  have "dlist (list_add_between x p n h) b ys = dlist h b ys"
    by (rule dlist_cong) (use assms(2) in \<open>auto simp: list_add_between_def\<close>)
  with assms(1) show ?thesis by simp
qed

lemma dlist_add_other:
  assumes "dlist h a xs" and "dlist h b ys" and "x \<notin> set (b # ys)"
    and "set (a # xs) \<inter> set (b # ys) = {}"
  shows "dlist (list_add x a h) b ys"
  unfolding list_add_def
proof (rule dlist_add_between_other [OF assms(2)])
  show "{x, a, next_of h a} \<inter> insert b (set ys) = {}"
    using assms(3,4) dlist_head_members(2) [OF assms(1)] by (simp only: set_simps) blast
qed

lemma dlist_add_tail_other:
  assumes "dlist h a xs" and "dlist h b ys" and "x \<notin> set (b # ys)"
    and "set (a # xs) \<inter> set (b # ys) = {}"
  shows "dlist (list_add_tail x a h) b ys"
  unfolding list_add_tail_def
proof (rule dlist_add_between_other [OF assms(2)])
  show "{x, prev_of h a, a} \<inter> insert b (set ys) = {}"
    using assms(3,4) dlist_head_members(1) [OF assms(1)] by (simp only: set_simps) blast
qed

lemma dlist_del_init_other:
  assumes "dlist h a xs" and "x \<in> set xs" and "dlist h b ys"
    and "set (a # xs) \<inter> set (b # ys) = {}"
  shows "dlist (list_del_init x h) b ys"
proof -
  have "x \<notin> insert b (set ys)"
    using assms by auto
  then have "dlist (list_del_init x h) b ys = dlist (list_del_entry x h) b ys"
    unfolding list_del_init_def by (rule dlist_init_other)
  also have "\<dots> = dlist h b ys"
  proof (rule dlist_cong)
    have "{prev_of h x, next_of h x} \<inter> insert b (set ys) = {}"
      using assms(4) dlist_members [OF assms(1,2)] by (simp only: set_simps) blast
    then show "\<forall>w\<in>insert b (set ys). next_of (list_del_entry x h) w = next_of h w \<and>
      prev_of (list_del_entry x h) w = prev_of h w"
      by (auto simp: list_del_entry_def list_del_between_def)
  qed
  finally show ?thesis
    using assms by simp
qed

lemma dlist_not_empty_member: "dlist h a xs \<Longrightarrow> x \<in> set xs \<Longrightarrow> \<not> list_empty x h"
proof -
  assume d: "dlist h a xs" and "x \<in> set xs"
  then obtain ys zs where xs: "xs = ys @ x # zs"
    by (meson split_list)
  then have "next_of h x = hd (zs @ [a])" "x \<notin> set zs" "x \<noteq> a"
    using d dseg_first [of h x zs a] by (auto simp: dlist_def)
  then show ?thesis
    by (cases zs) (auto simp: list_empty_def)
qed

section \<open>The interface\<close>

text \<open>
  What a client of \<open>list.h\<close> relies on: a store represents a list at a head; adding at either
  end and deleting act on that list and on no other; an entry that was deleted with
  \<open>list_del_init\<close> is an empty list of its own, which is how \<open>task_queued\<close> tells a queued
  task from one that is not.
\<close>

locale intrusive_lists =
  fixes rep :: "'h \<Rightarrow> 'a \<Rightarrow> 'a list \<Rightarrow> bool"
    and add :: "'a \<Rightarrow> 'a \<Rightarrow> 'h \<Rightarrow> 'h"
    and add_tail :: "'a \<Rightarrow> 'a \<Rightarrow> 'h \<Rightarrow> 'h"
    and del_init :: "'a \<Rightarrow> 'h \<Rightarrow> 'h"
    and is_empty :: "'a \<Rightarrow> 'h \<Rightarrow> bool"
  assumes rep_add: "rep h a xs \<Longrightarrow> x \<notin> set (a # xs) \<Longrightarrow> rep (add x a h) a (x # xs)"
    and rep_add_tail: "rep h a xs \<Longrightarrow> x \<notin> set (a # xs) \<Longrightarrow> rep (add_tail x a h) a (xs @ [x])"
    and rep_del: "rep h a xs \<Longrightarrow> x \<in> set xs \<Longrightarrow> rep (del_init x h) a (remove1 x xs)"
    and rep_del_self: "rep h a xs \<Longrightarrow> x \<in> set xs \<Longrightarrow> rep (del_init x h) x []"
    and rep_empty: "rep h a xs \<Longrightarrow> is_empty a h \<longleftrightarrow> xs = []"
    and rep_member: "rep h a xs \<Longrightarrow> x \<in> set xs \<Longrightarrow> \<not> is_empty x h"
    and add_other: "rep h a xs \<Longrightarrow> rep h b ys \<Longrightarrow> x \<notin> set (b # ys) \<Longrightarrow>
      set (a # xs) \<inter> set (b # ys) = {} \<Longrightarrow> rep (add x a h) b ys"
    and add_tail_other: "rep h a xs \<Longrightarrow> rep h b ys \<Longrightarrow> x \<notin> set (b # ys) \<Longrightarrow>
      set (a # xs) \<inter> set (b # ys) = {} \<Longrightarrow> rep (add_tail x a h) b ys"
    and del_other: "rep h a xs \<Longrightarrow> x \<in> set xs \<Longrightarrow> rep h b ys \<Longrightarrow>
      set (a # xs) \<inter> set (b # ys) = {} \<Longrightarrow> rep (del_init x h) b ys"

interpretation kl: intrusive_lists dlist list_add list_add_tail list_del_init list_empty
proof (unfold_locales, goal_cases)
  case (1 h a xs x)
  then show ?case by (simp add: dlist_add)
next
  case (2 h a xs x)
  then show ?case by (simp add: dlist_add_tail)
next
  case 3
  then show ?case by (rule dlist_del_init)
next
  case 4
  then show ?case by (rule dlist_del_init)
next
  case 5
  then show ?case by (rule dlist_empty)
next
  case 6
  then show ?case by (rule dlist_not_empty_member)
next
  case 7
  then show ?case by (rule dlist_add_other)
next
  case 8
  then show ?case by (rule dlist_add_tail_other)
next
  case 9
  then show ?case by (rule dlist_del_init_other)
qed

text \<open>
  A family of run queues over one store: queue \<open>i\<close> hangs off the head \<open>H i\<close> and holds the
  entries \<open>N p\<close>; an item in no queue is an empty list of its own.
\<close>

definition run_lists ::
  "('h \<Rightarrow> 'a \<Rightarrow> 'a list \<Rightarrow> bool) \<Rightarrow> (nat \<Rightarrow> 'a) \<Rightarrow> ('p \<Rightarrow> 'a) \<Rightarrow> 'h \<Rightarrow> (nat \<Rightarrow> 'p list) \<Rightarrow> bool" where
  "run_lists rep H N h q \<longleftrightarrow>
     inj H \<and> inj N \<and> (\<forall>i p. H i \<noteq> N p) \<and>
     (\<forall>i. rep h (H i) (map N (q i))) \<and>
     (\<forall>p. (\<forall>i. p \<notin> set (q i)) \<longrightarrow> rep h (N p) []) \<and>
     (\<forall>i j p. p \<in> set (q i) \<longrightarrow> p \<in> set (q j) \<longrightarrow> i = j)"

lemma run_listsD:
  assumes "run_lists rep H N h q"
  shows "inj H" and "inj N" and "H i \<noteq> N p" and "N p \<noteq> H i" and "rep h (H i) (map N (q i))"
    and "(\<And>i. p \<notin> set (q i)) \<Longrightarrow> rep h (N p) []"
    and "p \<in> set (q i) \<Longrightarrow> p \<in> set (q j) \<Longrightarrow> i = j"
proof -
  note D = assms [unfolded run_lists_def]
  show "inj H" "inj N" "H i \<noteq> N p" "rep h (H i) (map N (q i))"
    using D by simp_all
  show "N p \<noteq> H i"
    using D by metis
  show "rep h (N p) []" if "\<And>i. p \<notin> set (q i)"
    using D that by simp
  show "i = j" if "p \<in> set (q i)" "p \<in> set (q j)"
    using D that by blast
qed

lemma run_lists_disjoint:
  assumes "run_lists rep H N h q" and "i \<noteq> j"
  shows "set (H i # map N (q i)) \<inter> set (H j # map N (q j)) = {}"
proof -
  note D = run_listsD [OF assms(1)]
  have "H i \<noteq> H j"
    by (simp add: inj_eq [OF D(1)] assms(2))
  moreover have "set (q i) \<inter> set (q j) = {}"
    using D(7) assms(2) by blast
  then have "N ` set (q i) \<inter> N ` set (q j) = {}"
    by (simp flip: image_Int [OF D(2)])
  ultimately show ?thesis
    by (auto simp: D(3,4))
qed

lemma run_lists_disjoint_free:
  assumes "run_lists rep H N h q" and "p \<notin> set (q i)"
  shows "set (H i # map N (q i)) \<inter> set [N p] = {}"
proof -
  note D = run_listsD [OF assms(1)]
  show ?thesis
    using assms(2) by (auto simp: D(3,4) inj_eq [OF D(2)])
qed

context intrusive_lists
begin

lemma queued_iff_nonempty:
  assumes "run_lists rep H N h q"
  shows "\<not> is_empty (N p) h \<longleftrightarrow> (\<exists>i. p \<in> set (q i))"
proof
  assume ne: "\<not> is_empty (N p) h"
  show "\<exists>i. p \<in> set (q i)"
  proof (rule ccontr)
    assume "\<not> (\<exists>i. p \<in> set (q i))"
    then have "rep h (N p) []"
      by (intro run_listsD(6) [OF assms]) simp
    with ne rep_empty show False by simp
  qed
next
  assume "\<exists>i. p \<in> set (q i)"
  then obtain i where "p \<in> set (q i)" ..
  then have "N p \<in> set (map N (q i))" by simp
  then show "\<not> is_empty (N p) h"
    by (rule rep_member [OF run_listsD(5) [OF assms]])
qed

lemma queue_empty_iff:
  assumes "run_lists rep H N h q"
  shows "is_empty (H i) h \<longleftrightarrow> q i = []"
  using rep_empty [OF run_listsD(5) [OF assms, of i]] by simp

lemma enqueue_tail_refines:
  assumes R: "run_lists rep H N h q" and new: "\<And>i. p \<notin> set (q i)"
  shows "run_lists rep H N (add_tail (N p) (H i) h) (q(i := q i @ [p]))"
proof -
  note D = run_listsD [OF R]
  have Np: "N p \<notin> set (H j # map N (q j))" for j
    by (simp add: D(4) inj_image_mem_iff [OF D(2)] new)
  have f1: "rep (add_tail (N p) (H i) h) (H j) (map N ((q(i := q i @ [p])) j))" for j
  proof (cases "j = i")
    case True
    then show ?thesis using rep_add_tail [OF D(5) Np] by simp
  next
    case False
    then show ?thesis
      using add_tail_other [OF D(5) D(5) Np run_lists_disjoint [OF R, of i j]] by simp
  qed
  have f2: "rep (add_tail (N p) (H i) h) (N r) []"
    if "\<forall>j. r \<notin> set ((q(i := q i @ [p])) j)" for r
  proof -
    have rp: "r \<noteq> p"
      using spec [OF that, of i] by simp
    have rq: "r \<notin> set (q j)" for j
      using spec [OF that, of j] by (auto split: if_splits)
    from rp have "N p \<notin> set [N r]"
      by (simp add: inj_eq [OF D(2)])
    then show ?thesis
      by (rule add_tail_other [OF D(5) D(6) [OF rq] _ run_lists_disjoint_free [OF R rq]])
  qed
  have f3: "k = j" if "r \<in> set ((q(i := q i @ [p])) k)" "r \<in> set ((q(i := q i @ [p])) j)" for k j r
  proof -
    have "r \<in> set (q k) \<or> k = i \<and> r = p" "r \<in> set (q j) \<or> j = i \<and> r = p"
      using that by (auto split: if_splits)
    then show ?thesis
      using new [of k] new [of j] D(7) [of r k j] by blast
  qed
  show ?thesis
    unfolding run_lists_def
    by (intro conjI allI impI D(1-3) f1) (erule f2, erule (1) f3)
qed

lemma enqueue_head_refines:
  assumes R: "run_lists rep H N h q" and new: "\<And>i. p \<notin> set (q i)"
  shows "run_lists rep H N (add (N p) (H i) h) (q(i := p # q i))"
proof -
  note D = run_listsD [OF R]
  have Np: "N p \<notin> set (H j # map N (q j))" for j
    by (simp add: D(4) inj_image_mem_iff [OF D(2)] new)
  have f1: "rep (add (N p) (H i) h) (H j) (map N ((q(i := p # q i)) j))" for j
  proof (cases "j = i")
    case True
    then show ?thesis using rep_add [OF D(5) Np] by simp
  next
    case False
    then show ?thesis
      using add_other [OF D(5) D(5) Np run_lists_disjoint [OF R, of i j]] by simp
  qed
  have f2: "rep (add (N p) (H i) h) (N r) []"
    if "\<forall>j. r \<notin> set ((q(i := p # q i)) j)" for r
  proof -
    have rp: "r \<noteq> p"
      using spec [OF that, of i] by simp
    have rq: "r \<notin> set (q j)" for j
      using spec [OF that, of j] by (auto split: if_splits)
    from rp have "N p \<notin> set [N r]"
      by (simp add: inj_eq [OF D(2)])
    then show ?thesis
      by (rule add_other [OF D(5) D(6) [OF rq] _ run_lists_disjoint_free [OF R rq]])
  qed
  have f3: "k = j" if "r \<in> set ((q(i := p # q i)) k)" "r \<in> set ((q(i := p # q i)) j)" for k j r
  proof -
    have "r \<in> set (q k) \<or> k = i \<and> r = p" "r \<in> set (q j) \<or> j = i \<and> r = p"
      using that by (auto split: if_splits)
    then show ?thesis
      using new [of k] new [of j] D(7) [of r k j] by blast
  qed
  show ?thesis
    unfolding run_lists_def
    by (intro conjI allI impI D(1-3) f1) (erule f2, erule (1) f3)
qed

lemma dequeue_refines:
  assumes R: "run_lists rep H N h q" and p: "p \<in> set (q i)" and dist: "distinct (q i)"
  shows "run_lists rep H N (del_init (N p) h) (q(i := remove1 p (q i)))"
proof -
  note D = run_listsD [OF R]
  have mem: "N p \<in> set (map N (q i))"
    using p by simp
  have f1: "rep (del_init (N p) h) (H j) (map N ((q(i := remove1 p (q i))) j))" for j
  proof (cases "j = i")
    case True
    have "remove1 (N p) (map N (q i)) = map N (remove1 p (q i))"
      by (rule remove1_map_inj [OF D(2)])
    then show ?thesis using rep_del [OF D(5) mem] True by simp
  next
    case False
    then show ?thesis
      using del_other [OF D(5) mem D(5) run_lists_disjoint [OF R, of i j]] by simp
  qed
  have f2: "rep (del_init (N p) h) (N r) []"
    if r: "\<forall>j. r \<notin> set ((q(i := remove1 p (q i))) j)" for r
  proof (cases "r = p")
    case True
    then show ?thesis using rep_del_self [OF D(5) mem] by simp
  next
    case False
    have rq: "r \<notin> set (q j)" for j
      using spec [OF r, of j] False by (auto split: if_splits)
    show ?thesis
      by (rule del_other [OF D(5) mem D(6) [OF rq] run_lists_disjoint_free [OF R rq]])
  qed
  have f3: "k = j"
    if "r \<in> set ((q(i := remove1 p (q i))) k)" "r \<in> set ((q(i := remove1 p (q i))) j)" for k j r
  proof -
    have "r \<in> set (q k)" "r \<in> set (q j)"
      using that by (auto split: if_splits dest: subsetD [OF set_remove1_subset])
    then show ?thesis by (rule D(7))
  qed
  show ?thesis
    unfolding run_lists_def
    by (intro conjI allI impI D(1-3) f1) (erule f2, erule (1) f3)
qed

end

section \<open>Readers that run beside an RCU writer\<close>

text \<open>
  A lockless reader only follows \<open>next\<close>.  \<open>fseg\<close> is the list it sees.
\<close>

fun fseg :: "'a lheap \<Rightarrow> 'a \<Rightarrow> 'a list \<Rightarrow> 'a \<Rightarrow> bool" where
  "fseg h a [] b \<longleftrightarrow> next_of h a = b"
| "fseg h a (x # xs) b \<longleftrightarrow> next_of h a = x \<and> fseg h x xs b"

lemma dseg_fseg: "dseg h a xs b \<Longrightarrow> fseg h a xs b"
  by (induction xs arbitrary: a) auto

lemma fseg_cong:
  "\<forall>x \<in> insert a (set xs). next_of h' x = next_of h x \<Longrightarrow> fseg h' a xs b = fseg h a xs b"
  by (induction xs arbitrary: a) auto

lemma for_each_fseg:
  assumes "fseg h a xs b" and "b \<notin> set xs" and "length xs < fuel"
  shows "list_for_each_from fuel (next_of h a) b h = Some xs"
  using assms
proof (induction xs arbitrary: a fuel)
  case Nil
  then show ?case by (cases fuel) auto
next
  case (Cons x xs)
  then obtain fuel' where "fuel = Suc fuel'" by (cases fuel) auto
  with Cons show ?case by auto
qed

lemma fseg_insert:
  assumes "fseg h a (ys @ zs) b" and "next_of h x = hd (zs @ [b])"
    and "distinct (a # ys @ zs)" and "x \<notin> insert a (set (ys @ zs))"
  shows "fseg (set_next (last (a # ys)) x h) a (ys @ x # zs) b"
  using assms
proof (induction ys arbitrary: a)
  case Nil
  show ?case
  proof (cases zs)
    case Nil
    with \<open>next_of h x = hd (zs @ [b])\<close> Nil.prems show ?thesis by auto
  next
    case (Cons z zs')
    have "fseg (set_next a x h) z zs' b = fseg h z zs' b"
      by (rule fseg_cong) (use Nil.prems Cons in auto)
    with Cons Nil.prems show ?thesis by auto
  qed
next
  case (Cons y ys)
  have "fseg (set_next (last (y # ys)) x h) y (ys @ x # zs) b"
    by (rule Cons.IH) (use Cons.prems in auto)
  moreover have "a \<noteq> last (y # ys)"
    using Cons.prems(3) last_in_set [of "y # ys"] by auto
  ultimately show ?case
    using Cons.prems(1) by simp
qed

text \<open>
  Whatever prefix of the four stores has reached memory, a reader that starts at the head sees
  the old list or the new one.
\<close>

lemma rcu_add_reader:
  assumes d: "dlist h a (ys @ zs)" and x: "x \<notin> insert a (set (ys @ zs))"
  shows "list_for_each (length (ys @ zs) + 2) a
      (fold id (take n (list_add_rcu_stores x (last (a # ys)) (hd (zs @ [a])))) h)
      \<in> {Some (ys @ zs), Some (ys @ x # zs)}"
proof -
  let ?p = "last (a # ys)" and ?n = "hd (zs @ [a])"
  let ?h1 = "set_next x ?n h"
  let ?h2 = "set_prev x ?p ?h1"
  let ?h3 = "set_next ?p x ?h2"
  let ?h4 = "set_prev ?n x ?h3"
  have f0: "fseg h a (ys @ zs) a" and nh: "a \<notin> set (ys @ zs)"
    using d dseg_fseg by (auto simp: dlist_def)
  have f2: "fseg ?h2 a (ys @ zs) a"
    using f0 by (subst fseg_cong [where h = h]) (use x in auto)
  have f3: "fseg ?h3 a (ys @ x # zs) a"
    by (rule fseg_insert [OF f2]) (use d x in \<open>auto simp: dlist_def\<close>)
  have f4: "fseg ?h4 a (ys @ x # zs) a"
    using f3 by (subst fseg_cong [where h = ?h3]) auto
  have old: "list_for_each (length (ys @ zs) + 2) a k = Some (ys @ zs)"
    if "fseg k a (ys @ zs) a" for k
    unfolding list_for_each_def by (rule for_each_fseg) (use that nh in auto)
  have new: "list_for_each (length (ys @ zs) + 2) a k = Some (ys @ x # zs)"
    if "fseg k a (ys @ x # zs) a" for k
    unfolding list_for_each_def by (rule for_each_fseg) (use that nh x in auto)
  have f1: "fseg ?h1 a (ys @ zs) a"
    using f0 by (subst fseg_cong [where h = h]) (use x in auto)
  consider "n = 0" | "n = 1" | "n = 2" | "n = 3" | "4 \<le> n" by linarith
  then show ?thesis
  proof cases
    case 1
    then show ?thesis using old [OF f0] by simp
  next
    case 2
    then show ?thesis using old [OF f1] by (simp add: list_add_rcu_stores_def)
  next
    case 3
    then show ?thesis using old [OF f2] by (simp add: list_add_rcu_stores_def numeral_2_eq_2)
  next
    case 4
    then show ?thesis using new [OF f3] by (simp add: list_add_rcu_stores_def numeral_3_eq_3)
  next
    case 5
    then have "take n (list_add_rcu_stores x ?p ?n) = list_add_rcu_stores x ?p ?n"
      by (simp add: list_add_rcu_stores_def)
    then show ?thesis using new [OF f4] by (simp add: list_add_rcu_stores_def)
  qed
qed

lemma list_add_rcu_eq: "x \<noteq> next_of h a \<Longrightarrow> list_add_rcu x a h = list_add x a h"
  by (cases h) (simp add: list_add_rcu_def list_add_def list_add_between_def
      list_add_rcu_stores_def set_next_def set_prev_def fun_upd_twist)

lemma list_add_tail_rcu_eq: "x \<noteq> a \<Longrightarrow> list_add_tail_rcu x a h = list_add_tail x a h"
  by (cases h) (simp add: list_add_tail_rcu_def list_add_tail_def list_add_between_def
      list_add_rcu_stores_def set_next_def set_prev_def fun_upd_twist)

lemma dlist_add_rcu:
  assumes "dlist h a xs" and "x \<notin> insert a (set xs)"
  shows "dlist (list_add_rcu x a h) a (x # xs)"
proof -
  have "x \<noteq> next_of h a"
    using dlist_head_members(2) [OF assms(1)] assms(2) by metis
  then show ?thesis
    using dlist_add [OF assms] by (simp add: list_add_rcu_eq)
qed

lemma dlist_add_tail_rcu:
  assumes "dlist h a xs" and "x \<notin> insert a (set xs)"
  shows "dlist (list_add_tail_rcu x a h) a (xs @ [x])"
proof -
  have "x \<noteq> a"
    using assms(2) by simp
  then show ?thesis
    using dlist_add_tail [OF assms] by (simp add: list_add_tail_rcu_eq)
qed

text \<open>
  After \<open>list_del_rcu\<close> the list has lost the entry, and a reader that stands on the entry
  still walks on to the rest of the list.
\<close>

lemma dlist_del_rcu:
  assumes "dlist h a xs" and "x \<in> set xs"
  shows "dlist (list_del_rcu poison2 x h) a (remove1 x xs)"
proof -
  have d: "distinct xs" "a \<notin> set xs"
    using assms by (auto simp: dlist_def)
  have "dlist (list_del_rcu poison2 x h) a (remove1 x xs) = dlist (list_del_entry x h) a (remove1 x xs)"
    by (rule dlist_cong) (use assms d in \<open>auto simp: list_del_rcu_def list_del_entry_def\<close>)
  with dlist_del_entry [OF assms] show ?thesis by simp
qed

lemma list_del_rcu_reader:
  assumes "dlist h a (ys @ x # zs)"
  shows "list_for_each_from (length zs + 2) x a (list_del_rcu poison2 x h) = Some (x # zs)"
proof -
  let ?h = "list_del_rcu poison2 x h"
  have d: "dseg h a ys x" "dseg h x zs a" "distinct (a # ys @ x # zs)"
    using assms by (auto simp: dlist_def)
  have p: "prev_of h x = last (a # ys)"
    by (rule dseg_last [OF d(1)])
  have "last (a # ys) \<in> set (a # ys)"
    by (rule last_in_set) simp
  then have "last (a # ys) \<notin> insert x (set zs)"
    using d(3) by (metis IntI distinct.simps(2) distinct_append empty_iff insertE list.simps(15) append_Cons)
  then have "fseg ?h x zs a = fseg h x zs a"
    by (intro fseg_cong) (auto simp: list_del_rcu_def list_del_between_def p)
  then have "list_for_each_from (Suc (length zs)) (next_of ?h x) a ?h = Some zs"
    using d by (intro for_each_fseg) (auto intro: dseg_fseg)
  then show ?thesis
    using d(3) by auto
qed

lemma dlist_replace_rcu:
  assumes "dlist h a (ys @ old # zs)" and "new \<notin> insert a (set (ys @ old # zs))"
  shows "dlist (list_replace_rcu poison2 old new h) a (ys @ new # zs)"
proof -
  let ?p = "last (a # ys)" and ?n = "hd (zs @ [a])"
  have d: "dseg h a ys old" "dseg h old zs a" "distinct (a # ys @ old # zs)"
    using assms by (auto simp: dlist_def)
  have pn: "prev_of h old = ?p" "next_of h old = ?n"
    by (rule dseg_last [OF d(1)], rule dseg_first [OF d(2)])
  have pin: "?p \<in> insert a (set ys)" and nin: "?n \<in> insert a (set zs)"
    by (cases ys rule: rev_cases; auto) (cases zs; auto)
  have eq: "list_replace_rcu poison2 old new h =
      set_prev old poison2 (set_prev ?n new (set_next ?p new (set_prev new ?p (set_next new ?n h))))"
    using assms(2) pin by (auto simp: list_replace_rcu_def Let_def pn)
  let ?h = "list_replace_rcu poison2 old new h"
  have "dseg ?h a ys new"
  proof (cases ys rule: rev_cases)
    case Nil
    with assms(2) d nin show ?thesis by (auto simp: eq)
  next
    case (snoc ys' u)
    have "dseg ?h a ys' u = dseg h a ys' u"
      by (rule dseg_cong) (use assms(2) d nin snoc in \<open>auto simp: eq\<close>)
    with snoc assms(2) d nin show ?thesis by (auto simp: eq)
  qed
  moreover have "dseg ?h new zs a"
  proof (cases zs)
    case Nil
    with assms(2) d pin show ?thesis by (auto simp: eq)
  next
    case (Cons z zs')
    have "dseg ?h z zs' a = dseg h z zs' a"
      by (rule dseg_cong) (use assms(2) d pin Cons in \<open>auto simp: eq\<close>)
    with Cons assms(2) d pin show ?thesis by (auto simp: eq)
  qed
  ultimately show ?thesis
    using assms(2) d by (auto simp: dlist_def)
qed

section \<open>Tables of records linked by RCU lists\<close>

text \<open>
  What a client of the RCU writers relies on, and what it derives: a head \<open>a\<close> links nodes whose
  payloads form a table (the list of payloads in list order), and each writer acts on the table
  as the corresponding list operation.
\<close>

locale rcu_table =
  fixes rep :: "'h \<Rightarrow> 'a \<Rightarrow> 'a list \<Rightarrow> bool"
    and add :: "'a \<Rightarrow> 'a \<Rightarrow> 'h \<Rightarrow> 'h"
    and add_tail :: "'a \<Rightarrow> 'a \<Rightarrow> 'h \<Rightarrow> 'h"
    and del :: "'a \<Rightarrow> 'h \<Rightarrow> 'h"
    and repl :: "'a \<Rightarrow> 'a \<Rightarrow> 'h \<Rightarrow> 'h"
    and walk :: "nat \<Rightarrow> 'a \<Rightarrow> 'h \<Rightarrow> 'a list option"
  assumes rep_distinct: "rep h a xs \<Longrightarrow> distinct (a # xs)"
    and rep_add: "rep h a xs \<Longrightarrow> x \<notin> insert a (set xs) \<Longrightarrow> rep (add x a h) a (x # xs)"
    and rep_add_tail: "rep h a xs \<Longrightarrow> x \<notin> insert a (set xs) \<Longrightarrow> rep (add_tail x a h) a (xs @ [x])"
    and rep_del: "rep h a xs \<Longrightarrow> x \<in> set xs \<Longrightarrow> rep (del x h) a (remove1 x xs)"
    and rep_repl: "rep h a (ys @ x # zs) \<Longrightarrow> y \<notin> insert a (set (ys @ x # zs)) \<Longrightarrow>
      rep (repl x y h) a (ys @ y # zs)"
    and rep_walk: "rep h a xs \<Longrightarrow> length xs < n \<Longrightarrow> walk n a h = Some xs"
begin

lemma map_other: "x \<notin> set xs \<Longrightarrow> map (node(x := v)) xs = map node xs"
  by (rule map_cong) auto

lemma table_walk:
  assumes "rep h a xs" and "finite live" and "set xs \<subseteq> live"
  shows "walk (Suc (card live)) a h = Some xs"
proof -
  have "length xs = card (set xs)"
    using rep_distinct [OF assms(1)] by (simp add: distinct_card)
  also have "\<dots> \<le> card live"
    by (rule card_mono [OF assms(2,3)])
  finally show ?thesis
    by (intro rep_walk [OF assms(1)]) simp
qed

lemma table_add:
  assumes "rep h a xs" and "x \<notin> insert a (set xs)"
  shows "rep (add x a h) a (x # xs)" and "map (node(x := v)) (x # xs) = v # map node xs"
  using rep_add [OF assms] assms(2) by (auto simp: map_other)

lemma table_add_tail:
  assumes "rep h a xs" and "x \<notin> insert a (set xs)"
  shows "rep (add_tail x a h) a (xs @ [x])" and "map (node(x := v)) (xs @ [x]) = map node xs @ [v]"
  using rep_add_tail [OF assms] assms(2) by (auto simp: map_other)

lemma table_del:
  assumes "rep h a (ys @ x # zs)"
  shows "rep (del x h) a (ys @ zs)"
proof -
  have "distinct (ys @ x # zs)" using rep_distinct [OF assms] by simp
  then have "remove1 x (ys @ x # zs) = ys @ zs" by (simp add: remove1_append)
  with rep_del [OF assms, of x] show ?thesis by simp
qed

lemma table_repl:
  assumes "rep h a (ys @ x # zs)" and "y \<notin> insert a (set (ys @ x # zs))"
  shows "rep (repl x y h) a (ys @ y # zs)"
    and "map (node(y := v)) (ys @ y # zs) = map node ys @ v # map node zs"
  using rep_repl [OF assms] assms(2) by (auto simp: map_other)

end

interpretation kt: rcu_table dlist list_add_rcu list_add_tail_rcu "list_del_rcu p2" "list_replace_rcu p2"
  list_for_each for p2
proof (unfold_locales, goal_cases)
  case 1
  then show ?case by (simp add: dlist_def)
next
  case 2
  then show ?case by (rule dlist_add_rcu)
next
  case 3
  then show ?case by (rule dlist_add_tail_rcu)
next
  case 4
  then show ?case by (rule dlist_del_rcu)
next
  case 5
  then show ?case by (rule dlist_replace_rcu)
next
  case 6
  then show ?case by (rule for_each_dlist)
qed

section \<open>Properties\<close>

text \<open>C8. RCU insertion is safe for concurrent readers: after any prefix of the four stores of
  \<open>list_add_rcu\<close> or \<open>list_add_tail_rcu\<close> a traversal from the head ends and sees either the old
  list or the new one, never a mixture, and with all four stores issued it sees the new one.\<close>
theorem rcu_insert_readers:
  assumes "dlist h a xs" and "x \<notin> insert a (set xs)"
  shows "list_for_each (length xs + 2) a (fold id (take n (list_add_rcu_stores x a (next_of h a))) h)
      \<in> {Some xs, Some (x # xs)} \<and>
    list_for_each (length xs + 2) a (fold id (take n (list_add_rcu_stores x (prev_of h a) a)) h)
      \<in> {Some xs, Some (xs @ [x])} \<and>
    list_for_each (length xs + 2) a (list_add_rcu x a h) = Some (x # xs) \<and>
    list_for_each (length xs + 2) a (list_add_tail_rcu x a h) = Some (xs @ [x])"
proof (intro conjI)
  have d: "dseg h a xs a" using assms(1) by (simp add: dlist_def)
  show "list_for_each (length xs + 2) a (fold id (take n (list_add_rcu_stores x a (next_of h a))) h)
      \<in> {Some xs, Some (x # xs)}"
    using rcu_add_reader [of h a "[]" xs x n] assms by (simp add: dseg_first [OF d])
  show "list_for_each (length xs + 2) a (fold id (take n (list_add_rcu_stores x (prev_of h a) a)) h)
      \<in> {Some xs, Some (xs @ [x])}"
    using rcu_add_reader [of h a xs "[]" x n] assms by (simp add: dseg_last [OF d])
  show "list_for_each (length xs + 2) a (list_add_rcu x a h) = Some (x # xs)"
    by (rule for_each_dlist [OF dlist_add_rcu [OF assms]]) simp
  show "list_for_each (length xs + 2) a (list_add_tail_rcu x a h) = Some (xs @ [x])"
    by (rule for_each_dlist [OF dlist_add_tail_rcu [OF assms]]) simp
qed

theorem rcu_insert_readers_witness:
  "list_for_each 3 (1::nat)
     (fold id (take 2 (list_add_rcu_stores 2 1 3)) \<lparr>next_of = (\<lambda>_. 1)(1 := 3), prev_of = (\<lambda>_. 1)(1 := 3)\<rparr>)
     \<in> {Some [3], Some [2, 3]}"
proof -
  let ?h = "\<lparr>next_of = (\<lambda>_. 1)(1 := 3), prev_of = (\<lambda>_. 1)(1 := 3)\<rparr> :: nat lheap"
  have "dlist ?h 1 [3]" by (simp add: dlist_def)
  then show ?thesis using rcu_insert_readers [of ?h 1 "[3]" 2 2] by (simp add: eval_nat_numeral)
qed

end
