(* ===== verification/Kstring.thy ===== *)
theory Kstring
  imports Kernel_Prelude
begin

text \<open>
  The string routines the \<open>/proc\<close> files rely on: number parsing (\<open>lib/kstrtox.c\<close> and the
  \<open>simple_strto*\<close> family of \<open>lib/vsprintf.c\<close>), token splitting (\<open>lib/string.c\<close>) and the
  decimal output of \<open>sprintf\<close> (\<open>put_dec\<close>, \<open>number\<close> of \<open>lib/vsprintf.c\<close>).

  A C string is the character list up to its terminating zero byte.  A pointer into a string is the
  suffix that starts there; the null pointer is \<^term>\<open>None\<close>.  The theory proves the
  multiply-and-shift decimal conversion equal to repeated division by ten, and that parsing
  undoes printing.
\<close>

unbundle bit_operations_syntax

section \<open>Characters\<close>

abbreviation ord :: "char \<Rightarrow> int" where
  "ord c \<equiv> int (of_char c)"

abbreviation chr :: "int \<Rightarrow> char" where
  "chr n \<equiv> char_of (nat n)"

definition cstr :: "char list \<Rightarrow> string" where
  "cstr mem = takeWhile (\<lambda>c. of_char c \<noteq> (0::nat)) mem"

definition tolower_fast :: "char \<Rightarrow> int" where
  "tolower_fast c = (if (ord c div 32) mod 2 = 1 then ord c else ord c + 32)"

definition isxdigit :: "char \<Rightarrow> bool" where
  "isxdigit c \<longleftrightarrow> (48 \<le> ord c \<and> ord c \<le> 57) \<or> (97 \<le> ord c \<and> ord c \<le> 102) \<or> (65 \<le> ord c \<and> ord c \<le> 70)"

section \<open>Parsing numbers\<close>

definition char_at :: "string \<Rightarrow> nat \<Rightarrow> char" where
  "char_at s i = (if i < length s then s ! i else CHR 0x00)"

definition parse_integer_fixup_radix :: "string \<Rightarrow> int \<Rightarrow> string \<times> int" where
  "parse_integer_fixup_radix s base =
     (let base' = (if base = 0 then
                     (if char_at s 0 = CHR ''0'' then
                        (if tolower_fast (char_at s 1) = 120 \<and> isxdigit (char_at s 2) then 16 else 8)
                      else 10)
                   else base)
      in (if base' = 16 \<and> char_at s 0 = CHR ''0'' \<and> tolower_fast (char_at s 1) = 120
          then drop 2 s else s, base'))"

definition digit_val :: "char \<Rightarrow> int option" where
  "digit_val c =
     (if 48 \<le> ord c \<and> ord c \<le> 57 then Some (ord c - 48)
      else if 97 \<le> tolower_fast c \<and> tolower_fast c \<le> 102 then Some (tolower_fast c - 97 + 10)
      else None)"

text \<open>The accumulator is \<open>*res\<close> (an \<open>unsigned long long\<close>), the count \<open>rv\<close> and the overflow
  flag; the result also carries the suffix that was not consumed.\<close>

fun parse_integer_loop ::
  "string \<Rightarrow> int \<Rightarrow> int \<Rightarrow> nat \<Rightarrow> bool \<Rightarrow> int \<times> nat \<times> bool" where
  "parse_integer_loop [] base res rv overflow = (res, rv, overflow)"
| "parse_integer_loop (c # s) base res rv overflow =
     (case digit_val c of
        None \<Rightarrow> (res, rv, overflow)
      | Some v \<Rightarrow>
          if base \<le> v then (res, rv, overflow)
          else parse_integer_loop s base (u64 (res * base + v)) (rv + 1)
                 (if (18446744073709551615 - v) div base < res then True else overflow))"

definition parse_integer :: "string \<Rightarrow> int \<Rightarrow> int \<times> nat \<times> bool" where
  "parse_integer s base = parse_integer_loop s base 0 0 False"

text \<open>The second component is what \<open>*endp\<close> points to.\<close>

definition simple_strtoull :: "string \<Rightarrow> int \<Rightarrow> int \<times> string" where
  "simple_strtoull cp base =
     (case parse_integer_fixup_radix cp base of
        (cp, base) \<Rightarrow> (case parse_integer cp base of (result, rv, _) \<Rightarrow> (result, drop rv cp)))"

definition simple_strtoul :: "string \<Rightarrow> int \<Rightarrow> int \<times> string" where
  "simple_strtoul cp base = simple_strtoull cp base"

definition simple_strtol :: "string \<Rightarrow> int \<Rightarrow> int \<times> string" where
  "simple_strtol cp base =
     (if char_at cp 0 = CHR ''-''
      then (case simple_strtoul (tl cp) base of (v, e) \<Rightarrow> (s64 (u64 (- v)), e))
      else (case simple_strtoul cp base of (v, e) \<Rightarrow> (s64 v, e)))"

section \<open>Splitting strings\<close>

fun strpbrk :: "string \<Rightarrow> string \<Rightarrow> string option" where
  "strpbrk [] ct = None"
| "strpbrk (c # cs) ct = (if c \<in> set ct then Some (c # cs) else strpbrk cs ct)"

text \<open>The first component is the token, the second the new value of \<open>*s\<close>; the byte after the
  token is overwritten by the terminator, so the token ends there.\<close>

definition strsep :: "string option \<Rightarrow> string \<Rightarrow> string option \<times> string option" where
  "strsep s ct =
     (case s of
        None \<Rightarrow> (None, None)
      | Some sbegin \<Rightarrow>
          (case strpbrk sbegin ct of
             None \<Rightarrow> (Some sbegin, None)
           | Some end \<Rightarrow> (Some (take (length sbegin - length end) sbegin), Some (tl end))))"

lemma strpbrk_dropWhile:
  "strpbrk s ct = (case dropWhile (\<lambda>c. c \<notin> set ct) s of [] \<Rightarrow> None | cs \<Rightarrow> Some cs)"
  by (induction s) auto

lemma strsep_found:
  assumes "\<forall>c\<in>set tok. c \<notin> set ct" and "d \<in> set ct"
  shows "strsep (Some (tok @ d # rest)) ct = (Some tok, Some rest)"
  using assms by (simp add: strsep_def strpbrk_dropWhile dropWhile_append2)

lemma strsep_last:
  assumes "\<forall>c\<in>set tok. c \<notin> set ct"
  shows "strsep (Some tok) ct = (Some tok, None)"
proof -
  have "dropWhile (\<lambda>c. c \<notin> set ct) tok = []"
    using assms by (simp add: dropWhile_eq_Nil_conv)
  then show ?thesis
    by (simp only: strsep_def strpbrk_dropWhile option.case list.case)
qed

section \<open>Printing numbers\<close>

definition digit_chr :: "int \<Rightarrow> char" where
  "digit_chr d = chr (d + 48)"

text \<open>Digits come least significant first, as the code stores them.  The \<open>unsigned\<close>
  subtractions wrap at 32 bits.\<close>

definition put_dec_trunc :: "int \<Rightarrow> string" where
  "put_dec_trunc q =
     (let d1 = (q div 16) mod 16; d2 = (q div 256) mod 16; d3 = q div 4096;
          d0 = 6 * (d3 + d2 + d1) + q mod 16;
          q = d0 * 205 div 2048; d0 = u32 (d0 - 10 * q);
          d1 = q + 9 * d3 + 5 * d2 + d1
      in digit_chr d0 #
         (if d1 \<noteq> 0 then
            let q = d1 * 205 div 2048; d1 = u32 (d1 - 10 * q); d2 = q + 2 * d2 in
            digit_chr d1 #
            (if d2 \<noteq> 0 \<or> d3 \<noteq> 0 then
               let q = d2 * 13 div 128; d2 = u32 (d2 - 10 * q); d3 = q + 4 * d3 in
               digit_chr d2 #
               (if d3 \<noteq> 0 then
                  let q = d3 * 205 div 2048; d3 = u32 (d3 - 10 * q) in
                  digit_chr d3 # (if q \<noteq> 0 then [digit_chr q] else [])
                else [])
             else [])
          else []))"

definition put_dec_full :: "int \<Rightarrow> string" where
  "put_dec_full q =
     (let d1 = (q div 16) mod 16; d2 = (q div 256) mod 16; d3 = q div 4096;
          d0 = 6 * (d3 + d2 + d1) + q mod 16;
          q = d0 * 205 div 2048; d0 = u32 (d0 - 10 * q);
          d1 = q + 9 * d3 + 5 * d2 + d1;
          q = d1 * 205 div 2048; d1 = u32 (d1 - 10 * q);
          d2 = q + 2 * d2;
          q = d2 * 13 div 128; d2 = u32 (d2 - 10 * q);
          d3 = q + 4 * d3;
          q = d3 * 205 div 2048; d3 = u32 (d3 - 10 * q)
      in [digit_chr d0, digit_chr d1, digit_chr d2, digit_chr d3, digit_chr q])"

function put_dec :: "int \<Rightarrow> string" where
  "put_dec num =
     (if num < 100000 then put_dec_trunc num
      else put_dec_full (num mod 100000) @ put_dec (num div 100000))"
  by pat_completeness auto
termination
  by (relation "measure nat") auto

declare put_dec.simps [simp del]

text \<open>Reference: repeated division by ten.\<close>

function dec_rev :: "int \<Rightarrow> string" where
  "dec_rev n = (if n < 10 then [digit_chr n] else digit_chr (n mod 10) # dec_rev (n div 10))"
  by pat_completeness auto
termination
  by (relation "measure nat") auto

declare dec_rev.simps [simp del]

subsection \<open>The divisions by multiplication\<close>

lemma div10_split:
  fixes d :: int
  assumes "d = 10 * k + r" and "0 \<le> r" and "r < 10"
  shows "d div 10 = k"
  using assms by (intro int_div_pos_eq) auto

lemma ten_split:
  obtains k r where "d = 10 * k + r" "0 \<le> r" "r < (10::int)"
  by (rule that [of "d div 10" "d mod 10"]) simp_all

lemma div10_205:
  assumes "0 \<le> d" and "d < 1029"
  shows "d * 205 div 2048 = d div (10::int)"
proof -
  obtain k r where kr: "d = 10 * k + r" "0 \<le> r" "r < 10" by (rule ten_split)
  have "r = 9 \<and> k < 102 \<or> r \<le> 8 \<and> k < 103" using kr assms by linarith
  then have "2 * k + 205 * r < 2048" by linarith
  moreover have "0 \<le> k" using kr assms by linarith
  ultimately have "d * 205 div 2048 = k"
    using kr by (intro int_div_pos_eq [of _ _ _ "2 * k + 205 * r"]) auto
  with div10_split [OF kr] show ?thesis by simp
qed

lemma div10_13:
  assumes "0 \<le> d" and "d < 69"
  shows "d * 13 div 128 = d div (10::int)"
proof -
  obtain k r where kr: "d = 10 * k + r" "0 \<le> r" "r < 10" by (rule ten_split)
  have "r = 9 \<and> k < 6 \<or> r \<le> 8 \<and> k < 7" using kr assms by linarith
  then have "2 * k + 13 * r < 128" by linarith
  moreover have "0 \<le> k" using kr assms by linarith
  ultimately have "d * 13 div 128 = k"
    using kr by (intro int_div_pos_eq [of _ _ _ "2 * k + 13 * r"]) auto
  with div10_split [OF kr] show ?thesis by simp
qed

lemma u32_mod10: "0 \<le> d \<Longrightarrow> u32 (d - 10 * (d div 10)) = d mod 10"
  by (simp add: u32_def minus_mult_div_eq_mod)

text \<open>The intermediate values of both routines, for a number below 100000: each step splits
  off one decimal digit and leaves the number divided by ten, spread over the remaining
  hexadecimal digits.\<close>

definition dec_steps :: "int \<Rightarrow> int \<times> int \<times> int \<times> int" where
  "dec_steps q =
     (let a1 = (q div 16) mod 16; a2 = (q div 256) mod 16; a3 = q div 4096;
          d0 = 6 * (a3 + a2 + a1) + q mod 16;
          d1 = d0 div 10 + 9 * a3 + 5 * a2 + a1;
          d2 = d1 div 10 + 2 * a2;
          d3 = d2 div 10 + 4 * a3
      in (d0, d1, d2, d3))"

lemma dec_stepsD:
  assumes "dec_steps q = (d0, d1, d2, d3)"
  shows "d0 = 6 * (q div 4096 + (q div 256) mod 16 + (q div 16) mod 16) + q mod 16"
    and "d1 = d0 div 10 + 9 * (q div 4096) + 5 * ((q div 256) mod 16) + (q div 16) mod 16"
    and "d2 = d1 div 10 + 2 * ((q div 256) mod 16)"
    and "d3 = d2 div 10 + 4 * (q div 4096)"
  by (insert assms, unfold dec_steps_def Let_def prod.inject) (elim conjE, hypsubst, rule refl)+

lemma hex_digits:
  fixes q :: int
  shows "q = q mod 16 + 16 * ((q div 16) mod 16) + 256 * ((q div 256) mod 16) + 4096 * (q div 4096)"
proof -
  have "q div 256 = q div 16 div 16" "q div 4096 = q div 256 div 16"
    by (simp_all add: zdiv_zmult2_eq [symmetric])
  then have "q div 16 = 16 * (q div 256) + (q div 16) mod 16"
    "q div 256 = 16 * (q div 4096) + (q div 256) mod 16"
    by (metis mult_div_mod_eq)+
  moreover have "q = 16 * (q div 16) + q mod 16" by simp
  ultimately show ?thesis by linarith
qed

lemma dec_steps_bounds:
  assumes "0 \<le> q" and "q < 100000" and "dec_steps q = (d0, d1, d2, d3)"
  shows "0 \<le> d0" "d0 < 1029" "0 \<le> d1" "d1 < 1029" "0 \<le> d2" "d2 < 69" "0 \<le> d3" "d3 < 1029"
    and "q = d0 mod 10 + 10 * (d1 mod 10) + 100 * (d2 mod 10) + 1000 * d3"
proof -
  define a0 a1 a2 a3 where "a0 = q mod 16" and "a1 = (q div 16) mod 16"
    and "a2 = (q div 256) mod 16" and "a3 = q div 4096"
  have a: "0 \<le> a0" "a0 \<le> 15" "0 \<le> a1" "a1 \<le> 15" "0 \<le> a2" "a2 \<le> 15" "0 \<le> a3" "a3 \<le> 24"
    using assms(1,2) zdiv_mono1 [of q 99999 4096] pos_mod_bound [of 16 "q div 16"]
      pos_mod_bound [of 16 "q div 256"] pos_mod_bound [of 16 q]
    by (simp_all add: a0_def a1_def a2_def a3_def)
  have q: "q = a0 + 16 * a1 + 256 * a2 + 4096 * a3"
    unfolding a0_def a1_def a2_def a3_def by (rule hex_digits)
  obtain q0 r0 where e0: "d0 = 10 * q0 + r0" "0 \<le> r0" "r0 < 10" by (rule ten_split)
  obtain q1 r1 where e1: "d1 = 10 * q1 + r1" "0 \<le> r1" "r1 < 10" by (rule ten_split)
  obtain q2 r2 where e2: "d2 = 10 * q2 + r2" "0 \<le> r2" "r2 < 10" by (rule ten_split)
  note e = div10_split [OF e0] div10_split [OF e1] div10_split [OF e2]
  have "d0 = 6 * (a3 + a2 + a1) + a0" and d1: "d1 = q0 + 9 * a3 + 5 * a2 + a1"
    and d2: "d2 = q1 + 2 * a2" and d3: "d3 = q2 + 4 * a3"
    unfolding a0_def a1_def a2_def a3_def e [symmetric] by (fact dec_stepsD [OF assms(3)])+
  then have d0: "d0 = 6 * a3 + 6 * a2 + 6 * a1 + a0" by simp
  have q0: "0 \<le> q0" "q0 \<le> 33" using a d0 e0 by linarith+
  have q1: "0 \<le> q1" "q1 \<le> 33" using a d1 q0 e1 by linarith+
  have q2: "0 \<le> q2" "q2 \<le> 6" using a d2 q1 e2 by linarith+
  show "0 \<le> d0" "d0 < 1029" using a d0 by linarith+
  show "0 \<le> d1" "d1 < 1029" using a d1 q0 by linarith+
  show "0 \<le> d2" "d2 < 69" using a d2 q1 by linarith+
  show "0 \<le> d3" "d3 < 1029" using a d3 q2 by linarith+
  have "d0 mod 10 = r0" "d1 mod 10 = r1" "d2 mod 10 = r2"
    using e0 e1 e2 by simp_all
  then show "q = d0 mod 10 + 10 * (d1 mod 10) + 100 * (d2 mod 10) + 1000 * d3"
    using q d0 d1 d2 d3 e0(1) e1(1) e2(1) by simp
qed

lemma put_dec_full_steps:
  assumes "0 \<le> q" and "q < 100000" and "dec_steps q = (d0, d1, d2, d3)"
  shows "put_dec_full q =
    map digit_chr [d0 mod 10, d1 mod 10, d2 mod 10, d3 mod 10, d3 div 10]"
proof -
  note b = dec_steps_bounds [OF assms]
  define a1 a2 a3 where "a1 = (q div 16) mod 16" and "a2 = (q div 256) mod 16" and "a3 = q div 4096"
  have d: "d0 = 6 * (a3 + a2 + a1) + q mod 16" "d1 = d0 div 10 + 9 * a3 + 5 * a2 + a1"
    "d2 = d1 div 10 + 2 * a2" "d3 = d2 div 10 + 4 * a3"
    unfolding a1_def a2_def a3_def by (fact dec_stepsD [OF assms(3)])+
  show ?thesis
    unfolding put_dec_full_def Let_def a1_def [symmetric] a2_def [symmetric] a3_def [symmetric]
      d(1) [symmetric] div10_205 [OF b(1,2)] d(2) [symmetric] div10_205 [OF b(3,4)]
      d(3) [symmetric] div10_13 [OF b(5,6)] d(4) [symmetric] div10_205 [OF b(7,8)]
      u32_mod10 [OF b(1)] u32_mod10 [OF b(3)] u32_mod10 [OF b(5)] u32_mod10 [OF b(7)]
    by simp
qed

lemma put_dec_trunc_steps:
  assumes "0 \<le> q" and "q < 100000" and "dec_steps q = (d0, d1, d2, d3)"
  shows "put_dec_trunc q = map digit_chr
    (d0 mod 10 # (if d1 = 0 then [] else d1 mod 10 #
      (if d2 = 0 \<and> q div 4096 = 0 then [] else d2 mod 10 #
      (if d3 = 0 then [] else d3 mod 10 # (if d3 div 10 = 0 then [] else [d3 div 10])))))"
proof -
  note b = dec_steps_bounds [OF assms]
  define a1 a2 a3 where "a1 = (q div 16) mod 16" and "a2 = (q div 256) mod 16" and "a3 = q div 4096"
  have d: "d0 = 6 * (a3 + a2 + a1) + q mod 16" "d1 = d0 div 10 + 9 * a3 + 5 * a2 + a1"
    "d2 = d1 div 10 + 2 * a2" "d3 = d2 div 10 + 4 * a3"
    unfolding a1_def a2_def a3_def by (fact dec_stepsD [OF assms(3)])+
  show ?thesis
    unfolding put_dec_trunc_def Let_def a1_def [symmetric] a2_def [symmetric] a3_def [symmetric]
      d(1) [symmetric] div10_205 [OF b(1,2)] d(2) [symmetric] div10_205 [OF b(3,4)]
      d(3) [symmetric] div10_13 [OF b(5,6)] d(4) [symmetric] div10_205 [OF b(7,8)]
      u32_mod10 [OF b(1)] u32_mod10 [OF b(3)] u32_mod10 [OF b(5)] u32_mod10 [OF b(7)]
    by simp
qed

subsection \<open>Equality with repeated division\<close>

lemma dec_rev_step:
  assumes "0 \<le> r" and "r < 10" and "0 \<le> m"
  shows "dec_rev (r + 10 * m) = digit_chr r # (if m = 0 then [] else dec_rev m)"
proof (cases "m = 0")
  case True
  with assms show ?thesis by (simp add: dec_rev.simps [of r])
next
  case False
  then have "\<not> r + 10 * m < 10" using assms by linarith
  moreover have "(r + 10 * m) div 10 = m" "(r + 10 * m) mod 10 = r"
    using assms by (simp_all add: div10_split [of "r + 10 * m" m r])
  ultimately show ?thesis
    using False by (subst dec_rev.simps) simp
qed

lemma dec_rev_step_pos:
  "0 \<le> r \<Longrightarrow> r < 10 \<Longrightarrow> 0 < m \<Longrightarrow> dec_rev (r + 10 * m) = digit_chr r # dec_rev m"
  by (simp add: dec_rev_step)

lemma sum10_zero: "0 \<le> x \<Longrightarrow> 0 \<le> y \<Longrightarrow> x + 10 * y = 0 \<longleftrightarrow> x = 0 \<and> y = (0::int)"
  by linarith

lemma dec_zero_aux:
  fixes d1 :: int
  assumes "d1 = q0 + 9 * a3 + 5 * a2 + a1" "d1 = 10 * q1 + r1" "d2 = q1 + 2 * a2" "d2 = 10 * q2 + r2"
    "d3 = q2 + 4 * a3" "0 \<le> a1" "0 \<le> a2" "0 \<le> a3" "0 \<le> q0" "0 \<le> q1" "0 \<le> q2" "0 \<le> r1" "0 \<le> r2"
  shows "d2 = 0 \<and> a3 = 0 \<longleftrightarrow> r2 + 10 * d3 = 0" and "d1 = 0 \<longleftrightarrow> r1 + 10 * (r2 + 10 * d3) = 0"
proof -
  have "r2 + 10 * d3 = 0 \<longleftrightarrow> r2 = 0 \<and> d3 = 0"
    using assms by (intro sum10_zero) linarith+
  moreover have "d3 = 0 \<longleftrightarrow> q2 = 0 \<and> a3 = 0" "d2 = 0 \<longleftrightarrow> q2 = 0 \<and> r2 = 0" "d2 = 0 \<longleftrightarrow> q1 = 0 \<and> a2 = 0"
    "d1 = 0 \<longleftrightarrow> q1 = 0 \<and> r1 = 0" "d1 = 0 \<longleftrightarrow> q0 = 0 \<and> a3 = 0 \<and> a2 = 0 \<and> a1 = 0"
    using assms by linarith+
  moreover have "r1 + 10 * (r2 + 10 * d3) = 0 \<longleftrightarrow> r1 = 0 \<and> r2 + 10 * d3 = 0"
    using assms by (intro sum10_zero) linarith+
  ultimately show "d2 = 0 \<and> a3 = 0 \<longleftrightarrow> r2 + 10 * d3 = 0" "d1 = 0 \<longleftrightarrow> r1 + 10 * (r2 + 10 * d3) = 0"
    by blast+
qed

lemma dec_steps_zero:
  assumes "0 \<le> q" and "q < 100000" and "dec_steps q = (d0, d1, d2, d3)"
  shows "d2 = 0 \<and> q div 4096 = 0 \<longleftrightarrow> d2 mod 10 + 10 * d3 = 0"
    and "d1 = 0 \<longleftrightarrow> d1 mod 10 + 10 * (d2 mod 10 + 10 * d3) = 0"
proof -
  note b = dec_steps_bounds [OF assms] and d = dec_stepsD [OF assms(3)]
  have a: "0 \<le> (q div 16) mod 16" "0 \<le> (q div 256) mod 16" "0 \<le> q div 4096"
    "0 \<le> d0 div 10" "0 \<le> d1 div 10" "0 \<le> d2 div 10" "0 \<le> d1 mod 10" "0 \<le> d2 mod 10"
    using b(1,3,5) assms(1) by (simp_all add: pos_imp_zdiv_nonneg_iff)
  have e: "d1 = 10 * (d1 div 10) + d1 mod 10" "d2 = 10 * (d2 div 10) + d2 mod 10" by simp_all
  note aux = dec_zero_aux [OF d(2) e(1) d(3) e(2) d(4) a]
  show "d2 = 0 \<and> q div 4096 = 0 \<longleftrightarrow> d2 mod 10 + 10 * d3 = 0" by (rule aux(1))
  show "d1 = 0 \<longleftrightarrow> d1 mod 10 + 10 * (d2 mod 10 + 10 * d3) = 0" by (rule aux(2))
qed

lemma put_dec_trunc_dec_rev:
  assumes "0 \<le> q" and "q < 100000"
  shows "put_dec_trunc q = dec_rev q"
proof -
  obtain d0 d1 d2 d3 where s: "dec_steps q = (d0, d1, d2, d3)" by (cases "dec_steps q")
  note b = dec_steps_bounds [OF assms s] and z = dec_steps_zero [OF assms s]
  have r: "0 \<le> x mod 10" "x mod 10 < 10" for x :: int by simp_all
  have q: "q = d0 mod 10 + 10 * (d1 mod 10 + 10 * (d2 mod 10 + 10 * d3))" using b(9) by simp
  have n: "0 \<le> d2 mod 10 + 10 * d3" "0 \<le> d1 mod 10 + 10 * (d2 mod 10 + 10 * d3)"
    using r [of d2] r [of d1] b(7) by simp_all
  have "d3 < 100" using b(9) r [of d0] r [of d1] r [of d2] assms(2) by linarith
  then have t: "0 \<le> d3 div 10" "d3 div 10 < 10" using b(7) by (simp_all add: pos_imp_zdiv_nonneg_iff div_less_iff_less_mult)
  have d3: "dec_rev d3 = digit_chr (d3 mod 10) # (if d3 div 10 = 0 then [] else [digit_chr (d3 div 10)])"
    using dec_rev_step [OF r t(1), of d3] t by (simp add: dec_rev.simps [of "d3 div 10"])
  define m2 m1 where "m2 = d2 mod 10 + 10 * d3" and "m1 = d1 mod 10 + 10 * m2"
  have "dec_rev q = digit_chr (d0 mod 10) # (if m1 = 0 then [] else dec_rev m1)"
    unfolding m1_def m2_def by (subst q) (intro dec_rev_step r n)
  moreover have "dec_rev m1 = digit_chr (d1 mod 10) # (if m2 = 0 then [] else dec_rev m2)"
    unfolding m1_def m2_def by (intro dec_rev_step r n)
  moreover have "dec_rev m2 = digit_chr (d2 mod 10) # (if d3 = 0 then [] else dec_rev d3)"
    unfolding m2_def by (intro dec_rev_step r b(7))
  ultimately show ?thesis
    unfolding put_dec_trunc_steps [OF assms s] z m2_def [symmetric] m1_def [symmetric] d3
    by (simp only: list.map if_distrib [of "map digit_chr"] if_cancel cong: if_cong)
qed

lemma put_dec_full_dec_rev:
  assumes "0 \<le> q" and "q < 100000" and "0 < m"
  shows "put_dec_full q @ dec_rev m = dec_rev (q + 100000 * m)"
proof -
  obtain d0 d1 d2 d3 where s: "dec_steps q = (d0, d1, d2, d3)" by (cases "dec_steps q")
  note b = dec_steps_bounds [OF assms(1,2) s]
  have r: "0 \<le> x mod 10" "x mod 10 < 10" for x :: int by simp_all
  have "d3 < 100" using b(9) r [of d0] r [of d1] r [of d2] assms(2) by linarith
  then have t: "0 \<le> d3 div 10" "d3 div 10 < 10" using b(7) by (simp_all add: pos_imp_zdiv_nonneg_iff div_less_iff_less_mult)
  define r0 r1 r2 r3 r4 where "r0 = d0 mod 10" and "r1 = d1 mod 10" and "r2 = d2 mod 10"
    and "r3 = d3 mod 10" and "r4 = d3 div 10"
  have rr: "0 \<le> r0" "r0 < 10" "0 \<le> r1" "r1 < 10" "0 \<le> r2" "r2 < 10" "0 \<le> r3" "r3 < 10" "0 \<le> r4" "r4 < 10"
    using t by (simp_all add: r0_def r1_def r2_def r3_def r4_def)
  have "d3 = 10 * r4 + r3" by (simp add: r3_def r4_def)
  then have q: "q + 100000 * m = r0 + 10 * (r1 + 10 * (r2 + 10 * (r3 + 10 * (r4 + 10 * m))))"
    using b(9) by (simp add: r0_def r1_def r2_def)
  have n: "0 < r4 + 10 * m" "0 < r3 + 10 * (r4 + 10 * m)" "0 < r2 + 10 * (r3 + 10 * (r4 + 10 * m))"
    "0 < r1 + 10 * (r2 + 10 * (r3 + 10 * (r4 + 10 * m)))"
    using rr assms(3) by simp_all
  have "dec_rev (q + 100000 * m) = map digit_chr [r0, r1, r2, r3, r4] @ dec_rev m"
    unfolding q list.map append.simps
      dec_rev_step_pos [OF rr(1,2) n(4)] dec_rev_step_pos [OF rr(3,4) n(3)]
      dec_rev_step_pos [OF rr(5,6) n(2)] dec_rev_step_pos [OF rr(7,8) n(1)]
      dec_rev_step_pos [OF rr(9,10) assms(3)]
    by (rule refl)
  then show ?thesis
    by (simp add: put_dec_full_steps [OF assms(1,2) s] r0_def r1_def r2_def r3_def r4_def)
qed

lemma put_dec_dec_rev: "0 \<le> num \<Longrightarrow> put_dec num = dec_rev num"
proof (induction num rule: put_dec.induct)
  case (1 num)
  show ?case
  proof (cases "num < 100000")
    case True
    with 1 show ?thesis by (simp add: put_dec.simps [of num] put_dec_trunc_dec_rev)
  next
    case False
    then have m: "0 < num div 100000" by (simp add: pos_imp_zdiv_pos_iff)
    with 1 False have "put_dec num = put_dec_full (num mod 100000) @ dec_rev (num div 100000)"
      by (simp add: put_dec.simps [of num])
    also have "\<dots> = dec_rev num"
      by (subst put_dec_full_dec_rev) (simp_all add: m)
    finally show ?thesis .
  qed
qed

section \<open>number\<close>

record printf_spec =
  fl_zeropad :: bool
  fl_sign :: bool
  fl_plus :: bool
  fl_space :: bool
  fl_left :: bool
  fl_small :: bool
  fl_special :: bool
  sp_base :: int
  field_width :: int
  precision :: int

text \<open>\<open>while (--w >= 0) emit c\<close>: the characters and the final value of \<open>w\<close>.\<close>

definition pad_loop :: "int \<Rightarrow> char \<Rightarrow> string \<times> int" where
  "pad_loop w c = (replicate (nat w) c, if 0 \<le> w then - 1 else w - 1)"

definition hex_digit :: "bool \<Rightarrow> int \<Rightarrow> char" where
  "hex_digit locase d = (if d < 10 then chr (48 + d) else if locase then chr (97 + d - 10) else chr (65 + d - 10))"

function put_pow2 :: "int \<Rightarrow> bool \<Rightarrow> int \<Rightarrow> string" where
  "put_pow2 base locase num =
     hex_digit locase (num mod base) #
       (if num \<le> 0 \<or> base \<le> 1 \<or> num div base = 0 then [] else put_pow2 base locase (num div base))"
  by pat_completeness auto
termination
proof (relation "measure (\<lambda>(base, locase, num). nat num)", goal_cases)
  case (2 base locase num)
  then have "num div base < num" by (intro int_div_less_self) linarith+
  with 2 show ?case by simp
qed simp

declare put_pow2.simps [simp del]

definition number :: "printf_spec \<Rightarrow> int \<Rightarrow> string" where
  "number spec num =
     (let need_pfx = (fl_special spec \<and> sp_base spec \<noteq> 10);
          locase = fl_small spec;
          zeropad = (fl_zeropad spec \<and> \<not> fl_left spec);
          sgn = (if fl_sign spec then
                   (if s64 num < 0 then ''-'' else if fl_plus spec then ''+''
                    else if fl_space spec then '' '' else [])
                 else []);
          num = (if fl_sign spec \<and> s64 num < 0 then u64 (- s64 num) else num);
          w = field_width spec - (if sgn = [] then 0 else 1)
              - (if need_pfx then (if sp_base spec = 16 then 2 else 1) else 0);
          tmp = (if num = 0 then ''0''
                 else if sp_base spec \<noteq> 10
                 then put_pow2 (if sp_base spec = 16 then 16 else 8) locase num
                 else put_dec num);
          i = int (length tmp);
          prec = max i (precision spec);
          w = w - prec;
          (lead, w) = (if \<not> zeropad \<and> \<not> fl_left spec then pad_loop w CHR '' '' else ([], w));
          pfx = (if need_pfx then
                   CHR ''0'' # (if sp_base spec = 16 then [if locase then CHR ''x'' else CHR ''X''] else [])
                 else []);
          (pad, w) = (if \<not> fl_left spec
                      then pad_loop w (if zeropad then CHR ''0'' else CHR '' '') else ([], w));
          zeros = replicate (nat (prec - i)) CHR ''0'';
          (trail, w) = pad_loop w CHR '' ''
      in lead @ sgn @ pfx @ pad @ zeros @ rev tmp @ trail)"

text \<open>The conversions \<open>%d\<close> and \<open>%lld\<close>: no flags but \<open>SIGN\<close>, no width, no precision; the
  argument is widened to \<open>unsigned long long\<close>.\<close>

definition dspec :: printf_spec where
  "dspec = \<lparr>fl_zeropad = False, fl_sign = True, fl_plus = False, fl_space = False, fl_left = False,
     fl_small = False, fl_special = False, sp_base = 10, field_width = - 1, precision = - 1\<rparr>"

definition fmt_d :: "int \<Rightarrow> string" where
  "fmt_d x = number dspec (u64 x)"

definition dec :: "int \<Rightarrow> string" where
  "dec x = (if x < 0 then CHR ''-'' # rev (dec_rev (- x)) else rev (dec_rev x))"

lemma dec_rev_0: "dec_rev 0 = ''0''"
  by code_simp

lemma pad_loop_neg: "w < 0 \<Longrightarrow> pad_loop w c = ([], w - 1)"
  by (simp add: pad_loop_def)

lemma number_dspec:
  assumes "in_s64 x"
  shows "number dspec (u64 x) = dec x"
proof -
  define num where "num = (if x < 0 then u64 (- x) else u64 x)"
  have s: "s64 (u64 x) = x" using assms by (simp add: s64_def u64_def in_s64_def mod_simps)
  have u: "u64 (- x) = - x" if "x < 0"
    using that assms by (simp add: u64_def in_s64_def)
  have v: "u64 x = x" if "\<not> x < 0"
    using that assms by (simp add: u64_def in_s64_def)
  define tmp where "tmp = (if num = 0 then ''0'' else put_dec num)"
  have tmp: "tmp = dec_rev num"
    by (auto simp: tmp_def num_def dec_rev_0 put_dec_dec_rev)
  have "number dspec (u64 x) = (if x < 0 then ''-'' else []) @ rev tmp"
    by (auto simp: number_def dspec_def s Let_def num_def tmp_def pad_loop_neg split: prod.splits)
  then show ?thesis
    by (simp add: tmp dec_def num_def u v)
qed

section \<open>Parsing undoes printing\<close>

lemma fmt_d_dec: "in_s64 x \<Longrightarrow> fmt_d x = dec x"
  by (simp add: fmt_d_def number_dspec)

lemma ord_digit [simp]: "0 \<le> d \<Longrightarrow> d < 10 \<Longrightarrow> ord (digit_chr d) = d + 48"
  by (simp add: digit_chr_def)

lemma digit_val_digit [simp]: "0 \<le> d \<Longrightarrow> d < 10 \<Longrightarrow> digit_val (digit_chr d) = Some d"
  by (simp add: digit_val_def)

definition stops :: "int \<Rightarrow> string \<Rightarrow> bool" where
  "stops base s \<longleftrightarrow> (case s of [] \<Rightarrow> True | c # _ \<Rightarrow> (case digit_val c of None \<Rightarrow> True | Some v \<Rightarrow> base \<le> v))"

lemma parse_stops: "stops base s \<Longrightarrow> parse_integer_loop s base res rv ov = (res, rv, ov)"
  by (cases s) (auto simp: stops_def split: option.splits)

lemma parse_dec_rev:
  assumes "0 \<le> n" and "n \<le> 18446744073709551615"
  shows "parse_integer_loop (rev (dec_rev n) @ s) 10 0 rv ov =
    parse_integer_loop s 10 n (rv + length (dec_rev n)) ov"
  using assms
proof (induction n arbitrary: s rule: dec_rev.induct)
  case (1 n)
  show ?case
  proof (cases "n < 10")
    case True
    then have "\<not> (18446744073709551615 - n) div 10 < 0"
      by (simp add: pos_imp_zdiv_nonneg_iff not_less)
    with True 1 show ?thesis
      by (simp add: dec_rev.simps [of n] u64_def)
  next
    case False
    let ?m = "n div 10" and ?d = "n mod 10"
    have d: "0 \<le> ?d" "?d < 10" by simp_all
    have g: "\<not> 10 \<le> ?d" using d(2) by linarith
    have n: "?m * 10 + ?d = n" by simp
    have m: "0 \<le> ?m" "?m \<le> 18446744073709551615"
      using 1 by (simp_all add: pos_imp_zdiv_nonneg_iff)
    have fit: "\<not> (18446744073709551615 - ?d) div 10 < ?m"
    proof -
      have "?m * 10 \<le> 18446744073709551615 - ?d" using "1.prems"(2) n by linarith
      from zdiv_mono1 [OF this, of 10] show ?thesis by simp
    qed
    have "parse_integer_loop (rev (dec_rev n) @ s) 10 0 rv ov =
        parse_integer_loop (rev (dec_rev ?m) @ digit_chr ?d # s) 10 0 rv ov"
      using False by (simp add: dec_rev.simps [of n])
    also have "\<dots> = parse_integer_loop (digit_chr ?d # s) 10 ?m (rv + length (dec_rev ?m)) ov"
      by (rule "1.IH" [OF False m])
    also have "\<dots> = parse_integer_loop s 10 (u64 (?m * 10 + ?d)) (rv + length (dec_rev ?m) + 1) ov"
      unfolding parse_integer_loop.simps digit_val_digit [OF d] option.case
      by (simp only: g fit if_False)
    also have "u64 (?m * 10 + ?d) = n"
      unfolding n using 1 by (simp add: u64_def)
    also have "rv + length (dec_rev ?m) + 1 = rv + length (dec_rev n)"
      using False by (simp add: dec_rev.simps [of n])
    finally show ?thesis .
  qed
qed

lemma dec_rev_nonempty [simp]: "dec_rev n \<noteq> []"
  by (subst dec_rev.simps) simp

lemma dec_rev_digits: "0 \<le> n \<Longrightarrow> c \<in> set (dec_rev n) \<Longrightarrow> \<exists>d. 0 \<le> d \<and> d < 10 \<and> c = digit_chr d"
proof (induction n rule: dec_rev.induct)
  case (1 n)
  show ?case
  proof (cases "n < 10")
    case True
    with 1 show ?thesis by (auto simp: dec_rev.simps [of n])
  next
    case False
    with 1 have "c = digit_chr (n mod 10) \<or> c \<in> set (dec_rev (n div 10))"
      by (simp add: dec_rev.simps [of n])
    with 1 False show ?thesis
      by (auto simp: pos_imp_zdiv_nonneg_iff intro: exI [of _ "n mod 10"])
  qed
qed

lemma digit_chr_not:
  assumes "0 \<le> d" and "d < 10" and "of_char c < (48::nat) \<or> (57::nat) < of_char c"
  shows "digit_chr d \<noteq> c"
proof
  assume "digit_chr d = c"
  with ord_digit [OF assms(1,2)] have "ord c = d + 48" by simp
  with assms show False by linarith
qed

lemma strtoul_dec:
  assumes "0 \<le> n" and "n \<le> 18446744073709551615" and "stops 10 s"
  shows "simple_strtoul (rev (dec_rev n) @ s) 10 = (n, s)"
  by (simp add: simple_strtoul_def simple_strtoull_def parse_integer_fixup_radix_def
      parse_integer_def parse_dec_rev [OF assms(1,2)] parse_stops [OF assms(3)])

lemma strtol_dec:
  assumes "in_s64 x" and "stops 10 s"
  shows "simple_strtol (dec x @ s) 10 = (x, s)"
proof (cases "x < 0")
  case True
  have "simple_strtoul (rev (dec_rev (- x)) @ s) 10 = (- x, s)"
    using True assms by (intro strtoul_dec) (simp_all add: in_s64_def)
  moreover have "s64 (u64 (- (- x))) = x"
    using assms(1) by (simp add: s64_def u64_def in_s64_def mod_simps)
  ultimately show ?thesis
    using True by (simp add: simple_strtol_def dec_def char_at_def)
next
  case False
  have "simple_strtoul (rev (dec_rev x) @ s) 10 = (x, s)"
    using False assms by (intro strtoul_dec) (simp_all add: in_s64_def)
  moreover have "char_at (rev (dec_rev x) @ s) 0 \<noteq> CHR ''-''"
  proof -
    have "char_at (rev (dec_rev x) @ s) 0 = hd (rev (dec_rev x))"
      by (simp add: char_at_def nth_append hd_conv_nth)
    moreover have "hd (rev (dec_rev x)) \<in> set (dec_rev x)"
      using hd_in_set [of "rev (dec_rev x)"] by simp
    ultimately obtain d where d: "0 \<le> d" "d < 10" "char_at (rev (dec_rev x) @ s) 0 = digit_chr d"
      using dec_rev_digits [of x] False by fastforce
    show ?thesis
      unfolding d(3) by (rule digit_chr_not [OF d(1,2)]) simp
  qed
  moreover have "s64 x = x" using assms(1) by (rule s64_id)
  ultimately show ?thesis
    using False by (simp add: simple_strtol_def dec_def)
qed

lemma dec_no_comma:
  assumes "c \<in> set (dec x)"
  shows "c \<noteq> CHR '',''" and "of_char c \<noteq> (0::nat)"
proof -
  have "c = CHR ''-'' \<or> (\<exists>d. 0 \<le> d \<and> d < 10 \<and> c = digit_chr d)"
    using assms dec_rev_digits [of x c] dec_rev_digits [of "- x" c]
    by (auto simp: dec_def split: if_splits)
  then have "c \<noteq> CHR '','' \<and> of_char c \<noteq> (0::nat)"
  proof
    assume "\<exists>d. 0 \<le> d \<and> d < 10 \<and> c = digit_chr d"
    then obtain d where d: "0 \<le> d" "d < 10" "c = digit_chr d" by blast
    have "of_char c \<noteq> (0::nat)" using ord_digit [OF d(1,2)] d(1) unfolding d(3) by linarith
    moreover have "c \<noteq> CHR '',''" unfolding d(3) by (rule digit_chr_not [OF d(1,2)]) simp
    ultimately show ?thesis by blast
  qed simp
  then show "c \<noteq> CHR '',''" and "of_char c \<noteq> (0::nat)" by simp_all
qed

section \<open>Properties\<close>

text \<open>C10. The decimal conversion of \<open>sprintf\<close> (hexadecimal digits recombined with multiplications
  and shifts, five digits at a time, wrapping subtractions) gives for every unsigned argument the
  digits that repeated division by ten gives.\<close>
theorem put_dec_equivalent:
  assumes "0 \<le> num"
  shows "put_dec num = dec_rev num"
  using assms by (rule put_dec_dec_rev)

theorem put_dec_equivalent_witness: "put_dec 1234567890 = dec_rev 1234567890"
  by (rule put_dec_equivalent) simp

text \<open>C11. Parsing undoes printing: \<open>simple_strtol\<close> in base ten on the \<open>%d\<close> image of any 64-bit
  value, followed by text that does not start with a digit, returns the value and stops at
  that text.\<close>
theorem strtol_sprintf_roundtrip:
  assumes "in_s64 x" and "stops 10 s"
  shows "simple_strtol (fmt_d x @ s) 10 = (x, s)"
  using assms by (simp add: fmt_d_dec strtol_dec)

theorem strtol_sprintf_roundtrip_witness:
  "simple_strtol (fmt_d (- 9223372036854775808) @ '','') 10 = (- 9223372036854775808, '','')"
  by (rule strtol_sprintf_roundtrip)
    (simp_all add: in_s64_def stops_def digit_val_def tolower_fast_def)

end
