(* ===== verification/Idle_Inject.thy ===== *)
theory Idle_Inject
  imports Klist Kstring
begin

text \<open>
  Idle injection (\<open>kernel/sched_bfs.c\<close>, lines 142 to 378 and the injection points of
  \<open>earliest_deadline_task\<close> and \<open>schedule\<close>): the global rate, the table of watched pids kept in
  an RCU list, the four \<open>/proc/schedidle\<close> handlers, their set-up, and the two counters that
  decide when the idle task replaces the task that was to run.

  A node of the pid list is an address; the links are a store of the list component and the
  payloads a function on addresses.  The set \<open>pl_live\<close> holds the \<open>struct pid_list\<close> objects
  that have been allocated and not freed.  Memory behind a \<open>kmalloc\<close>ed buffer is an argument
  (\<open>slack\<close>), since the handlers do not terminate the string they copy.  A null or zero-size
  pointer dereference is the outcome \<open>Oops\<close>.
\<close>

section \<open>State\<close>

definition INJECTION_IDLE_CYCLE_EACH_TIME :: int where
  "INJECTION_IDLE_CYCLE_EACH_TIME = 2000"

definition INJECTION_IDLE_CYCLE_PROC :: int where
  "INJECTION_IDLE_CYCLE_PROC = 5"

definition LIST_POISON2 :: nat where
  "LIST_POISON2 = 0xdead000000200200"

record pid_list =
  pl_pid :: int
  max_load :: int
  times :: int
  pl_type :: char

record sched_parameters =
  global_rate :: int
  idle_cycles_offset :: int
  is_init :: int
  pidList :: nat
  pl_links :: "nat lheap"
  pl_node :: "nat \<Rightarrow> pid_list"
  pl_live :: "nat set"
  proc_global :: bool
  proc_pid :: bool

definition pid_entries :: "sched_parameters \<Rightarrow> nat list" where
  "pid_entries st =
     (case list_for_each (Suc (card (pl_live st))) (pidList st) (pl_links st) of
        None \<Rightarrow> [] | Some xs \<Rightarrow> xs)"

definition kfree_node :: "nat \<Rightarrow> sched_parameters \<Rightarrow> sched_parameters" where
  "kfree_node a st = st\<lparr>pl_live := pl_live st - {a}\<rparr>"

section \<open>The /proc handlers\<close>

definition proc_read_idleGlobal :: "sched_parameters \<Rightarrow> string" where
  "proc_read_idleGlobal st =
     ''Global_rate = '' @ fmt_d (global_rate st) @ '', rate = '' @ fmt_d (idle_cycles_offset st) @ ''\<newline>''"

definition pid_line :: "pid_list \<Rightarrow> string" where
  "pid_line f = fmt_d (pl_pid f) @ '','' @ fmt_d (max_load f) @ '','' @ fmt_d (times f) @ '','' @ [pl_type f] @ ''\<newline>''"

definition proc_read_idlePid :: "sched_parameters \<Rightarrow> string" where
  "proc_read_idlePid st =
     ''Format Type: pid,max_load,times,type'' @ ''\<newline>\<newline>'' @
     (if \<not> list_empty (pidList st) (pl_links st)
      then concat (map (\<lambda>a. pid_line (pl_node st a)) (pid_entries st))
      else ''No processes observed'' @ ''\<newline>'')"


text \<open>\<open>do pid_new = kmalloc(...) while (pid_new == NULL)\<close>: the successive results of the
  allocator; \<^term>\<open>None\<close> when the loop is still running after them.\<close>

fun kmalloc_retry :: "nat option list \<Rightarrow> nat option" where
  "kmalloc_retry [] = None"
| "kmalloc_retry (None # rs) = kmalloc_retry rs"
| "kmalloc_retry (Some a # rs) = Some a"

definition pid_add :: "nat \<Rightarrow> sched_parameters \<Rightarrow> sched_parameters" where
  "pid_add new st =
     (if pl_type (pl_node st new) = CHR ''p''
      then st\<lparr>pl_links := list_add_tail_rcu new (pidList st) (pl_links st)\<rparr>
      else st\<lparr>pl_links := list_add_rcu new (pidList st) (pl_links st)\<rparr>)"

text \<open>The walk of the non-empty list: \<^term>\<open>None\<close> when no entry was replaced or removed.\<close>

fun pid_walk :: "nat \<Rightarrow> nat list \<Rightarrow> sched_parameters \<Rightarrow> sched_parameters option" where
  "pid_walk new [] st = None"
| "pid_walk new (f # fs) st =
     (if pl_pid (pl_node st f) = pl_pid (pl_node st new)
      then Some (kfree_node f (st\<lparr>pl_links := list_replace_rcu LIST_POISON2 f new (pl_links st)\<rparr>))
      else if pl_pid (pl_node st f) = s32 (- 1 * pl_pid (pl_node st new))
      then Some (kfree_node f (st\<lparr>pl_links := list_del_rcu LIST_POISON2 f (pl_links st)\<rparr>))
      else pid_walk new fs st)"

definition pid_insert :: "nat \<Rightarrow> sched_parameters \<Rightarrow> sched_parameters" where
  "pid_insert new st =
     (let n = pl_node st new in
      if max_load n < INJECTION_IDLE_CYCLE_PROC then kfree_node new st
      else if pl_type n \<noteq> CHR ''t'' \<and> pl_type n \<noteq> CHR ''p'' then kfree_node new st
      else if list_empty (pidList st) (pl_links st)
      then (if 0 < pl_pid n then pid_add new st else kfree_node new st)
      else (case pid_walk new (pid_entries st) st of
              Some st' \<Rightarrow> st'
            | None \<Rightarrow> if 0 < pl_pid n then pid_add new st else kfree_node new st))"

text \<open>The three \<open>strsep\<close> calls; \<^term>\<open>None\<close> when the second token is the null pointer, which
  \<open>simple_strtol\<close> then dereferences.\<close>

definition parse_pid_cmd :: "string \<Rightarrow> pid_list option" where
  "parse_pid_cmd s =
     (case strsep (Some s) '','' of (temp_pid, s1) \<Rightarrow>
      case strsep s1 '','' of (temp_load, s2) \<Rightarrow>
      case strsep s2 '','' of (temp_type, s3) \<Rightarrow>
      case (temp_pid, temp_load) of
        (Some p, Some l) \<Rightarrow>
          Some \<lparr>pl_pid = s32 (fst (simple_strtol p 10)), max_load = s32 (fst (simple_strtol l 10)),
                times = 0,
                pl_type = (case temp_type of None \<Rightarrow> CHR ''t'' | Some t \<Rightarrow> char_at t 0)\<rparr>
      | _ \<Rightarrow> None)"

text \<open>The outer \<^term>\<open>None\<close> is an allocation loop that has not ended.\<close>

definition proc_write_idlePid ::
  "nat option list \<Rightarrow> nat option list \<Rightarrow> string option \<Rightarrow> nat \<Rightarrow> string \<Rightarrow>
     sched_parameters \<Rightarrow> (int \<times> sched_parameters) outcome option" where
  "proc_write_idlePid node_allocs buf_allocs user count slack st =
     (case kmalloc_retry node_allocs of
        None \<Rightarrow> None
      | Some new \<Rightarrow>
          let st = st\<lparr>pl_live := insert new (pl_live st)\<rparr> in
          (case kmalloc_retry buf_allocs of
             None \<Rightarrow> None
           | Some b \<Rightarrow>
               Some (case user of
                 None \<Rightarrow> Returns (- EFAULT, st)
               | Some buf \<Rightarrow>
                   if count = 0 then Oops
                   else (case parse_pid_cmd (cstr (buf @ slack)) of
                           None \<Rightarrow> Oops
                         | Some n \<Rightarrow>
                             Returns (int count,
                               pid_insert new (st\<lparr>pl_node := (pl_node st)(new := n)\<rparr>))))))"

section \<open>Set-up\<close>

definition set_everything_idlepar ::
  "nat option \<Rightarrow> bool \<Rightarrow> bool \<Rightarrow> bool \<Rightarrow> sched_parameters \<Rightarrow> sched_parameters outcome" where
  "set_everything_idlepar head dir_ok global_ok pid_ok st =
     (let st = st\<lparr>global_rate := INJECTION_IDLE_CYCLE_EACH_TIME\<rparr> in
      case head of
        None \<Rightarrow> Oops
      | Some a \<Rightarrow>
          let st = st\<lparr>pidList := a, pl_live := insert a (pl_live st),
                      pl_links := INIT_LIST_HEAD a (pl_links st)\<rparr> in
          Returns (if \<not> dir_ok then st
                   else if \<not> global_ok then st
                   else if \<not> pid_ok then st\<lparr>proc_global := True\<rparr>
                   else st\<lparr>proc_global := True, proc_pid := True\<rparr>))"

section \<open>Injection on a selected task\<close>

definition pid_match :: "int \<Rightarrow> int \<Rightarrow> pid_list \<Rightarrow> bool" where
  "pid_match tgid pid f \<longleftrightarrow>
     (tgid = pl_pid f \<and> pl_type f = CHR ''p'') \<or> (pid = pl_pid f \<and> pl_type f = CHR ''t'')"

text \<open>The loop of \<open>earliest_deadline_task\<close> over the entries; the flag is whether it ended in
  \<open>goto out\<close> with \<open>edt = idle\<close>.\<close>

fun pid_check :: "int \<Rightarrow> int \<Rightarrow> nat list \<Rightarrow> (nat \<Rightarrow> pid_list) \<Rightarrow> (nat \<Rightarrow> pid_list) \<times> bool" where
  "pid_check tgid pid [] node = (node, False)"
| "pid_check tgid pid (f # fs) node =
     (if pid_match tgid pid (node f)
      then (let node = node(f := (node f)\<lparr>times := s32 (times (node f) + 1)\<rparr>) in
            if times (node f) = max_load (node f)
            then (node(f := (node f)\<lparr>times := 0\<rparr>), True)
            else pid_check tgid pid fs node)
      else pid_check tgid pid fs node)"

definition inject_check :: "int \<Rightarrow> int \<Rightarrow> sched_parameters \<Rightarrow> sched_parameters \<times> bool" where
  "inject_check tgid pid st =
     (if list_empty (pidList st) (pl_links st) then (st, False)
      else (case pid_check tgid pid (pid_entries st) (pl_node st) of
              (node, hit) \<Rightarrow> (st\<lparr>pl_node := node\<rparr>, hit)))"

section \<open>Well-formed injection state\<close>

definition pid_ok :: "pid_list \<Rightarrow> bool" where
  "pid_ok f \<longleftrightarrow> 0 < pl_pid f \<and> INJECTION_IDLE_CYCLE_PROC \<le> max_load f \<and> in_s32 (max_load f) \<and>
     0 \<le> times f \<and> times f < max_load f \<and> (pl_type f = CHR ''t'' \<or> pl_type f = CHR ''p'')"

definition table_ok :: "pid_list list \<Rightarrow> bool" where
  "table_ok tab \<longleftrightarrow> (\<forall>f\<in>set tab. pid_ok f) \<and> distinct (map pl_pid tab)"

definition links_ok :: "sched_parameters \<Rightarrow> nat list \<Rightarrow> bool" where
  "links_ok st xs \<longleftrightarrow> dlist (pl_links st) (pidList st) xs \<and> finite (pl_live st) \<and>
     pidList st \<in> pl_live st \<and> set xs \<subseteq> pl_live st"

definition pid_table :: "sched_parameters \<Rightarrow> pid_list list" where
  "pid_table st = map (pl_node st) (pid_entries st)"

definition inject_inv :: "sched_parameters \<Rightarrow> bool" where
  "inject_inv st \<longleftrightarrow> is_init st = 0 \<and> 2 \<le> global_rate st \<and> in_s32 (global_rate st) \<and>
     0 \<le> idle_cycles_offset st \<and> idle_cycles_offset st < global_rate st \<and>
     links_ok st (pid_entries st) \<and> table_ok (pid_table st)"

lemma pid_entries_eq: "links_ok st xs \<Longrightarrow> pid_entries st = xs"
  using kt.table_walk [of "pl_links st" "pidList st" xs "pl_live st"]
  by (simp add: pid_entries_def links_ok_def)

lemma inject_invI:
  assumes "links_ok st xs" and "table_ok (map (pl_node st) xs)" and "is_init st = 0"
    and "2 \<le> global_rate st" and "in_s32 (global_rate st)"
    and "0 \<le> idle_cycles_offset st" and "idle_cycles_offset st < global_rate st"
  shows "inject_inv st"
  using assms pid_entries_eq [OF assms(1)] by (simp add: inject_inv_def pid_table_def)

lemma links_empty: "links_ok st xs \<Longrightarrow> list_empty (pidList st) (pl_links st) \<longleftrightarrow> xs = []"
  by (simp add: links_ok_def dlist_empty)

section \<open>The table the handlers maintain\<close>

text \<open>The abstract table: entries in list order, at most one per pid.\<close>

fun table_walk :: "pid_list \<Rightarrow> pid_list list \<Rightarrow> pid_list list option" where
  "table_walk n [] = None"
| "table_walk n (f # fs) =
     (if pl_pid f = pl_pid n then Some (n # fs)
      else if pl_pid f = s32 (- pl_pid n) then Some fs
      else map_option ((#) f) (table_walk n fs))"

definition table_insert :: "pid_list \<Rightarrow> pid_list list \<Rightarrow> pid_list list" where
  "table_insert n tab =
     (if max_load n < INJECTION_IDLE_CYCLE_PROC \<or> pl_type n \<notin> {CHR ''t'', CHR ''p''} then tab
      else case table_walk n tab of
        Some tab' \<Rightarrow> tab'
      | None \<Rightarrow>
          if 0 < pl_pid n then (if pl_type n = CHR ''p'' then tab @ [n] else n # tab) else tab)"

lemma table_walk_None:
  "table_walk n tab = None \<longleftrightarrow>
     (\<forall>f\<in>set tab. pl_pid f \<noteq> pl_pid n \<and> pl_pid f \<noteq> s32 (- pl_pid n))"
  by (induction tab) auto

lemma table_walk_Some:
  assumes "table_walk n tab = Some tab'"
  obtains ys f zs where "tab = ys @ f # zs" "pl_pid f = pl_pid n" "tab' = ys @ n # zs"
  | ys f zs where "tab = ys @ f # zs" "tab' = ys @ zs"
proof -
  have "\<exists>ys f zs. tab = ys @ f # zs \<and> (pl_pid f = pl_pid n \<and> tab' = ys @ n # zs \<or> tab' = ys @ zs)"
    using assms
  proof (induction tab arbitrary: tab')
    case Nil
    then show ?case by simp
  next
    case (Cons g tab)
    show ?case
    proof (cases "pl_pid g = pl_pid n \<or> pl_pid g = s32 (- pl_pid n)")
      case True
      with Cons.prems show ?thesis
        by (intro exI [of _ "[]"] exI [of _ g] exI [of _ tab]) (auto split: if_splits)
    next
      case False
      with Cons.prems obtain t where "table_walk n tab = Some t" "tab' = g # t" by auto
      with Cons.IH [of t] obtain ys f zs where "tab = ys @ f # zs"
        "pl_pid f = pl_pid n \<and> t = ys @ n # zs \<or> t = ys @ zs" by blast
      with \<open>tab' = g # t\<close> show ?thesis
        by (intro exI [of _ "g # ys"] exI [of _ f] exI [of _ zs]) auto
    qed
  qed
  with that show ?thesis by blast
qed

lemma table_insert_ok:
  assumes "table_ok tab" and "in_s32 (max_load n)" and "times n = 0"
  shows "table_ok (table_insert n tab)"
proof (cases "max_load n < INJECTION_IDLE_CYCLE_PROC \<or> pl_type n \<notin> {CHR ''t'', CHR ''p''}")
  case True
  with assms show ?thesis by (simp add: table_insert_def)
next
  case False
  then have n: "0 < pl_pid n \<Longrightarrow> pid_ok n"
    using assms by (auto simp: pid_ok_def INJECTION_IDLE_CYCLE_PROC_def)
  show ?thesis
  proof (cases "table_walk n tab")
    case None
    then have "pl_pid n \<notin> pl_pid ` set tab"
      by (auto simp: table_walk_None)
    with None False n assms(1) show ?thesis
      by (auto simp: table_insert_def table_ok_def)
  next
    case (Some tab')
    then have eq: "table_insert n tab = tab'" using False by (auto simp: table_insert_def)
    from Some show ?thesis
      unfolding eq by (cases rule: table_walk_Some) (use n assms(1) in \<open>auto simp: table_ok_def pid_ok_def\<close>)
  qed
qed

lemma table_insert_filter:
  assumes "table_ok tab" and "INJECTION_IDLE_CYCLE_PROC \<le> max_load n"
    and "pl_type n \<in> {CHR ''t'', CHR ''p''}" and "0 < pl_pid n" and "s32 (- pl_pid n) < 0"
  shows "filter (\<lambda>f. pl_pid f = pl_pid n) (table_insert n tab) = [n]"
proof -
  have pos: "\<forall>f\<in>set tab. pl_pid f \<noteq> s32 (- pl_pid n)"
    using assms(1,5) by (force simp: table_ok_def pid_ok_def)
  show ?thesis
  proof (cases "table_walk n tab")
    case None
    then have "filter (\<lambda>f. pl_pid f = pl_pid n) tab = []"
      by (auto simp: table_walk_None filter_empty_conv)
    with None assms show ?thesis by (auto simp: table_insert_def)
  next
    case (Some tab')
    then have "filter (\<lambda>f. pl_pid f = pl_pid n) tab' = [n]"
      using pos assms(1)
    proof (induction tab arbitrary: tab')
      case Nil
      then show ?case by simp
    next
      case (Cons g tab)
      show ?case
      proof (cases "pl_pid g = pl_pid n")
        case True
        with Cons.prems have "tab' = n # tab" by simp
        moreover have "pl_pid g \<notin> pl_pid ` set tab" using Cons.prems(3) by (simp add: table_ok_def)
        then have "\<forall>f\<in>set tab. pl_pid f \<noteq> pl_pid n" using True by (metis imageI)
        ultimately show ?thesis by (simp add: filter_empty_conv)
      next
        case False
        with Cons.prems obtain t where "table_walk n tab = Some t" "tab' = g # t" by auto
        with False Cons show ?thesis by (auto simp: table_ok_def)
      qed
    qed
    with Some assms show ?thesis by (auto simp: table_insert_def)
  qed
qed

lemma table_walk_removes:
  assumes "table_ok tab" and "\<And>g. g \<in> set tab \<Longrightarrow> pl_pid g \<noteq> pl_pid n"
    and "table_walk n tab = Some tab'"
  shows "tab' = filter (\<lambda>g. pl_pid g \<noteq> s32 (- pl_pid n)) tab"
  using assms
proof (induction tab arbitrary: tab')
  case Nil
  then show ?case by simp
next
  case (Cons g tab)
  show ?case
  proof (cases "pl_pid g = s32 (- pl_pid n)")
    case True
    have "pl_pid g \<notin> pl_pid ` set tab" using Cons.prems(1) by (simp add: table_ok_def)
    then have "\<forall>f\<in>set tab. pl_pid f \<noteq> s32 (- pl_pid n)" using True by (metis imageI)
    then have "filter (\<lambda>g. pl_pid g \<noteq> s32 (- pl_pid n)) tab = tab"
      by (simp add: filter_id_conv)
    moreover have "tab' = tab" using True Cons.prems(2) [of g] Cons.prems(3) by simp
    ultimately show ?thesis using True by simp
  next
    case False
    with Cons.prems obtain t where "table_walk n tab = Some t" "tab' = g # t" by auto
    with False Cons.prems Cons.IH [of t] show ?thesis by (auto simp: table_ok_def)
  qed
qed

lemma pid_walk_None: "pid_walk new fs st = None \<longleftrightarrow> table_walk (pl_node st new) (map (pl_node st) fs) = None"
  by (induction fs) auto

lemma pid_walk_Some:
  assumes "pid_walk new fs st = Some st'"
  obtains ys f zs where "fs = ys @ f # zs"
      "st' = kfree_node f (st\<lparr>pl_links := list_replace_rcu LIST_POISON2 f new (pl_links st)\<rparr>)"
      "table_walk (pl_node st new) (map (pl_node st) fs) =
        Some (map (pl_node st) ys @ pl_node st new # map (pl_node st) zs)"
  | ys f zs where "fs = ys @ f # zs"
      "st' = kfree_node f (st\<lparr>pl_links := list_del_rcu LIST_POISON2 f (pl_links st)\<rparr>)"
      "table_walk (pl_node st new) (map (pl_node st) fs) = Some (map (pl_node st) (ys @ zs))"
proof -
  have "\<exists>ys f zs. fs = ys @ f # zs \<and>
      (st' = kfree_node f (st\<lparr>pl_links := list_replace_rcu LIST_POISON2 f new (pl_links st)\<rparr>) \<and>
       table_walk (pl_node st new) (map (pl_node st) fs) =
        Some (map (pl_node st) ys @ pl_node st new # map (pl_node st) zs) \<or>
       st' = kfree_node f (st\<lparr>pl_links := list_del_rcu LIST_POISON2 f (pl_links st)\<rparr>) \<and>
       table_walk (pl_node st new) (map (pl_node st) fs) = Some (map (pl_node st) (ys @ zs)))"
    using assms
  proof (induction fs)
    case Nil
    then show ?case by simp
  next
    case (Cons g fs)
    show ?case
    proof (cases "pl_pid (pl_node st g) = pl_pid (pl_node st new) \<or>
        pl_pid (pl_node st g) = s32 (- 1 * pl_pid (pl_node st new))")
      case True
      with Cons.prems show ?thesis
        by (intro exI [of _ "[]"] exI [of _ g] exI [of _ fs]) (auto split: if_splits)
    next
      case False
      with Cons.prems have "pid_walk new fs st = Some st'" by simp
      with Cons.IH obtain ys f zs where "fs = ys @ f # zs"
        "st' = kfree_node f (st\<lparr>pl_links := list_replace_rcu LIST_POISON2 f new (pl_links st)\<rparr>) \<and>
         table_walk (pl_node st new) (map (pl_node st) fs) =
          Some (map (pl_node st) ys @ pl_node st new # map (pl_node st) zs) \<or>
         st' = kfree_node f (st\<lparr>pl_links := list_del_rcu LIST_POISON2 f (pl_links st)\<rparr>) \<and>
         table_walk (pl_node st new) (map (pl_node st) fs) = Some (map (pl_node st) (ys @ zs))"
        by blast
      with False show ?thesis
        by (intro exI [of _ "g # ys"] exI [of _ f] exI [of _ zs]) auto
    qed
  qed
  with that show ?thesis by blast
qed

lemma kfree_node_simps [simp]:
  "pl_live (kfree_node a st) = pl_live st - {a}" "pl_links (kfree_node a st) = pl_links st"
  "pl_node (kfree_node a st) = pl_node st" "pidList (kfree_node a st) = pidList st"
  "global_rate (kfree_node a st) = global_rate st" "is_init (kfree_node a st) = is_init st"
  "idle_cycles_offset (kfree_node a st) = idle_cycles_offset st"
  by (simp_all add: kfree_node_def)

lemma pid_walk_frame:
  "pid_walk new fs st = Some st' \<Longrightarrow>
     global_rate st' = global_rate st \<and> idle_cycles_offset st' = idle_cycles_offset st \<and>
     is_init st' = is_init st \<and> pidList st' = pidList st \<and> pl_node st' = pl_node st"
  by (induction fs) (auto split: if_splits)

lemma pid_insert_frame [frame]:
  "global_rate (pid_insert new st) = global_rate st"
  "idle_cycles_offset (pid_insert new st) = idle_cycles_offset st"
  "is_init (pid_insert new st) = is_init st"
  "pidList (pid_insert new st) = pidList st"
  "pl_node (pid_insert new st) = pl_node st"
  by (auto simp: pid_insert_def pid_add_def Let_def split: option.splits dest: pid_walk_frame)

lemma links_kfree:
  assumes "links_ok st xs" and "a \<notin> insert (pidList st) (set xs)"
  shows "links_ok (kfree_node a st) xs"
  using assms by (auto simp: links_ok_def)

lemma pid_add_refines:
  assumes "links_ok st xs" and "new \<in> pl_live st" and "new \<notin> insert (pidList st) (set xs)"
  shows "\<exists>xs'. links_ok (pid_add new st) xs' \<and> map (pl_node st) xs' =
    (if pl_type (pl_node st new) = CHR ''p'' then map (pl_node st) xs @ [pl_node st new]
     else pl_node st new # map (pl_node st) xs)"
proof (cases "pl_type (pl_node st new) = CHR ''p''")
  case True
  have "links_ok (pid_add new st) (xs @ [new])"
    using assms kt.rep_add_tail [of "pl_links st" "pidList st" xs new]
    by (auto simp: links_ok_def pid_add_def True)
  with True show ?thesis by (intro exI [of _ "xs @ [new]"]) simp
next
  case False
  have "links_ok (pid_add new st) (new # xs)"
    using assms kt.rep_add [of "pl_links st" "pidList st" xs new]
    by (auto simp: links_ok_def pid_add_def False)
  with False show ?thesis by (intro exI [of _ "new # xs"]) simp
qed

lemma pid_walk_refines:
  assumes "links_ok st xs" and "new \<in> pl_live st" and "new \<notin> insert (pidList st) (set xs)"
    and "pid_walk new xs st = Some st'"
  shows "\<exists>xs'. links_ok st' xs' \<and>
    table_walk (pl_node st new) (map (pl_node st) xs) = Some (map (pl_node st) xs')"
  using assms(4)
proof (cases rule: pid_walk_Some)
  case (1 ys f zs)
  have "dlist (list_replace_rcu LIST_POISON2 f new (pl_links st)) (pidList st) (ys @ new # zs)"
    using assms 1 by (intro kt.rep_repl) (auto simp: links_ok_def)
  then have "links_ok st' (ys @ new # zs)"
    using assms 1 by (auto simp: links_ok_def dlist_def)
  with 1 show ?thesis by (intro exI [of _ "ys @ new # zs"]) simp
next
  case (2 ys f zs)
  have "dlist (list_del_rcu LIST_POISON2 f (pl_links st)) (pidList st) (ys @ zs)"
    using assms 2 by (intro kt.table_del) (auto simp: links_ok_def)
  then have "links_ok st' (ys @ zs)"
    using assms 2 by (auto simp: links_ok_def dlist_def)
  with 2 show ?thesis by (intro exI [of _ "ys @ zs"]) simp
qed

lemma pid_insert_walk:
  assumes "links_ok st xs" and "\<not> max_load (pl_node st new) < INJECTION_IDLE_CYCLE_PROC"
    and "pl_type (pl_node st new) \<in> {CHR ''t'', CHR ''p''}" and "pid_walk new xs st = Some st'"
  shows "pid_insert new st = st'"
proof -
  have "xs \<noteq> []" using assms(4) by auto
  with assms show ?thesis
    by (auto simp: pid_insert_def Let_def pid_entries_eq [OF assms(1)] links_empty)
qed

lemma pid_insert_refines:
  assumes l: "links_ok st xs" and n: "new \<in> pl_live st" "new \<notin> insert (pidList st) (set xs)"
  shows "\<exists>xs'. links_ok (pid_insert new st) xs' \<and>
    map (pl_node st) xs' = table_insert (pl_node st new) (map (pl_node st) xs)"
proof -
  let ?n = "pl_node st new"
  have drop: "\<exists>xs'. links_ok (kfree_node new st) xs' \<and> map (pl_node st) xs' = map (pl_node st) xs"
    using links_kfree [OF l n(2)] by blast
  have e: "pid_entries st = xs" by (rule pid_entries_eq [OF l])
  consider "max_load ?n < INJECTION_IDLE_CYCLE_PROC \<or> pl_type ?n \<notin> {CHR ''t'', CHR ''p''}"
    | st' where "\<not> max_load ?n < INJECTION_IDLE_CYCLE_PROC" "pl_type ?n \<in> {CHR ''t'', CHR ''p''}"
        "pid_walk new xs st = Some st'"
    | "\<not> max_load ?n < INJECTION_IDLE_CYCLE_PROC" "pl_type ?n \<in> {CHR ''t'', CHR ''p''}"
        "pid_walk new xs st = None"
    by (cases "pid_walk new xs st") blast+
  then show ?thesis
  proof cases
    case 1
    then have "pid_insert new st = kfree_node new st" by (auto simp: pid_insert_def Let_def)
    with 1 drop show ?thesis by (simp add: table_insert_def)
  next
    case (2 st')
    then have "pid_insert new st = st'" by (intro pid_insert_walk [OF l])
    with 2 pid_walk_refines [OF l n 2(3)] show ?thesis
      by (auto simp: table_insert_def)
  next
    case 3
    then have w: "table_walk ?n (map (pl_node st) xs) = None" by (simp add: pid_walk_None)
    from 3 have "pid_insert new st = (if 0 < pl_pid ?n then pid_add new st else kfree_node new st)"
      by (auto simp: pid_insert_def Let_def e)
    with 3 w drop pid_add_refines [OF l n] show ?thesis
      by (auto simp: table_insert_def)
  qed
qed

text \<open>The write handler of \<open>sched_pid\<close>, on a parsable buffer and a fresh node, performs
  \<open>table_insert\<close> on the table of entries and keeps every part of the invariant.\<close>

lemma proc_write_idlePid_returns:
  assumes "kmalloc_retry na = Some new" and "kmalloc_retry ba = Some b" and "count \<noteq> 0"
    and "parse_pid_cmd (cstr (buf @ slack)) = Some n"
  shows "proc_write_idlePid na ba (Some buf) count slack st =
    Some (Returns (int count, pid_insert new (st\<lparr>pl_live := insert new (pl_live st),
      pl_node := (pl_node st)(new := n)\<rparr>)))"
  using assms by (simp add: proc_write_idlePid_def Let_def)

lemma parse_pid_cmd_ok:
  "parse_pid_cmd s = Some n \<Longrightarrow> in_s32 (max_load n) \<and> times n = 0"
  by (auto simp: parse_pid_cmd_def split: prod.splits option.splits)

lemma pid_write_refines:
  assumes inv: "inject_inv st" and fresh: "new \<notin> pl_live st" and p: "parse_pid_cmd s = Some n"
    and st': "st' = pid_insert new (st\<lparr>pl_live := insert new (pl_live st),
      pl_node := (pl_node st)(new := n)\<rparr>)"
  shows "inject_inv st'" and "pid_table st' = table_insert n (pid_table st)"
proof -
  let ?st = "st\<lparr>pl_live := insert new (pl_live st), pl_node := (pl_node st)(new := n)\<rparr>"
  let ?xs = "pid_entries st"
  have l: "links_ok st ?xs" "table_ok (pid_table st)" using inv by (simp_all add: inject_inv_def)
  have nx: "new \<notin> insert (pidList st) (set ?xs)" using l(1) fresh by (auto simp: links_ok_def)
  have "links_ok ?st ?xs" using l(1) by (auto simp: links_ok_def)
  from pid_insert_refines [OF this, of new] nx obtain xs' where x: "links_ok st' xs'"
    "map (pl_node ?st) xs' = table_insert n (map (pl_node ?st) ?xs)"
    by (auto simp: st')
  have "map (pl_node ?st) ?xs = pid_table st"
    using nx by (simp add: pid_table_def kt.map_other)
  moreover have "pl_node st' = pl_node ?st" unfolding st' by (rule pid_insert_frame)
  ultimately have t: "map (pl_node st') xs' = table_insert n (pid_table st)" using x(2) by simp
  then show "pid_table st' = table_insert n (pid_table st)"
    by (simp add: pid_table_def pid_entries_eq [OF x(1)])
  show "inject_inv st'"
  proof (rule inject_invI [OF x(1)])
    show "table_ok (map (pl_node st') xs')"
      unfolding t using l(2) parse_pid_cmd_ok [OF p] by (intro table_insert_ok) simp_all
  qed (use inv in \<open>simp_all add: st' pid_insert_frame inject_inv_def\<close>)
qed

section \<open>Counting selections\<close>

fun table_check :: "int \<Rightarrow> int \<Rightarrow> pid_list list \<Rightarrow> pid_list list \<times> bool" where
  "table_check tgid pid [] = ([], False)"
| "table_check tgid pid (f # fs) =
     (if pid_match tgid pid f
      then (if times f + 1 = max_load f then (f\<lparr>times := 0\<rparr> # fs, True)
            else map_prod ((#) (f\<lparr>times := times f + 1\<rparr>)) id (table_check tgid pid fs))
      else map_prod ((#) f) id (table_check tgid pid fs))"

lemma pid_match_times [simp]: "pid_match tgid pid (f\<lparr>times := t\<rparr>) = pid_match tgid pid f"
  by (simp add: pid_match_def)

lemma pid_check_outside: "a \<notin> set xs \<Longrightarrow> fst (pid_check tgid pid xs node) a = node a"
  by (induction xs arbitrary: node) (auto simp: Let_def)

lemma s32_times: "pid_ok f \<Longrightarrow> s32 (times f + 1) = times f + 1"
  by (rule s32_id) (auto simp: pid_ok_def in_s32_def)

lemma pid_check_refines:
  assumes "distinct xs" and "\<forall>a\<in>set xs. pid_ok (node a)"
  shows "map (fst (pid_check tgid pid xs node)) xs = fst (table_check tgid pid (map node xs)) \<and>
    snd (pid_check tgid pid xs node) = snd (table_check tgid pid (map node xs))"
  using assms
proof (induction xs arbitrary: node)
  case Nil
  then show ?case by simp
next
  case (Cons f fs)
  have other: "map (node(f := v)) fs = map node fs" for v
    using Cons.prems(1) by (intro kt.map_other) simp
  let ?n1 = "node(f := (node f)\<lparr>times := times (node f) + 1\<rparr>)"
  have d: "distinct fs" and ok: "\<forall>a\<in>set fs. pid_ok (?n1 a)" "\<forall>a\<in>set fs. pid_ok (node a)"
    using Cons.prems by auto
  have IH1: "map (fst (pid_check tgid pid fs ?n1)) fs = fst (table_check tgid pid (map node fs)) \<and>
      snd (pid_check tgid pid fs ?n1) = snd (table_check tgid pid (map node fs))"
    using Cons.IH [OF d ok(1)] unfolding other .
  note IH2 = Cons.IH [OF d ok(2)]
  have s: "s32 (times (node f) + 1) = times (node f) + 1"
    using Cons.prems by (intro s32_times) simp
  have fst1: "fst (pid_check tgid pid fs m) f = m f" for m
    using Cons.prems(1) by (intro pid_check_outside) simp
  show ?case
    using IH1 IH2 by (simp add: s Let_def fst1 other)
qed

lemma table_check_pids [simp]: "map pl_pid (fst (table_check tgid pid tab)) = map pl_pid tab"
  by (induction tab) (auto simp: fst_map_prod)

lemma pid_ok_count: "pid_ok f \<Longrightarrow> times f + 1 \<noteq> max_load f \<Longrightarrow> pid_ok (f\<lparr>times := times f + 1\<rparr>)"
  by (simp add: pid_ok_def)

lemma pid_ok_reset: "pid_ok f \<Longrightarrow> pid_ok (f\<lparr>times := 0\<rparr>)"
  by (simp add: pid_ok_def)

lemma table_check_pid_ok:
  "\<forall>f\<in>set tab. pid_ok f \<Longrightarrow> g \<in> set (fst (table_check tgid pid tab)) \<Longrightarrow> pid_ok g"
  by (induction tab) (auto simp: pid_ok_count pid_ok_reset split: if_splits)

lemma table_check_ok: "table_ok tab \<Longrightarrow> table_ok (fst (table_check tgid pid tab))"
  using table_check_pid_ok by (auto simp: table_ok_def)

lemma inject_check_frame [frame]:
  "global_rate (fst (inject_check tgid pid st)) = global_rate st"
  "idle_cycles_offset (fst (inject_check tgid pid st)) = idle_cycles_offset st"
  "is_init (fst (inject_check tgid pid st)) = is_init st"
  "pidList (fst (inject_check tgid pid st)) = pidList st"
  "pl_links (fst (inject_check tgid pid st)) = pl_links st"
  "pl_live (fst (inject_check tgid pid st)) = pl_live st"
  by (simp_all add: inject_check_def split: prod.splits)

lemma inject_check_refines:
  assumes "inject_inv st"
  shows "pid_table (fst (inject_check tgid pid st)) = fst (table_check tgid pid (pid_table st))"
    and "snd (inject_check tgid pid st) = snd (table_check tgid pid (pid_table st))"
    and "inject_inv (fst (inject_check tgid pid st))"
proof -
  let ?xs = "pid_entries st" and ?st = "fst (inject_check tgid pid st)"
  have l: "links_ok st ?xs" "table_ok (pid_table st)" using assms by (simp_all add: inject_inv_def)
  have d: "distinct ?xs" using l(1) by (simp add: links_ok_def dlist_def)
  have ok: "\<forall>a\<in>set ?xs. pid_ok (pl_node st a)" using l(2) by (simp add: table_ok_def pid_table_def)
  have l': "links_ok ?st ?xs" using l(1) by (simp add: links_ok_def inject_check_frame)
  have node: "pl_node ?st = fst (pid_check tgid pid ?xs (pl_node st))"
    and hit: "snd (inject_check tgid pid st) = snd (pid_check tgid pid ?xs (pl_node st))"
    using links_empty [OF l(1)] by (auto simp: inject_check_def split: prod.splits)
  show t: "pid_table ?st = fst (table_check tgid pid (pid_table st))"
    using pid_check_refines [OF d ok] by (simp add: pid_table_def pid_entries_eq [OF l'] node)
  show "snd (inject_check tgid pid st) = snd (table_check tgid pid (pid_table st))"
    using pid_check_refines [OF d ok] by (simp add: pid_table_def hit)
  show "inject_inv ?st"
  proof (rule inject_invI [OF l'])
    have "map (pl_node ?st) ?xs = pid_table ?st"
      by (simp add: pid_table_def pid_entries_eq [OF l'])
    with table_check_ok [OF l(2)] t show "table_ok (map (pl_node ?st) ?xs)" by simp
  qed (use assms in \<open>simp_all add: inject_check_frame inject_inv_def\<close>)
qed

text \<open>Consecutive selections of one task, with the verdict of each.\<close>

primrec check_runs :: "nat \<Rightarrow> int \<Rightarrow> int \<Rightarrow> sched_parameters \<Rightarrow> sched_parameters \<times> bool list" where
  "check_runs 0 tgid pid st = (st, [])"
| "check_runs (Suc n) tgid pid st =
     (case inject_check tgid pid st of (st, hit) \<Rightarrow>
      case check_runs n tgid pid st of (st, hits) \<Rightarrow> (st, hit # hits))"

lemma table_check_unique:
  assumes "pid_match tgid pid f" and "pid_ok f"
    and "\<forall>g\<in>set ys \<union> set zs. \<not> pid_match tgid pid g"
  shows "table_check tgid pid (ys @ f # zs) =
    (ys @ f\<lparr>times := (times f + 1) mod max_load f\<rparr> # zs, max_load f dvd times f + 1)"
proof -
  have none: "table_check tgid pid gs = (gs, False)" if "\<forall>g\<in>set gs. \<not> pid_match tgid pid g" for gs
    using that by (induction gs) auto
  have L: "0 \<le> times f" "times f + 1 \<le> max_load f" "0 < max_load f"
    using assms(2) by (auto simp: pid_ok_def)
  have dvd: "max_load f dvd times f + 1 \<longleftrightarrow> times f + 1 = max_load f"
    using L zdvd_imp_le [of "max_load f" "times f + 1"] by auto
  have zs: "table_check tgid pid zs = (zs, False)"
    by (rule none) (use assms(3) in simp)
  have hd: "table_check tgid pid (f # zs) =
      (f\<lparr>times := (times f + 1) mod max_load f\<rparr> # zs, max_load f dvd times f + 1)"
  proof (cases "times f + 1 = max_load f")
    case True
    with assms(1) show ?thesis by simp
  next
    case False
    with L have "(times f + 1) mod max_load f = times f + 1" by simp
    with False assms(1) zs show ?thesis by (simp add: dvd)
  qed
  show ?thesis
    using assms(3)
  proof (induction ys)
    case Nil
    show ?case unfolding append_Nil by (rule hd)
  next
    case (Cons y ys)
    then show ?case by simp
  qed
qed

lemma check_runs_hits:
  assumes "inject_inv st" and "pid_table st = ys @ f # zs" and "pid_match tgid pid f"
    and "\<forall>g\<in>set ys \<union> set zs. \<not> pid_match tgid pid g" and "k < n"
  shows "snd (check_runs n tgid pid st) ! k \<longleftrightarrow> max_load f dvd times f + int k + 1"
  using assms
proof (induction n arbitrary: st f k)
  case 0
  then show ?case by simp
next
  case (Suc n)
  let ?st = "fst (inject_check tgid pid st)" and ?f = "f\<lparr>times := (times f + 1) mod max_load f\<rparr>"
  have ok: "pid_ok f"
    using Suc.prems(1,2) by (simp add: inject_inv_def table_ok_def)
  note u = table_check_unique [OF Suc.prems(3) ok Suc.prems(4)]
  have t: "pid_table ?st = ys @ ?f # zs"
    and hit: "snd (inject_check tgid pid st) \<longleftrightarrow> max_load f dvd times f + 1"
    using inject_check_refines(1,2) [OF Suc.prems(1)] Suc.prems(2) u by simp_all
  have runs: "snd (check_runs (Suc n) tgid pid st) =
      snd (inject_check tgid pid st) # snd (check_runs n tgid pid ?st)"
    by (simp split: prod.splits)
  show ?case
  proof (cases k)
    case 0
    then show ?thesis by (simp add: runs hit del: check_runs.simps)
  next
    case (Suc j)
    have "snd (check_runs n tgid pid ?st) ! j \<longleftrightarrow> max_load ?f dvd times ?f + int j + 1"
      using Suc.prems Suc by (intro Suc.IH [OF inject_check_refines(3) t]) simp_all
    also have "\<dots> \<longleftrightarrow> max_load f dvd times f + int k + 1"
      using mod_add_left_eq [of "times f + 1" "max_load f" "int j + 1"]
      by (simp add: Suc dvd_eq_mod_eq_0 ac_simps)
    finally show ?thesis by (simp add: runs Suc del: check_runs.simps)
  qed
qed

section \<open>Writing and reading back\<close>

lemma cstr_nonzero_append: "\<forall>c\<in>set s. of_char c \<noteq> (0::nat) \<Longrightarrow> cstr (s @ r) = s @ cstr r"
  by (auto simp: cstr_def)

lemma cstr_Cons: "cstr (c # s) = (if of_char c = (0::nat) then [] else c # cstr s)"
  by (simp add: cstr_def)

lemma stops_newline [simp]: "stops 10 (CHR 0x0A # s)"
  by (simp add: stops_def digit_val_def tolower_fast_def)

lemma stops_Nil [simp]: "stops base []"
  by (simp add: stops_def)

lemma in_s32_s64: "in_s32 x \<Longrightarrow> in_s64 x"
  by (simp add: in_s32_def in_s64_def)

lemma strtol_fmt_d: "in_s64 x \<Longrightarrow> stops 10 s \<Longrightarrow> simple_strtol (fmt_d x @ s) 10 = (x, s)"
  by (simp add: fmt_d_dec strtol_dec)

lemma strtol_fmt_d_only: "in_s64 x \<Longrightarrow> simple_strtol (fmt_d x) 10 = (x, [])"
  using strtol_fmt_d [of x "[]"] by simp

lemma parse_pid_line:
  assumes "in_s32 pid" and "in_s32 load" and "ty \<noteq> CHR '',''" and "of_char ty \<noteq> (0::nat)"
  shows "parse_pid_cmd (cstr (fmt_d pid @ '','' @ fmt_d load @ '','' @ ty # rest)) =
    Some \<lparr>pl_pid = pid, max_load = load, times = 0, pl_type = ty\<rparr>"
proof -
  have p: "in_s64 pid" "in_s64 load" using assms by (simp_all add: in_s32_s64)
  note f = fmt_d_dec [OF p(1)] fmt_d_dec [OF p(2)]
  have z: "\<forall>c\<in>set (dec x). of_char c \<noteq> (0::nat)" and c: "\<forall>c\<in>set (dec x). c \<notin> set '',''" for x
    using dec_no_comma by auto
  let ?rest = "cstr (ty # rest)"
  have "cstr (fmt_d pid @ '','' @ fmt_d load @ '','' @ ty # rest) =
      dec pid @ CHR '','' # dec load @ CHR '','' # ?rest"
    by (simp add: f cstr_nonzero_append z cstr_Cons)
  moreover obtain r where r: "?rest = ty # r" using assms(4) by (simp add: cstr_Cons)
  moreover obtain t s3 where t: "strsep (Some ?rest) '','' = (Some (ty # t), s3)"
  proof (cases "strpbrk r '',''")
    case None
    with r assms(3) that show ?thesis by (simp add: strsep_def)
  next
    case (Some e)
    have "length e \<le> length r"
      using Some by (induction r) (auto split: if_splits)
    with Some r assms(3) that show ?thesis
      by (simp add: strsep_def Suc_diff_le)
  qed
  moreover have "char_at (ty # t) 0 = ty" by (simp add: char_at_def)
  ultimately show ?thesis
    using strsep_found [OF c [of pid], of "CHR '',''"] strsep_found [OF c [of load], of "CHR '',''"]
      strtol_fmt_d_only [OF p(1)] strtol_fmt_d_only [OF p(2)] s32_id [OF assms(1)] s32_id [OF assms(2)]
    by (simp add: parse_pid_cmd_def f)
qed

section \<open>Initial state\<close>

definition param_init :: sched_parameters where
  "param_init = \<lparr>global_rate = 0, idle_cycles_offset = 0, is_init = 1, pidList = 0,
     pl_links = \<lparr>next_of = (\<lambda>_. 0), prev_of = (\<lambda>_. 0)\<rparr>,
     pl_node = (\<lambda>_. \<lparr>pl_pid = 0, max_load = 0, times = 0, pl_type = CHR 0x00\<rparr>),
     pl_live = {}, proc_global = False, proc_pid = False\<rparr>"

lemma set_everything_links:
  assumes "set_everything_idlepar (Some a) d g p st = Returns st'" and "finite (pl_live st)"
  shows "links_ok st' []" and "global_rate st' = INJECTION_IDLE_CYCLE_EACH_TIME"
    and "idle_cycles_offset st' = idle_cycles_offset st" and "is_init st' = is_init st"
  using assms dlist_init [of a "pl_links st"]
  by (auto simp: set_everything_idlepar_def Let_def links_ok_def)

lemma set_everything_inv:
  assumes "set_everything_idlepar (Some a) d g p st = Returns st'" and "finite (pl_live st)"
    and "idle_cycles_offset st = 0"
  shows "inject_inv (st'\<lparr>is_init := 0\<rparr>)" and "pid_table (st'\<lparr>is_init := 0\<rparr>) = []"
proof -
  note l = set_everything_links [OF assms(1,2)]
  have k: "links_ok (st'\<lparr>is_init := 0\<rparr>) []" using l(1) by (simp add: links_ok_def)
  show "inject_inv (st'\<lparr>is_init := 0\<rparr>)"
    using l assms(3) by (intro inject_invI [OF k])
      (simp_all add: table_ok_def INJECTION_IDLE_CYCLE_EACH_TIME_def in_s32_def)
  show "pid_table (st'\<lparr>is_init := 0\<rparr>) = []"
    by (simp add: pid_table_def pid_entries_eq [OF k])
qed

text \<open>The state after the first pass of \<open>schedule\<close> has set the component up.\<close>

definition param_ready :: sched_parameters where
  "param_ready =
     (case set_everything_idlepar (Some 1) True True True param_init of
        Returns st \<Rightarrow> st\<lparr>is_init := 0\<rparr> | Oops \<Rightarrow> param_init)"

lemma param_ready_inv: "inject_inv param_ready" "pid_table param_ready = []" "pl_live param_ready = {1}"
proof -
  obtain st where st: "set_everything_idlepar (Some 1) True True True param_init = Returns st"
    by (simp add: set_everything_idlepar_def Let_def)
  then have eq: "param_ready = st\<lparr>is_init := 0\<rparr>" by (simp add: param_ready_def)
  show "inject_inv param_ready" "pid_table param_ready = []"
    unfolding eq by (rule set_everything_inv [OF st]; simp add: param_init_def)+
  show "pl_live param_ready = {1}"
    using st unfolding eq by (auto simp: set_everything_idlepar_def Let_def param_init_def)
qed

section \<open>Properties\<close>

text \<open>C1. Writing to \<open>/proc/schedidle/sched_pid\<close>: for every state that satisfies the injection
  invariant, a fresh node and a buffer with at least one comma, the handler returns the byte
  count, keeps the invariant, and its effect on the list of entries is exactly the abstract table
  operation: reject a load below 5 or a type other than \<open>t\<close>/\<open>p\<close>, replace the entry with the
  same pid, remove the entry with the negated pid, or else append (\<open>p\<close>) or prepend (\<open>t\<close>).\<close>
theorem proc_write_idlePid_refines:
  assumes "inject_inv st" and "kmalloc_retry na = Some new" and "kmalloc_retry ba = Some b"
    and "new \<notin> pl_live st" and "count \<noteq> 0" and "parse_pid_cmd (cstr (buf @ slack)) = Some n"
  shows "\<exists>st'. proc_write_idlePid na ba (Some buf) count slack st = Some (Returns (int count, st')) \<and>
    inject_inv st' \<and> pid_table st' = table_insert n (pid_table st)"
  using pid_write_refines [OF assms(1,4,6) refl]
  by (simp add: proc_write_idlePid_returns [OF assms(2,3,5,6)])

theorem proc_write_idlePid_refines_witness:
  "\<exists>st'. proc_write_idlePid [None, Some 7] [Some 9] (Some ''42,6,p'') 6 [CHR 0x00] param_ready =
      Some (Returns (6, st')) \<and> inject_inv st' \<and>
    pid_table st' = [\<lparr>pl_pid = 42, max_load = 6, times = 0, pl_type = CHR ''p''\<rparr>]"
proof -
  have p: "parse_pid_cmd (cstr (''42,6,p'' @ [CHR 0x00])) =
      Some \<lparr>pl_pid = 42, max_load = 6, times = 0, pl_type = CHR ''p''\<rparr>"
    by code_simp
  show ?thesis
    using proc_write_idlePid_refines [OF param_ready_inv(1), of "[None, Some 7]" 7 "[Some 9]" 9 6, OF _ _ _ _ p]
    by (simp add: param_ready_inv table_insert_def INJECTION_IDLE_CYCLE_PROC_def)
qed

text \<open>C6. What a user writes is what is watched: writing the line \<open>pid,load,type\<close> (numbers as
  \<open>%d\<close> prints them, whatever bytes lie behind the buffer) for a positive pid, a load of at least
  5 and type \<open>t\<close> or \<open>p\<close> leaves exactly one entry for that pid, with that load and type and its
  selection count at zero.\<close>
theorem proc_write_idlePid_installs:
  assumes "inject_inv st" and "kmalloc_retry na = Some new" and "kmalloc_retry ba = Some b"
    and "new \<notin> pl_live st" and "0 < pid" and "in_s32 pid" and "5 \<le> load" and "in_s32 load"
    and "ty = CHR ''t'' \<or> ty = CHR ''p''"
    and "buf = fmt_d pid @ '','' @ fmt_d load @ '','' @ [ty, CHR 0x0A]"
  shows "\<exists>st'. proc_write_idlePid na ba (Some buf) (length buf) slack st =
      Some (Returns (int (length buf), st')) \<and> inject_inv st' \<and>
    filter (\<lambda>f. pl_pid f = pid) (pid_table st') =
      [\<lparr>pl_pid = pid, max_load = load, times = 0, pl_type = ty\<rparr>]"
proof -
  let ?n = "\<lparr>pl_pid = pid, max_load = load, times = 0, pl_type = ty\<rparr>"
  have p: "parse_pid_cmd (cstr (buf @ slack)) = Some ?n"
    using parse_pid_line [of pid load ty "CHR 0x0A # slack"] assms(6,8,9,10) by auto
  have c: "length buf \<noteq> 0" by (simp add: assms(10))
  note r = pid_write_refines [OF assms(1,4) p refl]
  have sg: "s32 (- pid) < 0"
    using assms(5,6) by (subst s32_id) (simp_all add: in_s32_def)
  have t: "table_ok (pid_table st)" using assms(1) by (simp add: inject_inv_def)
  have "filter (\<lambda>f. pl_pid f = pid) (table_insert ?n (pid_table st)) = [?n]"
    using table_insert_filter [OF t, of ?n] assms(5,7,9) sg by (simp add: INJECTION_IDLE_CYCLE_PROC_def)
  with r show ?thesis
    by (simp add: proc_write_idlePid_returns [OF assms(2,3) c p])
qed

theorem proc_write_idlePid_installs_witness:
  "\<exists>st'. proc_write_idlePid [Some 7] [Some 9] (Some ''42,6,p\<newline>'') 7 ''x,9'' param_ready =
      Some (Returns (7, st')) \<and> inject_inv st' \<and>
    filter (\<lambda>f. pl_pid f = 42) (pid_table st') =
      [\<lparr>pl_pid = 42, max_load = 6, times = 0, pl_type = CHR ''p''\<rparr>]"
proof -
  have b: "''42,6,p\<newline>'' = fmt_d 42 @ '','' @ fmt_d 6 @ '','' @ [CHR ''p'', CHR 0x0A]"
    by code_simp
  show ?thesis
    using proc_write_idlePid_installs [OF param_ready_inv(1), of "[Some 7]" 7 "[Some 9]" 9 42 6 "CHR ''p''",
        OF _ _ _ _ _ _ _ _ b, of "''x,9''"]
    by (simp add: param_ready_inv(3) in_s32_def eval_nat_numeral)
qed

text \<open>C2. Injection rate per pid: when exactly one table entry concerns a task, of any number of
  consecutive selections of that task exactly those are replaced by the idle task that make the
  selection count a multiple of the entry's \<open>max_load\<close> (at least 5, so never twice in a row).\<close>
theorem inject_every_max_load:
  assumes "inject_inv st" and "pid_table st = ys @ f # zs" and "pid_match tgid pid f"
    and "\<forall>g\<in>set ys \<union> set zs. \<not> pid_match tgid pid g" and "k < n"
  shows "snd (check_runs n tgid pid st) ! k \<longleftrightarrow> max_load f dvd times f + int k + 1"
  using assms by (rule check_runs_hits)

text \<open>One entry for process 42, type \<open>p\<close>, with load 6.\<close>

definition param_42 :: sched_parameters where
  "param_42 = pid_insert 7 (param_ready\<lparr>pl_live := insert 7 (pl_live param_ready),
     pl_node := (pl_node param_ready)(7 := \<lparr>pl_pid = 42, max_load = 6, times = 0, pl_type = CHR ''p''\<rparr>)\<rparr>)"

lemma param_42_inv:
  "inject_inv param_42"
  "pid_table param_42 = [\<lparr>pl_pid = 42, max_load = 6, times = 0, pl_type = CHR ''p''\<rparr>]"
  "pl_live param_42 = {1, 7}"
proof -
  have p: "parse_pid_cmd ''42,6,p'' = Some \<lparr>pl_pid = 42, max_load = 6, times = 0, pl_type = CHR ''p''\<rparr>"
    by code_simp
  have n: "7 \<notin> pl_live param_ready" by (simp add: param_ready_inv(3))
  note r = pid_write_refines [OF param_ready_inv(1) n p param_42_def]
  show "inject_inv param_42" by (rule r(1))
  show "pid_table param_42 = [\<lparr>pl_pid = 42, max_load = 6, times = 0, pl_type = CHR ''p''\<rparr>]"
    using r(2) by (simp add: param_ready_inv table_insert_def INJECTION_IDLE_CYCLE_PROC_def)
  have e: "links_ok param_ready []"
    using param_ready_inv(1,2) by (simp add: inject_inv_def pid_table_def)
  show "pl_live param_42 = {1, 7}"
    using links_empty [OF e]
    by (auto simp: param_42_def pid_insert_def pid_add_def INJECTION_IDLE_CYCLE_PROC_def param_ready_inv(3))
qed

theorem inject_every_max_load_witness:
  "snd (check_runs 6 42 42 param_42) ! 5 \<and> \<not> snd (check_runs 6 42 42 param_42) ! 4"
  using inject_every_max_load [OF param_42_inv(1), of "[]" _ "[]" 42 42 5 6]
    inject_every_max_load [OF param_42_inv(1), of "[]" _ "[]" 42 42 4 6]
  by (simp add: param_42_inv(2) pid_match_def)





text \<open>Removing an entry leaks the request: after the write that removes a watched pid (its
  negation, with an acceptable load and type), the node allocated for the request is still
  allocated, is not the list head and is on no list, so nothing can free it.\<close>
theorem proc_write_idlePid_removal_leaks:
  assumes "inject_inv st" and "new \<notin> pl_live st" and "f \<in> set (pid_table st)"
    and "n = \<lparr>pl_pid = - pl_pid f, max_load = load, times = 0, pl_type = CHR ''t''\<rparr>"
    and "5 \<le> load" and "in_s32 (pl_pid f)"
    and "st' = pid_insert new (st\<lparr>pl_live := insert new (pl_live st), pl_node := (pl_node st)(new := n)\<rparr>)"
  shows "new \<in> pl_live st' \<and> new \<noteq> pidList st' \<and> new \<notin> set (pid_entries st') \<and>
    pid_table st' = filter (\<lambda>g. pl_pid g \<noteq> pl_pid f) (pid_table st)"
proof -
  let ?st = "st\<lparr>pl_live := insert new (pl_live st), pl_node := (pl_node st)(new := n)\<rparr>"
  let ?xs = "pid_entries st"
  have l: "links_ok st ?xs" "table_ok (pid_table st)" using assms(1) by (simp_all add: inject_inv_def)
  have nx: "new \<notin> insert (pidList st) (set ?xs)" using l(1) assms(2) by (auto simp: links_ok_def)
  have l': "links_ok ?st ?xs" using l(1) by (auto simp: links_ok_def)
  have tab: "map (pl_node ?st) ?xs = pid_table st" using nx by (simp add: pid_table_def kt.map_other)
  have neg: "s32 (- pl_pid n) = pl_pid f"
    using assms(4,6) by (simp add: s32_id)
  have pos: "0 < pl_pid g" if "g \<in> set (pid_table st)" for g
    using that l(2) by (simp add: table_ok_def pid_ok_def)
  have npos: "pl_pid g \<noteq> pl_pid n" if "g \<in> set (pid_table st)" for g
    using pos [OF that] pos [OF assms(3)] assms(4) by simp
  have w: "pid_walk new ?xs ?st \<noteq> None"
  proof -
    have "pl_node ?st new = n" by simp
    then show ?thesis
      unfolding pid_walk_None tab table_walk_None using assms(3) neg by auto
  qed
  then obtain s1 where s1: "pid_walk new ?xs ?st = Some s1" by blast
  have st': "st' = s1"
    unfolding assms(7) using assms(4,5) s1
    by (intro pid_insert_walk [OF l']) (simp_all add: INJECTION_IDLE_CYCLE_PROC_def)
  from s1 show ?thesis
  proof (cases rule: pid_walk_Some)
    case (1 ys g zs)
    then have "table_walk n (pid_table st) = Some (map (pl_node ?st) ys @ n # map (pl_node ?st) zs)"
      unfolding tab by simp
    from table_walk_removes [OF l(2) npos this]
    have "n \<in> set (filter (\<lambda>g. pl_pid g \<noteq> s32 (- pl_pid n)) (pid_table st))"
      by (metis in_set_conv_decomp)
    then show ?thesis using npos by auto
  next
    case (2 ys g zs)
    have d: "dlist (pl_links s1) (pidList s1) (ys @ zs)"
      using 2 l' by (simp add: kt.table_del links_ok_def)
    have l1: "links_ok s1 (ys @ zs)"
      using 2 l' d by (auto simp: links_ok_def dlist_def)
    have "pid_table s1 = map (pl_node ?st) (ys @ zs)"
      unfolding pid_table_def pid_entries_eq [OF l1] by (simp add: 2(2))
    also have "\<dots> = filter (\<lambda>g. pl_pid g \<noteq> pl_pid f) (pid_table st)"
      using 2(3) table_walk_removes [OF l(2) npos] neg unfolding tab by simp
    finally have t: "pid_table s1 = filter (\<lambda>g. pl_pid g \<noteq> pl_pid f) (pid_table st)" .
    have "new \<in> pl_live s1" "pidList s1 = pidList st"
      using 2(1,2) nx by auto
    moreover have "new \<notin> set (pid_entries s1)"
      unfolding pid_entries_eq [OF l1] using nx 2(1) by auto
    ultimately show ?thesis
      unfolding st' using t nx by simp
  qed
qed

theorem proc_write_idlePid_removal_leaks_witness:
  "\<exists>st'. st' = pid_insert 8 (param_42\<lparr>pl_live := insert 8 (pl_live param_42), pl_node := (pl_node param_42)(8 :=
      \<lparr>pl_pid = - 42, max_load = 5, times = 0, pl_type = CHR ''t''\<rparr>)\<rparr>) \<and>
    8 \<in> pl_live st' \<and> 8 \<noteq> pidList st' \<and> 8 \<notin> set (pid_entries st') \<and> pid_table st' = []"
  using proc_write_idlePid_removal_leaks [OF param_42_inv(1), of 8
      "\<lparr>pl_pid = 42, max_load = 6, times = 0, pl_type = CHR ''p''\<rparr>" _ 5, OF _ _ refl _ _ refl]
  by (simp add: param_42_inv(2,3) in_s32_def)

text \<open>The copied bytes are not terminated, so the same write can install different entries: with
  the bytes \<open>42,6\<close> and a newline, memory behind the buffer that holds a comma supplies the type.\<close>
theorem proc_write_idlePid_reads_past_buffer:
  "parse_pid_cmd (cstr (''42,6\<newline>'' @ [CHR 0x00])) =
     Some \<lparr>pl_pid = 42, max_load = 6, times = 0, pl_type = CHR ''t''\<rparr> \<and>
   parse_pid_cmd (cstr (''42,6\<newline>'' @ ''0,p'' @ [CHR 0x00])) =
     Some \<lparr>pl_pid = 42, max_load = 6, times = 0, pl_type = CHR ''p''\<rparr>"
  by code_simp

end
