(* ===== verification/Kbitmap.thy ===== *)
theory Kbitmap
  imports Kernel_Prelude
begin

text \<open>
  Bitmaps over 64-bit words: the accessors of \<open>include/asm-generic/bitops/non-atomic.h\<close>, the
  bit scan \<open>__ffs\<close> of \<open>include/asm-generic/bitops/__ffs.h\<close>, \<open>find_next_bit\<close> of
  \<open>lib/find_next_bit.c\<close> and the region allocator of \<open>lib/bitmap.c\<close>.  A bitmap in memory is
  the function from word index to word that its base pointer addresses.  The theory proves
  each scan equal to its specification by bit positions; the run queue (priority bitmap) and
  the heart rate monitor (counter slots) are the clients, through the locale
  \<open>bit_array\<close>.
\<close>

unbundle bit_operations_syntax

type_synonym bitmap = "nat \<Rightarrow> 64 word"

section \<open>Accessors\<close>

definition test_bit :: "nat \<Rightarrow> bitmap \<Rightarrow> bool" where
  "test_bit nr addr \<longleftrightarrow> (1 AND drop_bit (nr mod 64) (addr (nr div 64))) \<noteq> 0"

definition set_bit_na :: "nat \<Rightarrow> bitmap \<Rightarrow> bitmap" where
  "set_bit_na nr addr = addr(nr div 64 := addr (nr div 64) OR push_bit (nr mod 64) 1)"

definition clear_bit_na :: "nat \<Rightarrow> bitmap \<Rightarrow> bitmap" where
  "clear_bit_na nr addr = addr(nr div 64 := addr (nr div 64) AND NOT (push_bit (nr mod 64) 1))"

lemma test_bit_iff: "test_bit nr b \<longleftrightarrow> bit (b (nr div 64)) (nr mod 64)"
proof -
  have "1 AND drop_bit (nr mod 64) (b (nr div 64)) = of_bool (odd (drop_bit (nr mod 64) (b (nr div 64))))"
    by (simp add: one_and_eq of_bool_odd_eq_mod_2)
  then show ?thesis
    by (simp add: test_bit_def bit_iff_odd_drop_bit)
qed

lemma same_position: "i div 64 = j div 64 \<Longrightarrow> i mod 64 = j mod 64 \<longleftrightarrow> i = (j::nat)"
  by (metis div_mult_mod_eq)

lemma test_set_bit [simp]: "test_bit j (set_bit_na i b) \<longleftrightarrow> j = i \<or> test_bit j b"
proof (cases "j div 64 = i div 64")
  case True
  then show ?thesis
    by (auto simp: test_bit_iff set_bit_na_def bit_simps same_position)
next
  case False
  then show ?thesis
    by (auto simp: test_bit_iff set_bit_na_def)
qed

lemma test_clear_bit [simp]: "test_bit j (clear_bit_na i b) \<longleftrightarrow> j \<noteq> i \<and> test_bit j b"
proof (cases "j div 64 = i div 64")
  case True
  then show ?thesis
    by (auto simp: test_bit_iff clear_bit_na_def bit_simps same_position)
next
  case False
  then show ?thesis
    by (auto simp: test_bit_iff clear_bit_na_def)
qed

section \<open>The lowest set bit of a word\<close>

definition ffs_step :: "nat \<Rightarrow> 64 word \<Rightarrow> nat \<times> 64 word \<Rightarrow> nat \<times> 64 word" where
  "ffs_step k m s = (case s of (num, word) \<Rightarrow>
     if word AND m = 0 then (num + k, drop_bit k word) else (num, word))"

definition ffs :: "64 word \<Rightarrow> nat" where
  "ffs word =
     (case ffs_step 2 0x3 (ffs_step 4 0xf (ffs_step 8 0xff (ffs_step 16 0xffff
        (ffs_step 32 0xffffffff (0, word))))) of
       (num, word) \<Rightarrow> if word AND 0x1 = 0 then num + 1 else num)"

definition lowest_bit :: "64 word \<Rightarrow> nat \<Rightarrow> bool" where
  "lowest_bit w n \<longleftrightarrow> bit w n \<and> (\<forall>m<n. \<not> bit w m)"

text \<open>One step of the binary search: the lowest bit of the original word is the lowest bit of
  what is left, moved by what was skipped, and it lies in a window half as wide.\<close>

definition ffs_inv :: "64 word \<Rightarrow> nat \<Rightarrow> nat \<times> 64 word \<Rightarrow> bool" where
  "ffs_inv w width s = (case s of (num, v) \<Rightarrow>
     \<exists>n<width. lowest_bit v n \<and> lowest_bit w (num + n))"

lemma and_mask_zero:
  fixes v :: "64 word"
  shows "v AND mask k = 0 \<longleftrightarrow> (\<forall>m<k. \<not> bit v m)"
  using bit_imp_le_length [of v] by (auto simp: bit_eq_iff bit_simps)

lemma ffs_step_inv:
  assumes "ffs_inv w (2 * k) s"
  shows "ffs_inv w k (ffs_step k (mask k) s)"
proof -
  obtain num v where s: "s = (num, v)" by (cases s)
  from assms s obtain n where n: "n < 2 * k" "lowest_bit v n" "lowest_bit w (num + n)"
    by (auto simp: ffs_inv_def)
  show ?thesis
  proof (cases "v AND mask k = 0")
    case True
    then have "k \<le> n"
      using n(2) by (auto simp: and_mask_zero lowest_bit_def not_less [symmetric])
    with n have "n - k < k" "lowest_bit (drop_bit k v) (n - k)" "lowest_bit w (num + k + (n - k))"
      by (auto simp: lowest_bit_def bit_simps)
    then show ?thesis
      using True by (auto simp: s ffs_step_def ffs_inv_def)
  next
    case False
    then obtain m where "m < k" "bit v m"
      by (auto simp: and_mask_zero)
    with n(2) have "n < k"
      by (metis lowest_bit_def not_less_iff_gr_or_eq order.strict_trans)
    with False n show ?thesis
      by (auto simp: s ffs_step_def ffs_inv_def)
  qed
qed

lemma lowest_bit_exists: "w \<noteq> 0 \<Longrightarrow> \<exists>n<64. lowest_bit w n"
proof -
  assume "w \<noteq> 0"
  then obtain k where "bit w k"
    by (auto simp: bit_eq_iff)
  define n where "n = (LEAST k. bit w k)"
  have b: "bit w n"
    unfolding n_def by (rule LeastI) (rule \<open>bit w k\<close>)
  moreover have "\<forall>m<n. \<not> bit w m"
    unfolding n_def by (blast dest: not_less_Least)
  moreover have "n < 64"
    using bit_imp_le_length [OF b] by simp
  ultimately show ?thesis
    unfolding lowest_bit_def by blast
qed

lemma lowest_bit_unique: "lowest_bit w n \<Longrightarrow> lowest_bit w m \<Longrightarrow> n = m"
  by (metis lowest_bit_def linorder_neqE_nat)

lemma ffs_lowest:
  assumes "w \<noteq> 0"
  shows "lowest_bit w (ffs w)"
proof -
  have m: "0x3 = (mask 2 :: 64 word)" "0xf = (mask 4 :: 64 word)" "0xff = (mask 8 :: 64 word)"
    "0xffff = (mask 16 :: 64 word)" "0xffffffff = (mask 32 :: 64 word)"
    by (simp_all add: mask_eq_exp_minus_1)
  have i0: "ffs_inv w (2 * 32) (0, w)"
    using lowest_bit_exists [OF assms] by (auto simp: ffs_inv_def)
  let ?s = "ffs_step 2 0x3 (ffs_step 4 0xf (ffs_step 8 0xff (ffs_step 16 0xffff
        (ffs_step 32 0xffffffff (0, w)))))"
  have i1: "ffs_inv w (2 * 16) (ffs_step 32 0xffffffff (0, w))"
    using ffs_step_inv [OF i0] by (simp add: m)
  have i2: "ffs_inv w (2 * 8) (ffs_step 16 0xffff (ffs_step 32 0xffffffff (0, w)))"
    using ffs_step_inv [OF i1] by (simp add: m)
  have i3: "ffs_inv w (2 * 4) (ffs_step 8 0xff (ffs_step 16 0xffff (ffs_step 32 0xffffffff (0, w))))"
    using ffs_step_inv [OF i2] by (simp add: m)
  have i4: "ffs_inv w (2 * 2) (ffs_step 4 0xf (ffs_step 8 0xff (ffs_step 16 0xffff
      (ffs_step 32 0xffffffff (0, w)))))"
    using ffs_step_inv [OF i3] by (simp add: m)
  have i5: "ffs_inv w 2 ?s"
    using ffs_step_inv [OF i4] by (simp add: m)
  obtain num v where s: "?s = (num, v)" by (cases ?s)
  with i5 obtain n where n: "n < 2" "lowest_bit v n" "lowest_bit w (num + n)"
    by (auto simp: ffs_inv_def)
  have one: "v AND 1 = 0 \<longleftrightarrow> \<not> bit v 0"
    using and_mask_zero [of v 1] by simp
  have "n = 0 \<or> n = 1" using n(1) by linarith
  then have "ffs w = num + n"
    using n(2) by (auto simp only: ffs_def s prod.case one lowest_bit_def) simp_all
  with n(3) show ?thesis by simp
qed

section \<open>find\_next\_bit\<close>

definition found_middle :: "nat \<Rightarrow> 64 word \<Rightarrow> nat" where
  "found_middle result tmp = result + ffs tmp"

definition found_first :: "nat \<Rightarrow> nat \<Rightarrow> 64 word \<Rightarrow> nat" where
  "found_first result sz tmp =
     (let tmp' = tmp AND drop_bit (64 - sz) (NOT 0)
      in if tmp' = 0 then result + sz else found_middle result tmp')"

function find_next_bit_loop :: "bitmap \<Rightarrow> nat \<Rightarrow> nat \<Rightarrow> nat \<Rightarrow> nat" where
  "find_next_bit_loop addr p sz result =
     (if 64 \<le> sz then
        (if addr p \<noteq> 0 then found_middle result (addr p)
         else find_next_bit_loop addr (p + 1) (sz - 64) (result + 64))
      else if sz = 0 then result
      else found_first result sz (addr p))"
  by pat_completeness auto
termination
  by (relation "measure (\<lambda>(addr, p, sz, result). sz)") auto

declare find_next_bit_loop.simps [simp del]

definition find_next_bit :: "bitmap \<Rightarrow> nat \<Rightarrow> nat \<Rightarrow> nat" where
  "find_next_bit addr sz offset =
     (let p = offset div 64; result = offset - offset mod 64 in
      if sz \<le> offset then sz
      else let sz = sz - result; offset = offset mod 64 in
        if offset \<noteq> 0 then
          (let tmp = addr p AND push_bit offset (NOT 0) in
           if sz < 64 then found_first result sz tmp
           else if tmp \<noteq> 0 then found_middle result tmp
           else find_next_bit_loop addr (p + 1) (sz - 64) (result + 64))
        else find_next_bit_loop addr p sz result)"

text \<open>The specification: the first set position at or after \<open>off\<close>, or \<open>sz\<close>.\<close>

definition is_next_bit :: "bitmap \<Rightarrow> nat \<Rightarrow> nat \<Rightarrow> nat \<Rightarrow> bool" where
  "is_next_bit b sz off r \<longleftrightarrow>
     off \<le> r \<and> r \<le> sz \<and> (\<forall>i. off \<le> i \<longrightarrow> i < r \<longrightarrow> \<not> test_bit i b) \<and>
     (r < sz \<longrightarrow> test_bit r b)"

lemma next_bit_extend:
  assumes "is_next_bit b sz mid r" and "off \<le> mid" and "\<And>i. off \<le> i \<Longrightarrow> i < mid \<Longrightarrow> \<not> test_bit i b"
  shows "is_next_bit b sz off r"
proof -
  have "\<not> test_bit i b" if "off \<le> i" "i < r" for i
    using assms that by (cases "i < mid") (auto simp: is_next_bit_def)
  with assms show ?thesis
    by (auto simp: is_next_bit_def)
qed

lemma test_bit_word: "k < 64 \<Longrightarrow> test_bit (64 * p + k) b \<longleftrightarrow> bit (b p) k"
  by (simp add: test_bit_iff)

lemma word_of_position:
  assumes "64 * p \<le> i" and "i < 64 * p + 64"
  shows "test_bit i b \<longleftrightarrow> bit (b p) (i - 64 * p)"
  using test_bit_word [of "i - 64 * p" p b] assms by simp

lemma found_first_next:
  assumes "sz < 64" and "0 < sz" and "\<forall>k< sz. bit tmp k \<longleftrightarrow> off \<le> 64 * p + k \<and> bit (b p) k"
    and "64 * p \<le> off" and "off < 64 * p + sz"
  shows "is_next_bit b (64 * p + sz) off (found_first (64 * p) sz tmp)"
proof -
  define t where "t = tmp AND drop_bit (64 - sz) (NOT 0)"
  have t: "bit t k \<longleftrightarrow> k < sz \<and> off \<le> 64 * p + k \<and> bit (b p) k" for k
    using assms by (auto simp: t_def bit_simps)
  have ff: "found_first (64 * p) sz tmp = (if t = 0 then 64 * p + sz else 64 * p + ffs t)"
    by (simp add: found_first_def found_middle_def Let_def t_def)
  show ?thesis
  proof (cases "t = 0")
    case True
    have "\<not> test_bit i b" if "off \<le> i" "i < 64 * p + sz" for i
    proof -
      have "\<not> bit t (i - 64 * p)" using True by simp
      with that assms show ?thesis
        by (subst word_of_position [of p]) (auto simp: t)
    qed
    with True assms show ?thesis
      by (auto simp: ff is_next_bit_def)
  next
    case False
    then have low: "lowest_bit t (ffs t)" by (rule ffs_lowest)
    then have f: "ffs t < sz" "off \<le> 64 * p + ffs t" "bit (b p) (ffs t)"
      by (auto simp: lowest_bit_def t)
    have "\<not> test_bit i b" if "off \<le> i" "i < 64 * p + ffs t" for i
    proof -
      have "i - 64 * p < ffs t" using that assms by linarith
      then have "\<not> bit t (i - 64 * p)" using low by (simp add: lowest_bit_def)
      with that assms f show ?thesis
        by (subst word_of_position [of p]) (auto simp: t)
    qed
    with False f assms show ?thesis
      by (auto simp: ff is_next_bit_def test_bit_word)
  qed
qed

lemma found_middle_next:
  assumes "tmp \<noteq> 0" and "\<forall>k<64. bit tmp k \<longleftrightarrow> off \<le> 64 * p + k \<and> bit (b p) k"
    and "64 * p \<le> off" and "64 * p + 64 \<le> sz"
  shows "is_next_bit b sz off (found_middle (64 * p) tmp)"
proof -
  have low: "lowest_bit tmp (ffs tmp)" using assms(1) by (rule ffs_lowest)
  then have lt: "ffs tmp < 64"
    using bit_imp_le_length [of tmp "ffs tmp"] by (auto simp: lowest_bit_def)
  then have f: "off \<le> 64 * p + ffs tmp" "bit (b p) (ffs tmp)"
    using assms(2) low by (auto simp: lowest_bit_def)
  have "\<not> test_bit i b" if "off \<le> i" "i < 64 * p + ffs tmp" for i
  proof -
    have i: "i - 64 * p < ffs tmp" "i - 64 * p < 64" using that assms lt by linarith+
    then have "\<not> bit tmp (i - 64 * p)" using low by (simp add: lowest_bit_def)
    with that assms lt i show ?thesis
      by (subst word_of_position [of p]) auto
  qed
  with f lt assms show ?thesis
    by (auto simp: found_middle_def is_next_bit_def test_bit_word)
qed

lemma find_next_bit_loop_next:
  assumes "result = 64 * p"
  shows "is_next_bit b (result + sz) result (find_next_bit_loop b p sz result)"
  using assms
proof (induction b p sz result rule: find_next_bit_loop.induct)
  case (1 b p sz result)
  note eq = find_next_bit_loop.simps [of b p sz "64 * p"] and r = "1.prems"
  consider "64 \<le> sz" "b p \<noteq> 0" | "64 \<le> sz" "b p = 0" | "sz = 0" | "0 < sz" "sz < 64"
    by linarith
  then show ?case
  proof cases
    case 1
    then show ?thesis
      by (auto simp: r eq intro!: found_middle_next)
  next
    case 2
    have "is_next_bit b (result + 64 + (sz - 64)) (result + 64)
        (find_next_bit_loop b (p + 1) (sz - 64) (result + 64))"
      by (rule "1.IH") (simp_all add: 2 r)
    then have nx: "is_next_bit b (result + sz) (result + 64)
        (find_next_bit_loop b (p + 1) (sz - 64) (result + 64))"
      using 2(1) by simp
    have "\<not> test_bit i b" if "result \<le> i" "i < result + 64" for i
      using that by (subst word_of_position [of p]) (simp_all add: 2 r)
    then have "is_next_bit b (result + sz) result
        (find_next_bit_loop b (p + 1) (sz - 64) (result + 64))"
      by (intro next_bit_extend [OF nx]) simp_all
    then show ?thesis
      using 2 by (simp add: r eq)
  next
    case 3
    then show ?thesis
      unfolding r eq by (simp add: is_next_bit_def)
  next
    case 4
    then show ?thesis
      by (auto simp: r eq intro!: found_first_next)
  qed
qed

lemma find_next_bit_next:
  assumes "off < sz"
  shows "is_next_bit b sz off (find_next_bit b sz off)"
proof -
  let ?p = "off div 64" and ?k = "off mod 64"
  have res: "off - off mod 64 = 64 * ?p" and off: "off = 64 * ?p + ?k" and k: "?k < 64"
    by (simp_all add: minus_mod_eq_mult_div)
  show ?thesis
  proof (cases "?k = 0")
    case True
    then have "is_next_bit b (64 * ?p + (sz - 64 * ?p)) (64 * ?p)
        (find_next_bit_loop b ?p (sz - 64 * ?p) (64 * ?p))"
      by (intro find_next_bit_loop_next) simp
    with True off assms show ?thesis
      by (simp add: find_next_bit_def res Let_def)
  next
    case False
    let ?tmp = "b ?p AND push_bit ?k (NOT 0)"
    have pos: "off \<le> 64 * ?p + k \<longleftrightarrow> ?k \<le> k" for k
      using off by linarith
    have tmp: "\<forall>k<64. bit ?tmp k \<longleftrightarrow> off \<le> 64 * ?p + k \<and> bit (b ?p) k"
      unfolding pos by (auto simp: bit_simps)
    consider "sz - 64 * ?p < 64" | "64 \<le> sz - 64 * ?p" "?tmp \<noteq> 0"
      | "64 \<le> sz - 64 * ?p" "?tmp = 0"
      by linarith
    then show ?thesis
    proof cases
      case 1
      have "is_next_bit b (64 * ?p + (sz - 64 * ?p)) off
          (found_first (64 * ?p) (sz - 64 * ?p) ?tmp)"
        by (rule found_first_next) (use 1 tmp off assms in auto)
      with 1 False off assms show ?thesis
        by (simp add: find_next_bit_def res Let_def)
    next
      case 2
      have "is_next_bit b sz off (found_middle (64 * ?p) ?tmp)"
        by (rule found_middle_next) (use 2 tmp off in auto)
      with 2 False off assms show ?thesis
        by (simp add: find_next_bit_def res Let_def)
    next
      case 3
      have "is_next_bit b (64 * ?p + 64 + (sz - 64 * ?p - 64)) (64 * ?p + 64)
          (find_next_bit_loop b (?p + 1) (sz - 64 * ?p - 64) (64 * ?p + 64))"
        by (rule find_next_bit_loop_next) simp
      moreover have "64 * ?p + 64 + (sz - 64 * ?p - 64) = sz"
        using 3(1) by linarith
      ultimately have nx: "is_next_bit b sz (64 * ?p + 64)
          (find_next_bit_loop b (?p + 1) (sz - 64 * ?p - 64) (64 * ?p + 64))"
        by (simp only:)
      have "\<not> test_bit i b" if "off \<le> i" "i < 64 * ?p + 64" for i
      proof -
        have i: "64 * ?p \<le> i" "i - 64 * ?p < 64" "64 * ?p + (i - 64 * ?p) = i"
          using that off by linarith+
        have "\<not> bit ?tmp (i - 64 * ?p)"
          unfolding 3(2) by simp
        with tmp i that(1) have "\<not> bit (b ?p) (i - 64 * ?p)"
          by (metis (no_types))
        with i(1) that(2) show ?thesis
          by (subst word_of_position [of ?p]) simp_all
      qed
      then have "is_next_bit b sz off
          (find_next_bit_loop b (?p + 1) (sz - 64 * ?p - 64) (64 * ?p + 64))"
        using off k by (intro next_bit_extend [OF nx]) linarith+
      with 3 False assms show ?thesis
        by (simp add: find_next_bit_def res Let_def)
    qed
  qed
qed

lemma find_next_bit_past: "sz \<le> off \<Longrightarrow> find_next_bit b sz off = sz"
  by (simp add: find_next_bit_def)

section \<open>Aligned regions\<close>

datatype reg_op_kind = REG_OP_ISFREE | REG_OP_ALLOC | REG_OP_RELEASE

definition reg_mask :: "nat \<Rightarrow> nat \<Rightarrow> 64 word" where
  "reg_mask pos order =
     (let nbits_reg = 2 ^ order; offset = pos - pos div 64 * 64; nbitsinlong = min nbits_reg 64;
          m = push_bit (nbitsinlong - 1) 1
      in push_bit offset (m + (m - 1)))"

definition reg_op :: "bitmap \<Rightarrow> nat \<Rightarrow> nat \<Rightarrow> reg_op_kind \<Rightarrow> bitmap \<times> bool" where
  "reg_op bm pos order op =
     (let index = pos div 64; nlongs_reg = (2 ^ order + 63) div 64; m = reg_mask pos order in
      case op of
        REG_OP_ISFREE \<Rightarrow> (bm, list_all (\<lambda>i. bm (index + i) AND m = 0) [0..<nlongs_reg])
      | REG_OP_ALLOC \<Rightarrow> (fold (\<lambda>i b. b(index + i := b (index + i) OR m)) [0..<nlongs_reg] bm, False)
      | REG_OP_RELEASE \<Rightarrow>
          (fold (\<lambda>i b. b(index + i := b (index + i) AND NOT m)) [0..<nlongs_reg] bm, False))"

function find_free_from :: "bitmap \<Rightarrow> nat \<Rightarrow> nat \<Rightarrow> nat \<Rightarrow> bitmap \<times> int" where
  "find_free_from bm bits order pos =
     (if pos + 2 ^ order \<le> bits then
        (if \<not> snd (reg_op bm pos order REG_OP_ISFREE)
         then find_free_from bm bits order (pos + 2 ^ order)
         else (fst (reg_op bm pos order REG_OP_ALLOC), int pos))
      else (bm, - ENOMEM))"
  by pat_completeness auto
termination
proof (relation "measure (\<lambda>(bm, bits, order, pos). bits - pos)", goal_cases)
  case (2 bm bits order pos)
  have "0 < (2::nat) ^ order" by simp
  with 2(1) have "bits - (pos + 2 ^ order) < bits - pos" by linarith
  then show ?case by simp
qed simp

declare find_free_from.simps [simp del]

definition bitmap_find_free_region :: "bitmap \<Rightarrow> nat \<Rightarrow> nat \<Rightarrow> bitmap \<times> int" where
  "bitmap_find_free_region bm bits order = find_free_from bm bits order 0"

definition bitmap_release_region :: "bitmap \<Rightarrow> nat \<Rightarrow> nat \<Rightarrow> bitmap" where
  "bitmap_release_region bm pos order = fst (reg_op bm pos order REG_OP_RELEASE)"

text \<open>Positions covered by a region: word \<open>index + i\<close> of the scan and a bit of its mask.\<close>

definition region :: "nat \<Rightarrow> nat \<Rightarrow> nat set" where
  "region pos order = {pos ..< pos + 2 ^ order}"

lemma reg_mask_bit:
  "bit (reg_mask pos order) k \<longleftrightarrow> k < 64 \<and> pos mod 64 \<le> k \<and> k < pos mod 64 + min (2 ^ order) 64"
proof -
  define n where "n = min (2 ^ order) (64::nat)"
  have n: "0 < n" "n \<le> 64" by (auto simp: n_def)
  have "push_bit (n - 1) 1 + (push_bit (n - 1) 1 - 1) = (2 ^ n - 1 :: 64 word)"
    using n(1) by (cases n) (simp_all add: push_bit_eq_mult)
  then have "reg_mask pos order = push_bit (pos mod 64) (mask n)"
    by (simp add: reg_mask_def Let_def n_def mask_eq_exp_minus_1 minus_div_mult_eq_mod
        del: push_bit_of_1)
  then show ?thesis
    using n by (auto simp: bit_simps n_def [symmetric])
qed

lemma aligned_small:
  assumes "2 ^ order dvd pos" and "order \<le> 6"
  shows "pos mod 64 + 2 ^ order \<le> (64::nat)"
proof -
  have d: "2 ^ order dvd (64::nat)"
    using le_imp_power_dvd [OF assms(2), of "2::nat"] by simp
  then have "2 ^ order dvd pos mod 64"
    using assms(1) by (simp add: dvd_mod_iff)
  then obtain a where a: "pos mod 64 = 2 ^ order * a" by (auto elim: dvdE)
  from d obtain c where c: "(64::nat) = 2 ^ order * c" by (auto elim: dvdE)
  have "pos mod 64 < 64" by simp
  then have "2 ^ order * a < 2 ^ order * c" unfolding a [symmetric] c [symmetric] .
  then have "a + 1 \<le> c" by simp
  then have "2 ^ order * (a + 1) \<le> 2 ^ order * c" by (rule mult_le_mono2)
  then have "2 ^ order * a + 2 ^ order \<le> 2 ^ order * c" by simp
  then show ?thesis unfolding a c [symmetric] .
qed

lemma aligned_large:
  assumes "2 ^ order dvd (pos::nat)" and "6 < order"
  shows "64 dvd pos" and "64 dvd (2 ^ order :: nat)"
proof -
  show d: "64 dvd (2 ^ order :: nat)"
    using le_imp_power_dvd [of 6 order "2::nat"] assms(2) by simp
  show "64 dvd pos" by (rule dvd_trans [OF d assms(1)])
qed

lemma in_word_range:
  assumes "p mod 64 + n \<le> (64::nat)"
  shows "p \<le> j \<and> j < p + n \<longleftrightarrow> j div 64 = p div 64 \<and> p mod 64 \<le> j mod 64 \<and> j mod 64 < p mod 64 + n"
proof -
  have p: "p = 64 * (p div 64) + p mod 64" and j: "j = 64 * (j div 64) + j mod 64"
    by simp_all
  have "j div 64 = p div 64" if "p \<le> j" "j < p + n"
  proof (rule div_nat_eqI)
    show "64 * (p div 64) \<le> j" using that p by linarith
    show "j < 64 * Suc (p div 64)" using that p assms unfolding mult_Suc_right by linarith
  qed
  with p j show ?thesis
    by (smt (verit) nat_add_left_cancel_le nat_add_left_cancel_less add.assoc)
qed

lemma region_cover:
  assumes "2 ^ order dvd pos"
  shows "(\<exists>i < (2 ^ order + 63) div 64. j div 64 = pos div 64 + i) \<and>
      bit (reg_mask pos order) (j mod 64) \<longleftrightarrow> j \<in> region pos order"
proof (cases "order \<le> 6")
  case True
  have le: "pos mod 64 + 2 ^ order \<le> (64::nat)"
    by (rule aligned_small [OF assms True])
  have p: "0 < (2::nat) ^ order" by simp
  have one: "(2 ^ order + 63) div 64 = (1::nat)"
    using le p by (auto intro!: div_nat_eqI)
  have "j \<in> region pos order \<longleftrightarrow> j div 64 = pos div 64 \<and> pos mod 64 \<le> j mod 64 \<and>
      j mod 64 < pos mod 64 + 2 ^ order"
    unfolding region_def atLeastLessThan_iff by (rule in_word_range [OF le])
  then show ?thesis
    using le by (auto simp: one reg_mask_bit min_def)
next
  case False
  then obtain a c where a: "pos = 64 * a" and c: "(2 ^ order :: nat) = 64 * c"
    using aligned_large [OF assms] by (auto elim!: dvdE)
  have "0 < c" using c by (cases c) auto
  then have "bit (reg_mask pos order) (j mod 64)"
    by (simp add: reg_mask_bit a c)
  moreover have "(64 * c + 63) div 64 = c" by simp
  moreover have "(\<exists>i<c. j div 64 = a + i) \<longleftrightarrow> a \<le> j div 64 \<and> j div 64 < a + c"
    by (auto simp: le_iff_add)
  moreover have "a \<le> j div 64 \<and> j div 64 < a + c \<longleftrightarrow> 64 * a \<le> j \<and> j < 64 * a + 64 * c"
    by linarith
  ultimately show ?thesis
    by (simp add: region_def a c)
qed

lemma fold_words:
  "fold (\<lambda>i b. b(index + i := f (b (index + i)))) [0..<n] bm j =
     (if \<exists>i<n. j = index + i then f (bm j) else bm j)"
  by (induction n) (auto simp: less_Suc_eq)

lemma reg_op_free:
  assumes "2 ^ order dvd pos"
  shows "snd (reg_op bm pos order REG_OP_ISFREE) \<longleftrightarrow> (\<forall>j \<in> region pos order. \<not> test_bit j bm)"
proof -
  have z: "bm w AND m = 0 \<longleftrightarrow> (\<forall>k<64. \<not> (test_bit (64 * w + k) bm \<and> bit m k))" for w m
    using bit_imp_le_length [of m] by (auto simp: bit_eq_iff bit_simps test_bit_word)
  have "snd (reg_op bm pos order REG_OP_ISFREE) \<longleftrightarrow>
      (\<forall>i < (2 ^ order + 63) div 64. \<forall>k<64. \<not> (test_bit (64 * (pos div 64 + i) + k) bm \<and>
         bit (reg_mask pos order) k))"
    unfolding reg_op_def Let_def list_all_iff z by (simp add: Ball_def)
  also have "\<dots> \<longleftrightarrow> (\<forall>j. (\<exists>i < (2 ^ order + 63) div 64. j div 64 = pos div 64 + i) \<and>
      bit (reg_mask pos order) (j mod 64) \<longrightarrow> \<not> test_bit j bm)" (is "?l \<longleftrightarrow> ?r")
  proof
    assume l: ?l
    show ?r
    proof (intro allI impI, elim conjE exE)
      fix j i assume "i < (2 ^ order + 63) div 64" "j div 64 = pos div 64 + i"
        "bit (reg_mask pos order) (j mod 64)"
      then show "\<not> test_bit j bm"
        using l [rule_format, of i "j mod 64"] mult_div_mod_eq [of 64 j] by simp
    qed
  next
    assume r: ?r
    show ?l
    proof (intro allI impI notI, elim conjE)
      fix i k assume i: "i < (2 ^ order + 63) div 64" and k: "k < 64"
        and b: "test_bit (64 * (pos div 64 + i) + k) bm" "bit (reg_mask pos order) k"
      have "(64 * w + k) div 64 = w" "(64 * w + k) mod 64 = k" for w
        using k by simp_all
      then show False
        using r [rule_format, of "64 * (pos div 64 + i) + k"] i b by (simp only:) blast
    qed
  qed
  finally show ?thesis
    unfolding region_cover [OF assms] by blast
qed

lemma reg_op_alloc:
  assumes "2 ^ order dvd pos"
  shows "test_bit j (fst (reg_op bm pos order REG_OP_ALLOC)) \<longleftrightarrow>
    j \<in> region pos order \<or> test_bit j bm"
  unfolding region_cover [OF assms, symmetric]
  by (auto simp: reg_op_def Let_def fold_words [where f = "\<lambda>w. w OR _"] test_bit_iff bit_simps)

lemma reg_op_release:
  assumes "2 ^ order dvd pos"
  shows "test_bit j (bitmap_release_region bm pos order) \<longleftrightarrow>
    j \<notin> region pos order \<and> test_bit j bm"
  unfolding region_cover [OF assms, symmetric] bitmap_release_region_def
  by (auto simp: reg_op_def Let_def fold_words [where f = "\<lambda>w. w AND NOT _"] test_bit_iff bit_simps)

text \<open>The allocator returns the lowest aligned region all of whose bits are clear and sets them,
  or reports \<open>-ENOMEM\<close> when there is none and leaves the bitmap as it was.\<close>

definition free_at :: "bitmap \<Rightarrow> nat \<Rightarrow> nat \<Rightarrow> nat \<Rightarrow> bool" where
  "free_at bm bits order pos \<longleftrightarrow> 2 ^ order dvd pos \<and> pos + 2 ^ order \<le> bits \<and>
     (\<forall>j \<in> region pos order. \<not> test_bit j bm)"

lemma find_free_from_result:
  assumes "2 ^ order dvd pos"
  shows "(\<exists>p \<ge> pos. free_at bm bits order p \<and> (\<forall>q. pos \<le> q \<longrightarrow> q < p \<longrightarrow> \<not> free_at bm bits order q) \<and>
            find_free_from bm bits order pos = (fst (reg_op bm p order REG_OP_ALLOC), int p)) \<or>
         ((\<forall>q \<ge> pos. \<not> free_at bm bits order q) \<and> find_free_from bm bits order pos = (bm, - ENOMEM))"
  using assms
proof (induction bm bits order pos rule: find_free_from.induct)
  case (1 bm bits order pos)
  note eq = find_free_from.simps [of bm bits order pos]
  consider "\<not> pos + 2 ^ order \<le> bits"
    | "pos + 2 ^ order \<le> bits" "snd (reg_op bm pos order REG_OP_ISFREE)"
    | "pos + 2 ^ order \<le> bits" "\<not> snd (reg_op bm pos order REG_OP_ISFREE)"
    by blast
  then show ?case
  proof cases
    case 1
    then show ?thesis
      by (intro disjI2) (auto simp: eq free_at_def)
  next
    case 2
    then have "free_at bm bits order pos"
      using "1.prems" by (simp add: free_at_def reg_op_free)
    with 2 show ?thesis
      by (intro disjI1 exI [of _ pos]) (auto simp: eq)
  next
    case 3
    have nf: "\<not> free_at bm bits order q" if "pos \<le> q" "q < pos + 2 ^ order" for q
    proof (cases "q = pos")
      case True
      with 3 "1.prems" show ?thesis by (simp add: free_at_def reg_op_free)
    next
      case False
      have "\<not> 2 ^ order dvd q"
      proof
        assume "2 ^ order dvd q"
        with "1.prems" have "2 ^ order dvd q - pos" by simp
        with False that have "2 ^ order \<le> q - pos" by (intro dvd_imp_le) simp_all
        with that show False by linarith
      qed
      then show ?thesis by (simp add: free_at_def)
    qed
    have "2 ^ order dvd pos + 2 ^ order" using "1.prems" by simp
    from "1.IH" [OF 3 this] show ?thesis
    proof
      assume "\<exists>p \<ge> pos + 2 ^ order. free_at bm bits order p \<and>
          (\<forall>q. pos + 2 ^ order \<le> q \<longrightarrow> q < p \<longrightarrow> \<not> free_at bm bits order q) \<and>
          find_free_from bm bits order (pos + 2 ^ order) = (fst (reg_op bm p order REG_OP_ALLOC), int p)"
      then obtain p where p: "pos + 2 ^ order \<le> p" "free_at bm bits order p"
        "\<forall>q. pos + 2 ^ order \<le> q \<longrightarrow> q < p \<longrightarrow> \<not> free_at bm bits order q"
        "find_free_from bm bits order (pos + 2 ^ order) = (fst (reg_op bm p order REG_OP_ALLOC), int p)"
        by blast
      have "\<forall>q. pos \<le> q \<longrightarrow> q < p \<longrightarrow> \<not> free_at bm bits order q"
        using nf p(3) not_le by blast
      with p 3 show ?thesis
        by (intro disjI1 exI [of _ p]) (simp add: eq)
    next
      assume "(\<forall>q \<ge> pos + 2 ^ order. \<not> free_at bm bits order q) \<and>
          find_free_from bm bits order (pos + 2 ^ order) = (bm, - ENOMEM)"
      with nf 3 show ?thesis
        by (intro disjI2) (auto simp: eq not_le [symmetric])
    qed
  qed
qed

lemma bitmap_find_free_region_result:
  "(\<exists>p. free_at bm bits order p \<and> (\<forall>q < p. \<not> free_at bm bits order q) \<and>
       bitmap_find_free_region bm bits order = (fst (reg_op bm p order REG_OP_ALLOC), int p)) \<or>
   ((\<forall>q. \<not> free_at bm bits order q) \<and> bitmap_find_free_region bm bits order = (bm, - ENOMEM))"
  using find_free_from_result [of order 0 bm bits] by (auto simp: bitmap_find_free_region_def)

section \<open>The interface its clients rely on\<close>

locale bit_array =
  fixes get :: "nat \<Rightarrow> 'b \<Rightarrow> bool"
    and put :: "nat \<Rightarrow> 'b \<Rightarrow> 'b"
    and del :: "nat \<Rightarrow> 'b \<Rightarrow> 'b"
    and scan :: "'b \<Rightarrow> nat \<Rightarrow> nat \<Rightarrow> nat"
  assumes get_put: "get j (put i b) \<longleftrightarrow> j = i \<or> get j b"
    and get_del: "get j (del i b) \<longleftrightarrow> j \<noteq> i \<and> get j b"
    and scan_ge: "off < sz \<Longrightarrow> off \<le> scan b sz off"
    and scan_le: "scan b sz off \<le> sz"
    and scan_skips: "off \<le> i \<Longrightarrow> i < scan b sz off \<Longrightarrow> \<not> get i b"
    and scan_hits: "scan b sz off < sz \<Longrightarrow> get (scan b sz off) b"
begin

text \<open>A scan from 0 computes the least occupied index of any family of containers whose
  occupancy the bits record; this is how the priority bitmap indexes the run queues.\<close>

definition tracks :: "'b \<Rightarrow> (nat \<Rightarrow> 'a list) \<Rightarrow> nat \<Rightarrow> bool" where
  "tracks b q n \<longleftrightarrow> (\<forall>i<n. get i b \<longleftrightarrow> q i \<noteq> [])"

lemma tracks_insert:
  assumes "tracks b q n" and "q' i \<noteq> []" and "\<And>j. j \<noteq> i \<Longrightarrow> q' j = q j"
  shows "tracks (put i b) q' n"
  unfolding tracks_def get_put
proof (intro allI impI)
  fix k assume "k < n"
  show "(k = i \<or> get k b) \<longleftrightarrow> q' k \<noteq> []"
  proof (cases "k = i")
    case True
    then show ?thesis using assms(2) by simp
  next
    case False
    then show ?thesis using assms(1) assms(3) [of k] \<open>k < n\<close> by (simp add: tracks_def)
  qed
qed

lemma tracks_remove:
  assumes "tracks b q n" and "\<And>j. j \<noteq> i \<Longrightarrow> q' j = q j" and "q i \<noteq> []"
  shows "tracks (if q' i = [] then del i b else b) q' n"
  unfolding tracks_def
proof (intro allI impI)
  fix k assume k: "k < n"
  show "get k (if q' i = [] then del i b else b) \<longleftrightarrow> q' k \<noteq> []"
  proof (cases "k = i")
    case True
    then show ?thesis using assms(1,3) k by (simp add: get_del tracks_def)
  next
    case False
    then show ?thesis using assms(1) assms(2) [of k] k by (simp add: get_del tracks_def)
  qed
qed

lemma scan_skips_empty:
  assumes "tracks b q n" and "off \<le> i" and "i < scan b n off"
  shows "q i = []"
  using scan_skips [OF assms(2,3)] scan_le [of b n off] assms(1,3) by (auto simp: tracks_def)

lemma scan_finds:
  assumes "tracks b q n" and "scan b n off < n"
  shows "q (scan b n off) \<noteq> []"
  using assms scan_hits by (auto simp: tracks_def)

lemma scan_exhausted:
  assumes "tracks b q n" and "scan b n off = n" and "off \<le> i" and "i < n"
  shows "q i = []"
  using scan_skips_empty [OF assms(1,3)] assms(2,4) by simp

end

lemma find_next_bit_le: "find_next_bit b sz off \<le> sz"
  using find_next_bit_next [of off sz b] find_next_bit_past [of sz off b]
  by (cases "off < sz") (auto simp: is_next_bit_def)

interpretation kb: bit_array test_bit set_bit_na clear_bit_na find_next_bit
proof (unfold_locales, goal_cases)
  case (3 off sz b)
  then show ?case using find_next_bit_next [of off sz b] by (simp add: is_next_bit_def)
next
  case (5 off i b sz)
  then show ?case
    using find_next_bit_next [of off sz b] find_next_bit_past [of sz off b]
    by (cases "off < sz") (auto simp: is_next_bit_def)
next
  case (6 b sz off)
  then show ?case
    using find_next_bit_next [of off sz b] find_next_bit_past [of sz off b]
    by (cases "off < sz") (auto simp: is_next_bit_def)
qed (simp_all add: find_next_bit_le)

section \<open>Properties\<close>

text \<open>C9. \<open>find_next_bit\<close> scanning by words is the position-by-position search: it returns the first
  set position in \<open>[off, sz)\<close>, and \<open>sz\<close> when there is none or when the offset is past the end.\<close>
theorem find_next_bit_spec:
  "find_next_bit b sz off =
     (case filter (\<lambda>i. test_bit i b) [off..<sz] of [] \<Rightarrow> sz | i # _ \<Rightarrow> i)"
proof (cases "off < sz")
  case False
  then show ?thesis by (simp add: find_next_bit_past)
next
  case True
  let ?r = "find_next_bit b sz off"
  have n: "is_next_bit b sz off ?r" by (rule find_next_bit_next [OF True])
  then have split: "[off..<sz] = [off..<?r] @ [?r..<sz]"
    by (metis is_next_bit_def le_add_diff_inverse upt_add_eq_append)
  have pre: "filter (\<lambda>i. test_bit i b) [off..<?r] = []"
    using n by (auto simp: is_next_bit_def filter_empty_conv)
  show ?thesis
  proof (cases "?r < sz")
    case True
    then have "[?r..<sz] = ?r # [Suc ?r..<sz]" by (rule upt_conv_Cons)
    then have "filter (\<lambda>i. test_bit i b) [off..<sz] = ?r # filter (\<lambda>i. test_bit i b) [Suc ?r..<sz]"
      unfolding split filter_append pre using n True by (simp add: is_next_bit_def)
    then show ?thesis by simp
  next
    case False
    then have "?r = sz" using n by (simp add: is_next_bit_def)
    then show ?thesis using pre by simp
  qed
qed

text \<open>The region allocator: on success the region it returns was the lowest aligned free one, is
  set afterwards, and releasing it restores every bit of the bitmap; on failure (\<open>-ENOMEM\<close>) no
  aligned free region of that order exists and the bitmap is unchanged.\<close>
theorem bitmap_region_alloc_release:
  "(case bitmap_find_free_region bm bits order of (bm', r) \<Rightarrow>
     (r = - ENOMEM \<and> bm' = bm \<and> (\<forall>q. \<not> free_at bm bits order q)) \<or>
     (\<exists>p. r = int p \<and> free_at bm bits order p \<and> (\<forall>q<p. \<not> free_at bm bits order q) \<and>
       (\<forall>j. test_bit j bm' \<longleftrightarrow> j \<in> region p order \<or> test_bit j bm) \<and>
       (\<forall>j. test_bit j (bitmap_release_region bm' p order) \<longleftrightarrow> test_bit j bm)))"
proof -
  from bitmap_find_free_region_result [of bm bits order] show ?thesis
  proof (elim disjE exE conjE)
    fix p assume p: "free_at bm bits order p" "\<forall>q<p. \<not> free_at bm bits order q"
      "bitmap_find_free_region bm bits order = (fst (reg_op bm p order REG_OP_ALLOC), int p)"
    have a: "2 ^ order dvd p" using p(1) by (simp add: free_at_def)
    have "test_bit j (bitmap_release_region (fst (reg_op bm p order REG_OP_ALLOC)) p order) \<longleftrightarrow> test_bit j bm"
      for j
      using p(1) by (auto simp: reg_op_release [OF a] reg_op_alloc [OF a] free_at_def)
    with p show ?thesis by (simp add: reg_op_alloc [OF a])
  next
    assume "\<forall>q. \<not> free_at bm bits order q" "bitmap_find_free_region bm bits order = (bm, - ENOMEM)"
    then show ?thesis by simp
  qed
qed

theorem bitmap_region_alloc_release_witness:
  "\<exists>bm' p. bitmap_find_free_region (\<lambda>_. 5) 64 0 = (bm', int p) \<and> free_at (\<lambda>_. 5) 64 0 p \<and>
     (\<forall>j. test_bit j (bitmap_release_region bm' p 0) \<longleftrightarrow> test_bit j (\<lambda>_. 5))"
proof -
  have "\<not> test_bit 1 (\<lambda>_. 5)" by code_simp
  then have f: "free_at (\<lambda>_. 5) 64 0 1" by (simp add: free_at_def region_def)
  obtain bm' r where r: "bitmap_find_free_region (\<lambda>_. 5) 64 0 = (bm', r)" by fastforce
  from bitmap_region_alloc_release [of "\<lambda>_. 5" 64 0] f show ?thesis
    unfolding r prod.case by blast
qed

end
