(* ===== verification/Sched_Types.thy ===== *)
theory Sched_Types
  imports Kbitmap Idle_Inject
begin

text \<open>
  Data of the BFS scheduler (\<open>kernel/sched_bfs.c\<close>, \<open>include/linux/sched.h\<close>): the constants, the
  parts of \<open>struct task_struct\<close> the scheduler reads or writes, \<open>struct rq\<close>,
  \<open>struct global_rq\<close>, and the state that collects them with what the environment supplies
  (the clocks, \<open>jiffies\<close>, interrupt context).  The build modelled is the x86\_64 default
  configuration with BFS: SMP, NUMA, SMT and MC scheduling, hot-plug, schedstats, \<open>HZ = 1000\<close>,
  voluntary preemption, no irq-time and no paravirt accounting.

  A task is a number, a task pointer that may be null an option.  The list of a priority level
  is the list of its tasks in queue order; the list component shows that the linked queues
  implement it.  Locked sections are functions on the state.
\<close>

unbundle bit_operations_syntax

section \<open>Constants\<close>

definition HZ :: int where [simp]: "HZ = 1000"
definition MAX_USER_RT_PRIO :: int where [simp]: "MAX_USER_RT_PRIO = 100"
definition MAX_RT_PRIO :: int where [simp]: "MAX_RT_PRIO = MAX_USER_RT_PRIO + 1"
definition PRIO_RANGE :: int where [simp]: "PRIO_RANGE = 40"
definition MAX_PRIO :: int where [simp]: "MAX_PRIO = MAX_RT_PRIO + PRIO_RANGE"
definition ISO_PRIO :: int where [simp]: "ISO_PRIO = MAX_RT_PRIO"
definition NORMAL_PRIO :: int where [simp]: "NORMAL_PRIO = MAX_RT_PRIO + 1"
definition IDLE_PRIO :: int where [simp]: "IDLE_PRIO = MAX_RT_PRIO + 2"
definition PRIO_LIMIT :: int where [simp]: "PRIO_LIMIT = IDLE_PRIO + 1"
definition STOP_PRIO :: int where [simp]: "STOP_PRIO = MAX_RT_PRIO - 1"

definition SCHED_NORMAL :: int where [simp]: "SCHED_NORMAL = 0"
definition SCHED_FIFO :: int where [simp]: "SCHED_FIFO = 1"
definition SCHED_RR :: int where [simp]: "SCHED_RR = 2"
definition SCHED_BATCH :: int where [simp]: "SCHED_BATCH = 3"
definition SCHED_ISO :: int where [simp]: "SCHED_ISO = 4"
definition SCHED_IDLEPRIO :: int where [simp]: "SCHED_IDLEPRIO = 5"

definition TASK_RUNNING :: int where [simp]: "TASK_RUNNING = 0"
definition TASK_INTERRUPTIBLE :: int where [simp]: "TASK_INTERRUPTIBLE = 1"
definition TASK_UNINTERRUPTIBLE :: int where [simp]: "TASK_UNINTERRUPTIBLE = 2"
definition TASK_DEAD :: int where [simp]: "TASK_DEAD = 64"
definition TASK_WAKEKILL :: int where [simp]: "TASK_WAKEKILL = 128"
definition TASK_NORMAL :: int where [simp]: "TASK_NORMAL = 3"
definition TASK_ALL :: int where [simp]: "TASK_ALL = 15"

definition PF_EXITING :: int where [simp]: "PF_EXITING = 4"
definition PF_VCPU :: int where [simp]: "PF_VCPU = 16"
definition PF_WQ_WORKER :: int where [simp]: "PF_WQ_WORKER = 32"
definition PF_FREEZING :: int where [simp]: "PF_FREEZING = 0x4000"
definition PF_THREAD_BOUND :: int where [simp]: "PF_THREAD_BOUND = 0x04000000"

definition RESCHED_US :: int where [simp]: "RESCHED_US = 100"
definition JIFFY_NS :: int where [simp]: "JIFFY_NS = 1000000000 div HZ"
definition HALF_JIFFY_NS :: int where [simp]: "HALF_JIFFY_NS = 1000000000 div HZ div 2"
definition HALF_JIFFY_US :: int where [simp]: "HALF_JIFFY_US = 1000000 div HZ div 2"

text \<open>\<open>MS_TO_US\<close> is a shift; its argument is an \<open>int\<close>, so is its value.\<close>

definition MS_TO_US :: "int \<Rightarrow> int" where "MS_TO_US t = s32 (t * 1024)"
definition NS_TO_US :: "int \<Rightarrow> int" where "NS_TO_US t = t div 1024"
definition NS_TO_MS :: "int \<Rightarrow> int" where "NS_TO_MS t = t div 1048576"
definition NICE_TO_PRIO :: "int \<Rightarrow> int" where "NICE_TO_PRIO nice = MAX_RT_PRIO + nice + 20"
definition PRIO_TO_NICE :: "int \<Rightarrow> int" where "PRIO_TO_NICE p = p - MAX_RT_PRIO - 20"
definition USER_PRIO :: "int \<Rightarrow> int" where "USER_PRIO p = p - MAX_RT_PRIO"

section \<open>Tasks\<close>

record sched_info =
  pcount :: int
  run_delay :: int
  last_arrival :: int
  last_queued :: int

record task_struct =
  pid :: int
  tgid :: int
  state :: int
  flags :: int
  on_cpu :: bool
  prio :: int
  static_prio :: int
  normal_prio :: int
  rt_priority :: int
  policy :: int
  deadline :: int
  time_slice :: int
  last_ran :: int
  sticky :: bool
  cpus_allowed :: cpumask
  task_cpu :: cpu
  tif_need_resched :: bool
  tif_polling :: bool
  tif_sigpending :: bool
  tif_freeze :: bool
  fatal_pending :: bool
  sched_reset_on_fork :: bool
  nvcsw :: int
  nivcsw :: int
  sched_time :: int
  utime :: int
  stime :: int
  utimescaled :: int
  stimescaled :: int
  gtime :: int
  utime_pc :: int
  stime_pc :: int
  tsched_info :: sched_info
  parent :: tid
  mm :: "nat option"
  active_mm :: "nat option"
  usage :: int
  plugged :: bool
  in_iowait :: bool

section \<open>Run queues\<close>

record rq =
  curr :: tid
  idle :: tid
  rq_deadline :: int
  rq_policy :: int
  rq_time_slice :: int
  rq_last_ran :: int
  rq_prio :: int
  rq_running :: bool
  prev_mm :: "nat option"
  timekeep_clock :: int
  user_pc :: int
  nice_pc :: int
  irq_pc :: int
  softirq_pc :: int
  system_pc :: int
  iowait_pc :: int
  idle_pc :: int
  account_pc :: int
  rq_nr_iowait :: int
  scaling :: bool
  sticky_task :: "tid option"
  cpu_locality :: "cpu \<Rightarrow> int"
  siblings_idle :: "bool"
  smt_siblings :: cpumask
  cache_idle :: "bool"
  cache_siblings :: cpumask
  last_niffy :: int
  rq_clock :: int
  old_clock :: int
  last_tick :: int
  clock_task :: int
  dither :: bool
  rq_sched_info :: sched_info
  rq_cpu_time :: int
  yld_count :: int
  sched_switch :: int
  sched_count :: int
  sched_goidle :: int
  ttwu_count :: int
  ttwu_local :: int
  rq_stop :: "tid option"
  rq_rd :: "nat option"
  rq_online :: bool

record global_rq =
  nr_running :: int
  nr_uninterruptible :: int
  nr_switches :: int
  queue :: "nat \<Rightarrow> tid list"
  prio_bitmap :: bitmap
  qnr :: int
  cpu_idle_map :: cpumask
  idle_cpus :: bool
  noc :: int
  niffies :: int
  last_jiffy :: int
  iso_ticks :: int
  iso_refractory :: bool

record cpu_usage_stat =
  cu_user :: int
  cu_nice :: int
  cu_system :: int
  cu_softirq :: int
  cu_irq :: int
  cu_idle :: int
  cu_iowait :: int
  cu_steal :: int
  cu_guest :: int
  cu_guest_nice :: int

text \<open>Interrupt context of a processor, supplied by the environment: the value of
  \<open>sched_clock_cpu\<close>, whether the tick hit user mode, the interrupt counts, the softirq daemon.\<close>

record cpu_env =
  sched_clock :: int
  user_mode :: bool
  irq_count :: int
  hardirq_count :: int
  in_softirq :: bool
  ksoftirqd :: "tid option"

text \<open>Each processor has its own scheduling domains, from the smallest to the largest.\<close>

record sched_domain =
  sd_level :: int
  sd_span :: cpumask
  sd_flags :: int
  ttwu_wake_remote :: int

text \<open>A root domain collects the run queues of an exclusive set of processors.\<close>

record root_domain =
  rd_span :: cpumask
  rd_online :: cpumask
  rd_refcount :: int

section \<open>The whole state\<close>

text \<open>\<open>wq_worker_sleeping\<close> is the answer of the workqueue code (which worker to wake when one blocks),
  \<open>wq_worker_waking_up\<close> and \<open>ipis\<close> record the notifications and interrupts sent.  \<open>setup_env\<close> holds the
  answers of the allocator and of the creation of the three proc entries to the set-up of the injection.\<close>

record kstate =
  tasks :: "tid \<Rightarrow> task_struct"
  rqs :: "cpu \<Rightarrow> rq"
  grq :: global_rq
  kstat :: "cpu \<Rightarrow> cpu_usage_stat"
  param :: sched_parameters
  rr_interval :: int
  sched_iso_cpu :: int
  prio_ratios :: "nat \<Rightarrow> int"
  cpu_online_map :: cpumask
  sds :: "cpu \<Rightarrow> sched_domain list"
  jiffies :: int
  avenrun :: "nat \<Rightarrow> int"
  calc_load_update :: int
  env :: "cpu \<Rightarrow> cpu_env"
  mm_count :: "nat \<Rightarrow> int"
  ipis :: "cpu list"
  wq_worker_sleeping :: "tid \<Rightarrow> cpu \<Rightarrow> tid option"
  wq_worker_waking_up :: "(tid \<times> cpu) list"
  setup_env :: "nat option \<times> bool \<times> bool \<times> bool"
  cpu_active_map :: cpumask
  cpu_possible_map :: cpumask
  rds :: "nat \<Rightarrow> root_domain"

definition upd_task :: "tid \<Rightarrow> (task_struct \<Rightarrow> task_struct) \<Rightarrow> kstate \<Rightarrow> kstate" where
  "upd_task p f st = st\<lparr>tasks := (tasks st)(p := f (tasks st p))\<rparr>"

definition upd_rq :: "cpu \<Rightarrow> (rq \<Rightarrow> rq) \<Rightarrow> kstate \<Rightarrow> kstate" where
  "upd_rq c f st = st\<lparr>rqs := (rqs st)(c := f (rqs st c))\<rparr>"

definition upd_grq :: "(global_rq \<Rightarrow> global_rq) \<Rightarrow> kstate \<Rightarrow> kstate" where
  "upd_grq f st = st\<lparr>grq := f (grq st)\<rparr>"

definition upd_kstat :: "cpu \<Rightarrow> (cpu_usage_stat \<Rightarrow> cpu_usage_stat) \<Rightarrow> kstate \<Rightarrow> kstate" where
  "upd_kstat c f st = st\<lparr>kstat := (kstat st)(c := f (kstat st c))\<rparr>"

lemma upd_task_simps [simp]:
  "tasks (upd_task p f st) = (tasks st)(p := f (tasks st p))"
  "rqs (upd_task p f st) = rqs st" "grq (upd_task p f st) = grq st"
  "kstat (upd_task p f st) = kstat st" "param (upd_task p f st) = param st"
  "rr_interval (upd_task p f st) = rr_interval st" "sched_iso_cpu (upd_task p f st) = sched_iso_cpu st"
  "prio_ratios (upd_task p f st) = prio_ratios st" "cpu_online_map (upd_task p f st) = cpu_online_map st"
  "jiffies (upd_task p f st) = jiffies st" "env (upd_task p f st) = env st"
  "mm_count (upd_task p f st) = mm_count st" "ipis (upd_task p f st) = ipis st"
  "sds (upd_task p f st) = sds st"
  "wq_worker_sleeping (upd_task p f st) = wq_worker_sleeping st" "wq_worker_waking_up (upd_task p f st) = wq_worker_waking_up st"
  "setup_env (upd_task p f st) = setup_env st" "cpu_active_map (upd_task p f st) = cpu_active_map st"
  "cpu_possible_map (upd_task p f st) = cpu_possible_map st" "rds (upd_task p f st) = rds st"
  by (simp_all add: upd_task_def)

lemma upd_rq_simps [simp]:
  "rqs (upd_rq c f st) = (rqs st)(c := f (rqs st c))"
  "tasks (upd_rq c f st) = tasks st" "grq (upd_rq c f st) = grq st"
  "kstat (upd_rq c f st) = kstat st" "param (upd_rq c f st) = param st"
  "rr_interval (upd_rq c f st) = rr_interval st" "sched_iso_cpu (upd_rq c f st) = sched_iso_cpu st"
  "prio_ratios (upd_rq c f st) = prio_ratios st" "cpu_online_map (upd_rq c f st) = cpu_online_map st"
  "jiffies (upd_rq c f st) = jiffies st" "env (upd_rq c f st) = env st"
  "mm_count (upd_rq c f st) = mm_count st" "ipis (upd_rq c f st) = ipis st"
  "sds (upd_rq c f st) = sds st"
  "wq_worker_sleeping (upd_rq c f st) = wq_worker_sleeping st" "wq_worker_waking_up (upd_rq c f st) = wq_worker_waking_up st"
  "setup_env (upd_rq c f st) = setup_env st" "cpu_active_map (upd_rq c f st) = cpu_active_map st"
  "cpu_possible_map (upd_rq c f st) = cpu_possible_map st" "rds (upd_rq c f st) = rds st"
  by (simp_all add: upd_rq_def)

lemma upd_grq_simps [simp]:
  "grq (upd_grq g st) = g (grq st)"
  "tasks (upd_grq g st) = tasks st" "rqs (upd_grq g st) = rqs st"
  "kstat (upd_grq g st) = kstat st" "param (upd_grq g st) = param st"
  "rr_interval (upd_grq g st) = rr_interval st" "sched_iso_cpu (upd_grq g st) = sched_iso_cpu st"
  "prio_ratios (upd_grq g st) = prio_ratios st" "cpu_online_map (upd_grq g st) = cpu_online_map st"
  "jiffies (upd_grq g st) = jiffies st" "env (upd_grq g st) = env st"
  "mm_count (upd_grq g st) = mm_count st" "ipis (upd_grq g st) = ipis st"
  "sds (upd_grq g st) = sds st"
  "wq_worker_sleeping (upd_grq g st) = wq_worker_sleeping st" "wq_worker_waking_up (upd_grq g st) = wq_worker_waking_up st"
  "setup_env (upd_grq g st) = setup_env st" "cpu_active_map (upd_grq g st) = cpu_active_map st"
  "cpu_possible_map (upd_grq g st) = cpu_possible_map st" "rds (upd_grq g st) = rds st"
  by (simp_all add: upd_grq_def)

lemma upd_kstat_simps [simp]:
  "kstat (upd_kstat c f st) = (kstat st)(c := f (kstat st c))"
  "tasks (upd_kstat c f st) = tasks st" "rqs (upd_kstat c f st) = rqs st" "grq (upd_kstat c f st) = grq st"
  "param (upd_kstat c f st) = param st"
  "rr_interval (upd_kstat c f st) = rr_interval st" "sched_iso_cpu (upd_kstat c f st) = sched_iso_cpu st"
  "prio_ratios (upd_kstat c f st) = prio_ratios st" "cpu_online_map (upd_kstat c f st) = cpu_online_map st"
  "jiffies (upd_kstat c f st) = jiffies st" "env (upd_kstat c f st) = env st"
  "mm_count (upd_kstat c f st) = mm_count st" "ipis (upd_kstat c f st) = ipis st"
  "sds (upd_kstat c f st) = sds st"
  "wq_worker_sleeping (upd_kstat c f st) = wq_worker_sleeping st" "wq_worker_waking_up (upd_kstat c f st) = wq_worker_waking_up st"
  "setup_env (upd_kstat c f st) = setup_env st" "cpu_active_map (upd_kstat c f st) = cpu_active_map st"
  "cpu_possible_map (upd_kstat c f st) = cpu_possible_map st" "rds (upd_kstat c f st) = rds st"
  by (simp_all add: upd_kstat_def)

section \<open>Predicates on tasks\<close>

definition rt_prio :: "int \<Rightarrow> bool" where
  "rt_prio p \<longleftrightarrow> p < MAX_RT_PRIO"

definition rt_task :: "task_struct \<Rightarrow> bool" where
  "rt_task p \<longleftrightarrow> rt_prio (prio p)"

definition rt_queue :: "rq \<Rightarrow> bool" where
  "rt_queue r \<longleftrightarrow> rt_prio (rq_prio r)"

definition batch_task :: "task_struct \<Rightarrow> bool" where
  "batch_task p \<longleftrightarrow> policy p = SCHED_BATCH"

definition is_rt_policy :: "int \<Rightarrow> bool" where
  "is_rt_policy pol \<longleftrightarrow> pol = SCHED_FIFO \<or> pol = SCHED_RR"

definition has_rt_policy :: "task_struct \<Rightarrow> bool" where
  "has_rt_policy p \<longleftrightarrow> is_rt_policy (policy p)"

definition idleprio_task :: "task_struct \<Rightarrow> bool" where
  "idleprio_task p \<longleftrightarrow> policy p = SCHED_IDLEPRIO"

definition iso_task :: "task_struct \<Rightarrow> bool" where
  "iso_task p \<longleftrightarrow> policy p = SCHED_ISO"

definition iso_queue :: "rq \<Rightarrow> bool" where
  "iso_queue r \<longleftrightarrow> rq_policy r = SCHED_ISO"

definition task_contributes_to_load :: "task_struct \<Rightarrow> bool" where
  "task_contributes_to_load p \<longleftrightarrow>
     state p AND TASK_UNINTERRUPTIBLE \<noteq> 0 \<and> flags p AND PF_FREEZING = 0"

definition task_nice :: "task_struct \<Rightarrow> int" where
  "task_nice p = PRIO_TO_NICE (static_prio p)"

definition task_user_prio :: "task_struct \<Rightarrow> int" where
  "task_user_prio p = USER_PRIO (static_prio p)"

definition deadline_before :: "int \<Rightarrow> int \<Rightarrow> bool" where
  "deadline_before d t \<longleftrightarrow> d < t"

definition deadline_after :: "int \<Rightarrow> int \<Rightarrow> bool" where
  "deadline_after d t \<longleftrightarrow> d > t"

text \<open>A sleeping task with a pending signal its sleep mode admits does not sleep.\<close>

definition signal_pending_state :: "int \<Rightarrow> task_struct \<Rightarrow> bool" where
  "signal_pending_state s p \<longleftrightarrow>
     s AND (TASK_INTERRUPTIBLE + TASK_WAKEKILL) \<noteq> 0 \<and> tif_sigpending p \<and>
     (s AND TASK_INTERRUPTIBLE \<noteq> 0 \<or> fatal_pending p)"

section \<open>The core of a state\<close>

text \<open>What decides which task runs where: the scheduling parameters and place of each task, the current
  and idle task of each processor, the queues with their counters, the maps and the injection
  parameters.  Clocks, accounting and statistics are not part of it; most operations leave it alone.\<close>

definition task_core :: "task_struct \<Rightarrow> int \<times> bool \<times> int \<times> int \<times> int \<times> int \<times> int \<times> cpu \<times> cpumask" where
  "task_core t = (state t, on_cpu t, prio t, static_prio t, normal_prio t, rt_priority t, policy t, task_cpu t,
     cpus_allowed t)"

definition grq_core :: "global_rq \<Rightarrow> (nat \<Rightarrow> tid list) \<times> bitmap \<times> int \<times> int \<times> cpumask \<times> bool" where
  "grq_core g = (queue g, prio_bitmap g, qnr g, nr_running g, cpu_idle_map g, idle_cpus g)"

definition core :: "kstate \<Rightarrow> (tid \<Rightarrow> int \<times> bool \<times> int \<times> int \<times> int \<times> int \<times> int \<times> cpu \<times> cpumask) \<times>
    (cpu \<Rightarrow> tid \<times> tid) \<times> ((nat \<Rightarrow> tid list) \<times> bitmap \<times> int \<times> int \<times> cpumask \<times> bool) \<times> cpumask \<times> sched_parameters" where
  "core st = (\<lambda>p. task_core (tasks st p), \<lambda>c. (curr (rqs st c), idle (rqs st c)), grq_core (grq st),
     cpu_online_map st, param st)"

lemma coreD:
  assumes "core st' = core st"
  shows "state (tasks st' p) = state (tasks st p)" "on_cpu (tasks st' p) = on_cpu (tasks st p)"
    "prio (tasks st' p) = prio (tasks st p)" "static_prio (tasks st' p) = static_prio (tasks st p)"
    "normal_prio (tasks st' p) = normal_prio (tasks st p)" "rt_priority (tasks st' p) = rt_priority (tasks st p)"
    "policy (tasks st' p) = policy (tasks st p)" "task_cpu (tasks st' p) = task_cpu (tasks st p)"
    "cpus_allowed (tasks st' p) = cpus_allowed (tasks st p)"
    "curr (rqs st' c) = curr (rqs st c)" "idle (rqs st' c) = idle (rqs st c)"
    "queue (grq st') = queue (grq st)" "prio_bitmap (grq st') = prio_bitmap (grq st)"
    "qnr (grq st') = qnr (grq st)" "nr_running (grq st') = nr_running (grq st)"
    "cpu_idle_map (grq st') = cpu_idle_map (grq st)" "idle_cpus (grq st') = idle_cpus (grq st)"
    "cpu_online_map st' = cpu_online_map st" "param st' = param st"
proof -
  have "task_core (tasks st' p) = task_core (tasks st p)" for p using assms by (auto simp: core_def fun_eq_iff)
  then show "state (tasks st' p) = state (tasks st p)" "on_cpu (tasks st' p) = on_cpu (tasks st p)"
    "prio (tasks st' p) = prio (tasks st p)" "static_prio (tasks st' p) = static_prio (tasks st p)"
    "normal_prio (tasks st' p) = normal_prio (tasks st p)" "rt_priority (tasks st' p) = rt_priority (tasks st p)"
    "policy (tasks st' p) = policy (tasks st p)" "task_cpu (tasks st' p) = task_cpu (tasks st p)"
    "cpus_allowed (tasks st' p) = cpus_allowed (tasks st p)"
    by (auto simp: task_core_def)
qed (use assms in \<open>auto simp: core_def grq_core_def fun_eq_iff\<close>)

lemma coreI:
  assumes "\<And>p. task_core (tasks st' p) = task_core (tasks st p)"
    and "\<And>c. curr (rqs st' c) = curr (rqs st c) \<and> idle (rqs st' c) = idle (rqs st c)"
    and "grq_core (grq st') = grq_core (grq st)" and "cpu_online_map st' = cpu_online_map st" and "param st' = param st"
  shows "core st' = core st"
  using assms by (simp add: core_def fun_eq_iff)

lemma core_upd_task: "(\<And>t. task_core (f t) = task_core t) \<Longrightarrow> core (upd_task p f st) = core st"
  by (rule coreI) auto

lemma core_upd_rq: "(\<And>r. curr (f r) = curr r \<and> idle (f r) = idle r) \<Longrightarrow> core (upd_rq c f st) = core st"
  by (rule coreI) auto

lemma core_upd_grq: "(\<And>g. grq_core (f g) = grq_core g) \<Longrightarrow> core (upd_grq f st) = core st"
  by (rule coreI) auto

lemma core_upd_kstat [simp]: "core (upd_kstat c f st) = core st"
  by (rule coreI) auto

lemmas core_upds = core_upd_task core_upd_rq core_upd_grq task_core_def grq_core_def

section \<open>Static data at boot\<close>

definition zero_sched_info :: sched_info where
  "zero_sched_info = \<lparr>pcount = 0, run_delay = 0, last_arrival = 0, last_queued = 0\<rparr>"

definition zero_task :: task_struct where
  "zero_task = \<lparr>pid = 0, tgid = 0, state = 0, flags = 0, on_cpu = False, prio = 0, static_prio = 0,
     normal_prio = 0, rt_priority = 0, policy = 0, deadline = 0, time_slice = 0, last_ran = 0,
     sticky = False, cpus_allowed = {}, task_cpu = 0, tif_need_resched = False, tif_polling = False,
     tif_sigpending = False, tif_freeze = False, fatal_pending = False, sched_reset_on_fork = False,
     nvcsw = 0, nivcsw = 0, sched_time = 0, utime = 0, stime = 0, utimescaled = 0, stimescaled = 0, gtime = 0, utime_pc = 0, stime_pc = 0,
     tsched_info = zero_sched_info, parent = 0, mm = None, active_mm = None, usage = 0, plugged = False, in_iowait = False\<rparr>"

definition zero_rq :: rq where
  "zero_rq = \<lparr>curr = 0, idle = 0, rq_deadline = 0, rq_policy = 0, rq_time_slice = 0, rq_last_ran = 0,
     rq_prio = 0, rq_running = False, prev_mm = None, timekeep_clock = 0, user_pc = 0, nice_pc = 0,
     irq_pc = 0, softirq_pc = 0, system_pc = 0, iowait_pc = 0, idle_pc = 0, account_pc = 0,
     rq_nr_iowait = 0, scaling = False, sticky_task = None, cpu_locality = (\<lambda>_. 0),
     siblings_idle = False, smt_siblings = {}, cache_idle = False, cache_siblings = {},
     last_niffy = 0, rq_clock = 0, old_clock = 0, last_tick = 0, clock_task = 0, dither = False,
     rq_sched_info = zero_sched_info, rq_cpu_time = 0, yld_count = 0, sched_switch = 0,
     sched_count = 0, sched_goidle = 0, ttwu_count = 0, ttwu_local = 0,
     rq_stop = None, rq_rd = None, rq_online = False\<rparr>"

definition zero_grq :: global_rq where
  "zero_grq = \<lparr>nr_running = 0, nr_uninterruptible = 0, nr_switches = 0, queue = (\<lambda>_. []),
     prio_bitmap = (\<lambda>_. 0), qnr = 0, cpu_idle_map = {}, idle_cpus = False, noc = 0, niffies = 0,
     last_jiffy = 0, iso_ticks = 0, iso_refractory = False\<rparr>"

text \<open>The initialised variables are \<open>rr_interval\<close>, \<open>sched_iso_cpu\<close> and those of the injection.\<close>

definition zero_kstate :: kstate where
  "zero_kstate = \<lparr>tasks = (\<lambda>_. zero_task), rqs = (\<lambda>_. zero_rq), grq = zero_grq,
     kstat = (\<lambda>_. \<lparr>cu_user = 0, cu_nice = 0, cu_system = 0, cu_softirq = 0, cu_irq = 0, cu_idle = 0, cu_iowait = 0,
       cu_steal = 0, cu_guest = 0, cu_guest_nice = 0\<rparr>),
     param = param_init, rr_interval = 6, sched_iso_cpu = 70, prio_ratios = (\<lambda>_. 0),
     cpu_online_map = {}, sds = (\<lambda>_. []), jiffies = 0,
     avenrun = (\<lambda>_. 0), calc_load_update = 0,
     env = (\<lambda>_. \<lparr>sched_clock = 0, user_mode = False, irq_count = 0, hardirq_count = 0, in_softirq = False,
        ksoftirqd = None\<rparr>),
     mm_count = (\<lambda>_. 0), ipis = [], wq_worker_sleeping = (\<lambda>_ _. None), wq_worker_waking_up = [],
     setup_env = (Some 1, True, True, True), cpu_active_map = {}, cpu_possible_map = {},
     rds = (\<lambda>_. \<lparr>rd_span = {}, rd_online = {}, rd_refcount = 0\<rparr>)\<rparr>"

end
