(* ===== verification/Sched_Clock.thy ===== *)
theory Sched_Clock
  imports Sched_Types
begin

text \<open>
  Scheduler time (\<open>kernel/sched_bfs.c\<close>, lines 592 to 706): the sanity check \<open>niffy_diff\<close>, the per
  run-queue clock and the global nanosecond counter \<open>niffies\<close>.  The check is shown to keep every
  advance within the bounds that \<open>jiffies\<close> gives for gaps up to 2147 ticks, so that \<open>niffies\<close>
  is monotone; beyond, its 32-bit product overflows.
\<close>

definition JIFFIES_TO_NS :: "int \<Rightarrow> int" where
  "JIFFIES_TO_NS t = s32 (t * (1000000000 div HZ))"

text \<open>The bounds are \<open>unsigned long\<close>, so the signed difference is compared as unsigned.\<close>

definition niffy_min :: "int \<Rightarrow> int" where
  "niffy_min jiff_diff = (if 1 < jiff_diff then u64 (JIFFIES_TO_NS (jiff_diff - 1)) else 1)"

definition niffy_max :: "int \<Rightarrow> int" where
  "niffy_max jiff_diff = u64 (JIFFIES_TO_NS (s32 (jiff_diff + 1)))"

definition niffy_diff :: "int \<Rightarrow> int \<Rightarrow> int" where
  "niffy_diff niff_diff jiff_diff =
     (if u64 niff_diff < niffy_min jiff_diff \<or> niffy_max jiff_diff < u64 niff_diff
      then s64 (niffy_min jiff_diff) else niff_diff)"

definition update_rq_clock_task :: "cpu \<Rightarrow> int \<Rightarrow> kstate \<Rightarrow> kstate" where
  "update_rq_clock_task c delta = upd_rq c (\<lambda>r. r\<lparr>clock_task := u64 (clock_task r + delta)\<rparr>)"

definition update_rq_clock :: "cpu \<Rightarrow> kstate \<Rightarrow> kstate" where
  "update_rq_clock c st =
     (let delta = s64 (sched_clock (env st c) - rq_clock (rqs st c));
          st = upd_rq c (\<lambda>r. r\<lparr>rq_clock := u64 (rq_clock r + delta)\<rparr>) st
      in update_rq_clock_task c delta st)"

definition update_clocks :: "cpu \<Rightarrow> kstate \<Rightarrow> kstate" where
  "update_clocks c st =
     (let st = update_rq_clock c st;
          ndiff = s64 (rq_clock (rqs st c) - old_clock (rqs st c));
          st = upd_rq c (\<lambda>r. r\<lparr>old_clock := rq_clock r\<rparr>) st;
          ndiff = s64 (ndiff - (niffies (grq st) - last_niffy (rqs st c)));
          jdiff = s64 (jiffies st - last_jiffy (grq st));
          ndiff = niffy_diff ndiff (s32 jdiff);
          st = upd_grq (\<lambda>g. g\<lparr>last_jiffy := u64 (last_jiffy g + jdiff), niffies := u64 (niffies g + ndiff)\<rparr>) st
      in upd_rq c (\<lambda>r. r\<lparr>last_niffy := niffies (grq st)\<rparr>) st)"

section \<open>Frame\<close>

lemma update_rq_clock_frame [frame, simp]:
  "tasks (update_rq_clock c st) = tasks st" "grq (update_rq_clock c st) = grq st"
  "param (update_rq_clock c st) = param st" "cpu_online_map (update_rq_clock c st) = cpu_online_map st"
  "jiffies (update_rq_clock c st) = jiffies st" "env (update_rq_clock c st) = env st"
  "rr_interval (update_rq_clock c st) = rr_interval st"
  "prio_ratios (update_rq_clock c st) = prio_ratios st"
  "sched_iso_cpu (update_rq_clock c st) = sched_iso_cpu st"
  "kstat (update_rq_clock c st) = kstat st" "ipis (update_rq_clock c st) = ipis st"
  "mm_count (update_rq_clock c st) = mm_count st" "sds (update_rq_clock c st) = sds st"
  by (simp_all add: update_rq_clock_def update_rq_clock_task_def Let_def)

text \<open>The fields of a run queue that the clocks never touch.\<close>

definition rq_core :: "rq \<Rightarrow> tid \<times> tid \<times> int \<times> int \<times> int \<times> bool \<times> tid option" where
  "rq_core r = (curr r, idle r, rq_deadline r, rq_policy r, rq_prio r, rq_running r, sticky_task r)"

lemma rq_core_eqD:
  "rq_core r = rq_core r' \<Longrightarrow> curr r = curr r' \<and> idle r = idle r' \<and> rq_deadline r = rq_deadline r' \<and>
     rq_policy r = rq_policy r' \<and> rq_prio r = rq_prio r' \<and> rq_running r = rq_running r' \<and>
     sticky_task r = sticky_task r'"
  by (simp add: rq_core_def)

lemma update_rq_clock_rqs:
  "rqs (update_rq_clock c st) = (rqs st)(c := (rqs st c)\<lparr>
     rq_clock := u64 (rq_clock (rqs st c) + s64 (sched_clock (env st c) - rq_clock (rqs st c))),
     clock_task := u64 (clock_task (rqs st c) + s64 (sched_clock (env st c) - rq_clock (rqs st c)))\<rparr>)"
  by (simp add: update_rq_clock_def update_rq_clock_task_def Let_def)

lemma update_clocks_frame [frame, simp]:
  "tasks (update_clocks c st) = tasks st"
  "param (update_clocks c st) = param st" "cpu_online_map (update_clocks c st) = cpu_online_map st"
  "jiffies (update_clocks c st) = jiffies st" "env (update_clocks c st) = env st"
  "rr_interval (update_clocks c st) = rr_interval st"
  "prio_ratios (update_clocks c st) = prio_ratios st"
  "sched_iso_cpu (update_clocks c st) = sched_iso_cpu st"
  "kstat (update_clocks c st) = kstat st" "ipis (update_clocks c st) = ipis st"
  "mm_count (update_clocks c st) = mm_count st" "sds (update_clocks c st) = sds st"
  by (simp_all add: update_clocks_def Let_def)

lemma update_clocks_grq [frame, simp]:
  "queue (grq (update_clocks c st)) = queue (grq st)"
  "prio_bitmap (grq (update_clocks c st)) = prio_bitmap (grq st)"
  "qnr (grq (update_clocks c st)) = qnr (grq st)"
  "nr_running (grq (update_clocks c st)) = nr_running (grq st)"
  "nr_uninterruptible (grq (update_clocks c st)) = nr_uninterruptible (grq st)"
  "nr_switches (grq (update_clocks c st)) = nr_switches (grq st)"
  "cpu_idle_map (grq (update_clocks c st)) = cpu_idle_map (grq st)"
  "idle_cpus (grq (update_clocks c st)) = idle_cpus (grq st)"
  "noc (grq (update_clocks c st)) = noc (grq st)"
  "iso_ticks (grq (update_clocks c st)) = iso_ticks (grq st)"
  "iso_refractory (grq (update_clocks c st)) = iso_refractory (grq st)"
  by (simp_all add: update_clocks_def Let_def)

lemma update_rq_clock_core [frame, simp]: "rq_core (rqs (update_rq_clock c st) d) = rq_core (rqs st d)"
  by (simp add: update_rq_clock_rqs rq_core_def)

lemma update_clocks_core [frame, simp]: "rq_core (rqs (update_clocks c st) d) = rq_core (rqs st d)"
  using update_rq_clock_core [of c st d] by (auto simp: update_clocks_def Let_def rq_core_def)

lemma update_clocks_curr [frame, simp]:
  "curr (rqs (update_clocks c st) d) = curr (rqs st d)"
  "idle (rqs (update_clocks c st) d) = idle (rqs st d)"
  "rq_deadline (rqs (update_clocks c st) d) = rq_deadline (rqs st d)"
  "rq_policy (rqs (update_clocks c st) d) = rq_policy (rqs st d)"
  "rq_prio (rqs (update_clocks c st) d) = rq_prio (rqs st d)"
  "rq_running (rqs (update_clocks c st) d) = rq_running (rqs st d)"
  "sticky_task (rqs (update_clocks c st) d) = sticky_task (rqs st d)"
  using rq_core_eqD [OF update_clocks_core [of c st d]] by auto

lemma core_update_rq_clock [simp]: "core (update_rq_clock c st) = core st"
  by (simp add: update_rq_clock_def update_rq_clock_task_def Let_def core_upds)

lemma core_update_clocks [simp]: "core (update_clocks c st) = core st"
  by (simp add: update_clocks_def Let_def core_upds)

section \<open>Monotone time\<close>

lemma jiffies_to_ns_small:
  assumes "0 \<le> j" and "j \<le> 2147"
  shows "JIFFIES_TO_NS j = j * 1000000"
  using assms by (simp add: JIFFIES_TO_NS_def s32_id in_s32_def)

lemma niffy_bounds:
  assumes "0 \<le> j" and "j \<le> 2146"
  shows "niffy_min j = (if 1 < j then (j - 1) * 1000000 else 1)"
    and "niffy_max j = (j + 1) * 1000000"
proof -
  have "s32 (j + 1) = j + 1" using assms by (simp add: s32_id in_s32_def)
  then show "niffy_max j = (j + 1) * 1000000"
    using assms by (simp add: niffy_max_def jiffies_to_ns_small u64_id in_u64_def)
  show "niffy_min j = (if 1 < j then (j - 1) * 1000000 else 1)"
    using assms by (simp add: niffy_min_def jiffies_to_ns_small u64_id in_u64_def)
qed

lemma niffy_diff_bounds:
  assumes "0 \<le> j" and "j \<le> 2146" and "in_s64 d"
  shows "niffy_min j \<le> niffy_diff d j" and "niffy_diff d j \<le> niffy_max j" and "1 \<le> niffy_diff d j"
    and "niffy_min j \<le> d \<and> d \<le> niffy_max j \<Longrightarrow> niffy_diff d j = d"
proof -
  note b = niffy_bounds [OF assms(1,2)]
  have m: "1 \<le> niffy_min j" "niffy_min j \<le> niffy_max j" "niffy_max j < 9223372036854775808"
    using assms(1,2) by (auto simp: b)
  have sm: "s64 (niffy_min j) = niffy_min j" using m by (intro s64_id) (simp add: in_s64_def)
  have neg: "niffy_max j < u64 d" if "d < 0"
  proof -
    have "u64 d = d + 18446744073709551616"
      using that assms(3) by (intro u64_neg) (simp_all add: in_s64_def)
    with assms(3) m show ?thesis by (simp add: in_s64_def)
  qed
  have pos: "u64 d = d" if "0 \<le> d" using that assms(3) by (intro u64_id) (simp add: in_u64_def in_s64_def)
  have cases: "niffy_diff d j = (if niffy_min j \<le> d \<and> d \<le> niffy_max j then d else niffy_min j)"
    using neg pos m sm by (cases "d < 0") (auto simp: niffy_diff_def)
  show "niffy_min j \<le> niffy_diff d j" "niffy_diff d j \<le> niffy_max j" "1 \<le> niffy_diff d j"
    "niffy_min j \<le> d \<and> d \<le> niffy_max j \<Longrightarrow> niffy_diff d j = d"
    using m by (auto simp: cases)
qed

lemma update_clocks_niffies:
  "\<exists>d. in_s64 d \<and> niffies (grq (update_clocks c st)) =
     u64 (niffies (grq st) + niffy_diff d (s32 (s64 (jiffies st - last_jiffy (grq st)))))"
  by (auto simp: update_clocks_def Let_def intro!: exI s64_range)

lemma update_clocks_jiffy:
  assumes "in_u64 (jiffies st)"
  shows "last_jiffy (grq (update_clocks c st)) = jiffies st"
  using assms by (simp add: update_clocks_def Let_def u64_add_s64 u64_id)

text \<open>C14. Time is monotone and tracks \<open>jiffies\<close>: when at most 2146 ticks have passed since the last
  update, an update by any processor, whatever its own clock reads, advances \<open>niffies\<close> by at least 1
  nanosecond, by at least the whole ticks but one and by at most one tick more than have passed, and
  it brings \<open>last_jiffy\<close> to \<open>jiffies\<close>.\<close>
theorem update_clocks_monotone:
  assumes "in_u64 (jiffies st)" and "in_u64 (last_jiffy (grq st))"
    and "jiffies st - last_jiffy (grq st) = j" and "0 \<le> j" and "j \<le> 2146"
    and "0 \<le> niffies (grq st)" and "niffies (grq st) + (j + 1) * 1000000 < 18446744073709551616"
  shows "niffies (grq st) + max 1 ((j - 1) * 1000000) \<le> niffies (grq (update_clocks c st)) \<and>
    niffies (grq (update_clocks c st)) \<le> niffies (grq st) + (j + 1) * 1000000 \<and>
    last_jiffy (grq (update_clocks c st)) = jiffies st"
proof -
  obtain d where d: "in_s64 d" "niffies (grq (update_clocks c st)) = u64 (niffies (grq st) +
      niffy_diff d (s32 (s64 (jiffies st - last_jiffy (grq st)))))"
    using update_clocks_niffies by blast
  have j: "s32 (s64 (jiffies st - last_jiffy (grq st))) = j"
    using assms(3-5) by (simp add: s64_id s32_id in_s64_def in_s32_def)
  note b = niffy_diff_bounds [OF assms(4,5) d(1)] and m = niffy_bounds [OF assms(4,5)]
  have "niffies (grq (update_clocks c st)) = niffies (grq st) + niffy_diff d j"
    unfolding d(2) j using assms(6,7) b m by (intro u64_id) (simp add: in_u64_def)
  with b m update_clocks_jiffy [OF assms(1)] show ?thesis
    by (auto split: if_splits)
qed

theorem update_clocks_monotone_witness:
  "let st = zero_kstate\<lparr>jiffies := 3\<rparr> in
     2000000 \<le> niffies (grq (update_clocks 1 st)) \<and> niffies (grq (update_clocks 1 st)) \<le> 4000000 \<and>
     last_jiffy (grq (update_clocks 1 st)) = 3"
  using update_clocks_monotone [of "zero_kstate\<lparr>jiffies := 3\<rparr>" 3 1]
  by (simp add: zero_kstate_def zero_grq_def in_u64_def)

text \<open>The product in \<open>JIFFIES_TO_NS\<close> is an \<open>int\<close>: from 2149 ticks on it is negative, and every
  difference the check lets through is negative.\<close>

lemma niffy_diff_overflow:
  assumes "2149 \<le> j" and "j \<le> 4293" and "in_s64 d"
  shows "niffy_diff d j < 0" and "- 4294967296 \<le> niffy_diff d j"
proof -
  define k where "k = (j - 1) * 1000000 - 4294967296"
  have k: "k < 0" "- 2146967296 \<le> k" using assms(1,2) by (simp_all add: k_def)
  have "s32 ((j - 1) * 1000000) = s32 k"
    unfolding k_def by (rule s32_wrap [symmetric])
  also have "s32 k = k" using k by (intro s32_id) (simp add: in_s32_def)
  finally have "u64 (JIFFIES_TO_NS (j - 1)) = k + 18446744073709551616"
    using k by (simp add: JIFFIES_TO_NS_def u64_neg)
  then have m: "niffy_min j = k + 18446744073709551616"
    using assms(1) by (simp add: niffy_min_def)
  have s: "s64 (niffy_min j) = k"
    unfolding m s64_wrap using k by (intro s64_id) (simp add: in_s64_def)
  have "d < 0 \<and> k \<le> d" if "niffy_min j \<le> u64 d"
  proof (cases "0 \<le> d")
    case True
    then have "u64 d = d" using assms(3) by (intro u64_id) (simp add: in_u64_def in_s64_def)
    with that assms(3) m k show ?thesis by (simp add: in_s64_def)
  next
    case False
    then have "u64 d = d + 18446744073709551616"
      using assms(3) by (intro u64_neg) (simp_all add: in_s64_def)
    then show ?thesis using that m False by simp
  qed
  then show "niffy_diff d j < 0" "- 4294967296 \<le> niffy_diff d j"
    using k s by (auto simp: niffy_diff_def not_less)
qed

text \<open>After a gap of 2149 to 4293 ticks without an update (a little over two seconds: a system with
  all processors idle and the tick stopped, or one task running alone), the sanity check does the opposite of what it
  is for: whatever the clocks read, \<open>niffies\<close> moves backwards.\<close>
theorem update_clocks_backwards:
  assumes "jiffies st - last_jiffy (grq st) = j" and "2149 \<le> j" and "j \<le> 4293"
    and "4294967296 \<le> niffies (grq st)" and "in_u64 (niffies (grq st))"
  shows "niffies (grq (update_clocks c st)) < niffies (grq st)"
proof -
  obtain d where d: "in_s64 d" "niffies (grq (update_clocks c st)) = u64 (niffies (grq st) +
      niffy_diff d (s32 (s64 (jiffies st - last_jiffy (grq st)))))"
    using update_clocks_niffies by blast
  have j: "s32 (s64 (jiffies st - last_jiffy (grq st))) = j"
    using assms(1-3) by (simp add: s64_id s32_id in_s64_def in_s32_def)
  note b = niffy_diff_overflow [OF assms(2,3) d(1)]
  have "niffies (grq (update_clocks c st)) = niffies (grq st) + niffy_diff d j"
    unfolding d(2) j using assms(4,5) b by (intro u64_id) (simp add: in_u64_def)
  with b show ?thesis by simp
qed

theorem update_clocks_backwards_witness:
  "let st = zero_kstate\<lparr>jiffies := 3000, grq := zero_grq\<lparr>niffies := 5000000000\<rparr>\<rparr> in
     niffies (grq (update_clocks 0 st)) < niffies (grq st)"
  using update_clocks_backwards [of "zero_kstate\<lparr>jiffies := 3000, grq := zero_grq\<lparr>niffies := 5000000000\<rparr>\<rparr>" 3000 0]
  by (simp add: zero_grq_def in_u64_def)

end
