(* ===== verification/Sched_Queue.thy ===== *)
theory Sched_Queue
  imports Sched_Clock
begin

text \<open>
  The global run queue (\<open>kernel/sched_bfs.c\<close>, lines 880 to 1046 and 1179 to 1390): one FIFO list per
  priority level, the bitmap of non-empty levels, the counters, the map of idle processors, and
  the operations that move tasks on and off.  The invariant \<open>queue_ok\<close> ties lists, bitmap, counter
  and task fields together; every operation is shown to keep it.  The last section proves that
  the pointer operations on \<open>run_list\<close> implement the list operations used here.
\<close>

unbundle bit_operations_syntax

section \<open>Queue operations\<close>

definition task_queued :: "tid \<Rightarrow> kstate \<Rightarrow> bool" where
  "task_queued p st \<longleftrightarrow> list_ex (\<lambda>i. p \<in> set (queue (grq st) i)) [0..<nat PRIO_LIMIT]"

definition task_running :: "tid \<Rightarrow> kstate \<Rightarrow> bool" where
  "task_running p st \<longleftrightarrow> on_cpu (tasks st p)"

definition dequeue_task :: "tid \<Rightarrow> kstate \<Rightarrow> kstate" where
  "dequeue_task p st =
     (let st = upd_grq (\<lambda>g. g\<lparr>queue := (\<lambda>i. remove1 p (queue g i))\<rparr>) st;
          i = nat (prio (tasks st p))
      in if queue (grq st) i = [] then upd_grq (\<lambda>g. g\<lparr>prio_bitmap := clear_bit_na i (prio_bitmap g)\<rparr>) st
         else st)"

definition idleprio_suitable :: "task_struct \<Rightarrow> bool" where
  "idleprio_suitable p \<longleftrightarrow> \<not> tif_freeze p \<and> \<not> tif_sigpending p \<and> \<not> task_contributes_to_load p \<and>
     flags p AND PF_EXITING = 0"

definition isoprio_suitable :: "kstate \<Rightarrow> bool" where
  "isoprio_suitable st \<longleftrightarrow> \<not> iso_refractory (grq st)"

definition sched_info_queued :: "tid \<Rightarrow> kstate \<Rightarrow> kstate" where
  "sched_info_queued p st =
     (if last_queued (tsched_info (tasks st p)) = 0
      then upd_task p (\<lambda>t. t\<lparr>tsched_info := (tsched_info t)\<lparr>last_queued := rq_clock (rqs st (task_cpu t))\<rparr>\<rparr>) st
      else st)"

definition enqueue_prio :: "task_struct \<Rightarrow> kstate \<Rightarrow> int" where
  "enqueue_prio t st =
     (if \<not> rt_task t then
        (if idleprio_task t \<and> idleprio_suitable t \<or> iso_task t \<and> isoprio_suitable st
         then normal_prio t else NORMAL_PRIO)
      else prio t)"

definition enqueue_task :: "tid \<Rightarrow> kstate \<Rightarrow> kstate" where
  "enqueue_task p st =
     (let st = upd_task p (\<lambda>t. t\<lparr>prio := enqueue_prio t st\<rparr>) st;
          i = nat (prio (tasks st p));
          st = upd_grq (\<lambda>g. g\<lparr>prio_bitmap := set_bit_na i (prio_bitmap g)\<rparr>) st;
          st = upd_grq (\<lambda>g. g\<lparr>queue := (queue g)(i := queue g i @ [p])\<rparr>) st
      in sched_info_queued p st)"

definition enqueue_task_head :: "tid \<Rightarrow> kstate \<Rightarrow> kstate" where
  "enqueue_task_head p st =
     (let i = nat (prio (tasks st p));
          st = upd_grq (\<lambda>g. g\<lparr>prio_bitmap := set_bit_na i (prio_bitmap g)\<rparr>) st;
          st = upd_grq (\<lambda>g. g\<lparr>queue := (queue g)(i := p # queue g i)\<rparr>) st
      in sched_info_queued p st)"

definition requeue_task :: "tid \<Rightarrow> kstate \<Rightarrow> kstate" where
  "requeue_task p st = sched_info_queued p st"

definition inc_qnr :: "kstate \<Rightarrow> kstate" where
  "inc_qnr = upd_grq (\<lambda>g. g\<lparr>qnr := u64 (qnr g + 1)\<rparr>)"

definition dec_qnr :: "kstate \<Rightarrow> kstate" where
  "dec_qnr = upd_grq (\<lambda>g. g\<lparr>qnr := u64 (qnr g - 1)\<rparr>)"

text \<open>The \<open>unsigned long\<close> counter is returned as an \<open>int\<close>.\<close>

definition queued_notrunning :: "kstate \<Rightarrow> int" where
  "queued_notrunning st = s32 (qnr (grq st))"

section \<open>Idle processors\<close>

definition set_cpuidle_map :: "cpu \<Rightarrow> kstate \<Rightarrow> kstate" where
  "set_cpuidle_map c st =
     (if c \<in> cpu_online_map st
      then upd_grq (\<lambda>g. g\<lparr>cpu_idle_map := insert c (cpu_idle_map g), idle_cpus := True\<rparr>) st else st)"

definition clear_cpuidle_map :: "cpu \<Rightarrow> kstate \<Rightarrow> kstate" where
  "clear_cpuidle_map c st =
     (let st = upd_grq (\<lambda>g. g\<lparr>cpu_idle_map := cpu_idle_map g - {c}\<rparr>) st
      in if cpu_idle_map (grq st) = {} then upd_grq (\<lambda>g. g\<lparr>idle_cpus := False\<rparr>) st else st)"

definition suitable_idle_cpus :: "tid \<Rightarrow> kstate \<Rightarrow> bool" where
  "suitable_idle_cpus p st \<longleftrightarrow>
     idle_cpus (grq st) \<and> cpus_allowed (tasks st p) \<inter> cpu_idle_map (grq st) \<noteq> {}"

section \<open>Priorities\<close>

definition normal_prio_of :: "task_struct \<Rightarrow> int" where
  "normal_prio_of p =
     (if has_rt_policy p then MAX_RT_PRIO - 1 - rt_priority p
      else if idleprio_task p then IDLE_PRIO
      else if iso_task p then ISO_PRIO
      else NORMAL_PRIO)"

text \<open>\<open>p->prio = effective_prio(p)\<close>, which also refreshes \<open>normal_prio\<close>.\<close>

definition effective_prio :: "task_struct \<Rightarrow> task_struct \<times> int" where
  "effective_prio p =
     (let p = p\<lparr>normal_prio := normal_prio_of p\<rparr>
      in (p, if \<not> rt_prio (prio p) then normal_prio p else prio p))"

definition set_effective_prio :: "task_struct \<Rightarrow> task_struct" where
  "set_effective_prio p = (case effective_prio p of (p, x) \<Rightarrow> p\<lparr>prio := x\<rparr>)"

section \<open>Activation\<close>

definition activate_idle_task :: "tid \<Rightarrow> kstate \<Rightarrow> kstate" where
  "activate_idle_task p st =
     inc_qnr (upd_grq (\<lambda>g. g\<lparr>nr_running := u64 (nr_running g + 1)\<rparr>) (enqueue_task_head p st))"

definition activate_task :: "tid \<Rightarrow> cpu \<Rightarrow> kstate \<Rightarrow> kstate" where
  "activate_task p c st =
     (let st = update_clocks c st;
          st = upd_task p set_effective_prio st;
          st = (if task_contributes_to_load (tasks st p)
                then upd_grq (\<lambda>g. g\<lparr>nr_uninterruptible := u64 (nr_uninterruptible g - 1)\<rparr>) st else st);
          st = enqueue_task p st;
          st = upd_grq (\<lambda>g. g\<lparr>nr_running := u64 (nr_running g + 1)\<rparr>) st
      in inc_qnr st)"

definition clear_sticky :: "tid \<Rightarrow> kstate \<Rightarrow> kstate" where
  "clear_sticky p = upd_task p (\<lambda>t. t\<lparr>sticky := False\<rparr>)"

definition deactivate_task :: "tid \<Rightarrow> kstate \<Rightarrow> kstate" where
  "deactivate_task p st =
     (let st = (if task_contributes_to_load (tasks st p)
                then upd_grq (\<lambda>g. g\<lparr>nr_uninterruptible := u64 (nr_uninterruptible g + 1)\<rparr>) st else st);
          st = upd_grq (\<lambda>g. g\<lparr>nr_running := u64 (nr_running g - 1)\<rparr>) st
      in clear_sticky p st)"

definition set_task_cpu :: "tid \<Rightarrow> cpu \<Rightarrow> kstate \<Rightarrow> kstate" where
  "set_task_cpu p c = upd_task p (\<lambda>t. t\<lparr>task_cpu := c\<rparr>)"

definition take_task :: "cpu \<Rightarrow> tid \<Rightarrow> kstate \<Rightarrow> kstate" where
  "take_task c p st = dec_qnr (clear_sticky p (dequeue_task p (set_task_cpu p c st)))"

definition return_task :: "tid \<Rightarrow> bool \<Rightarrow> kstate \<Rightarrow> kstate" where
  "return_task p deactivate st =
     (if deactivate then deactivate_task p st else enqueue_task p (inc_qnr st))"

section \<open>The queue invariant\<close>

text \<open>No more tasks than process identifiers and idle tasks (\<open>PID_MAX_LIMIT + NR_CPUS\<close>).\<close>

definition TASK_LIMIT :: nat where
  "TASK_LIMIT = 4194304 + NR_CPUS"

definition qtotal :: "(nat \<Rightarrow> tid list) \<Rightarrow> nat" where
  "qtotal q = (\<Sum>i<nat PRIO_LIMIT. length (q i))"

definition queues_ok :: "(nat \<Rightarrow> tid list) \<Rightarrow> (tid \<Rightarrow> task_struct) \<Rightarrow> bool" where
  "queues_ok q ts \<longleftrightarrow> (\<forall>i. distinct (q i)) \<and>
     (\<forall>i p. p \<in> set (q i) \<longrightarrow>
        prio (ts p) = int i \<and> int i < PRIO_LIMIT \<and> \<not> on_cpu (ts p) \<and> p < TASK_LIMIT)"

definition bits_ok :: "bitmap \<Rightarrow> (nat \<Rightarrow> tid list) \<Rightarrow> bool" where
  "bits_ok b q \<longleftrightarrow> kb.tracks b q (nat PRIO_LIMIT) \<and> test_bit (nat PRIO_LIMIT) b"

definition queue_ok :: "kstate \<Rightarrow> bool" where
  "queue_ok st \<longleftrightarrow> queues_ok (queue (grq st)) (tasks st) \<and>
     bits_ok (prio_bitmap (grq st)) (queue (grq st)) \<and> qnr (grq st) = int (qtotal (queue (grq st)))"

lemma queues_okD:
  assumes "queues_ok q ts" and "p \<in> set (q i)"
  shows "prio (ts p) = int i" and "i < 104" and "\<not> on_cpu (ts p)" and "p < TASK_LIMIT"
proof -
  have "prio (ts p) = int i \<and> int i < PRIO_LIMIT \<and> \<not> on_cpu (ts p) \<and> p < TASK_LIMIT"
    using assms unfolding queues_ok_def by blast
  then show "prio (ts p) = int i" "i < 104" "\<not> on_cpu (ts p)" "p < TASK_LIMIT"
    by simp_all
qed

lemma queues_ok_distinct: "queues_ok q ts \<Longrightarrow> distinct (q i)"
  by (simp add: queues_ok_def)

lemma queues_ok_unique: "queues_ok q ts \<Longrightarrow> p \<in> set (q i) \<Longrightarrow> p \<in> set (q j) \<Longrightarrow> i = j"
  using queues_okD(1) [of q ts p i] queues_okD(1) [of q ts p j] by simp

lemma queues_ok_high: "queues_ok q ts \<Longrightarrow> 104 \<le> i \<Longrightarrow> q i = []"
  using queues_okD(2) [of q ts _ i] by (cases "q i") auto

lemma task_queued_iff:
  assumes "queues_ok (queue (grq st)) (tasks st)"
  shows "task_queued p st \<longleftrightarrow> (\<exists>i. p \<in> set (queue (grq st) i))"
  using queues_okD(2) [OF assms, of p] by (auto simp: task_queued_def list_ex_iff)

lemma task_queued_prio:
  assumes "queues_ok (queue (grq st)) (tasks st)"
  shows "task_queued p st \<longleftrightarrow> 0 \<le> prio (tasks st p) \<and> p \<in> set (queue (grq st) (nat (prio (tasks st p))))"
proof
  assume "task_queued p st"
  then obtain i where i: "p \<in> set (queue (grq st) i)" unfolding task_queued_iff [OF assms] ..
  with queues_okD(1) [OF assms i] show "0 \<le> prio (tasks st p) \<and> p \<in> set (queue (grq st) (nat (prio (tasks st p))))"
    by simp
next
  assume "0 \<le> prio (tasks st p) \<and> p \<in> set (queue (grq st) (nat (prio (tasks st p))))"
  then show "task_queued p st" unfolding task_queued_iff [OF assms] by blast
qed

lemma qtotal_limit:
  assumes "queues_ok q ts"
  shows "qtotal q \<le> TASK_LIMIT"
proof -
  have d: "disjoint_family_on (\<lambda>i. set (q i)) {..<nat PRIO_LIMIT}"
    using queues_ok_unique [OF assms] by (auto simp: disjoint_family_on_def)
  have "qtotal q = (\<Sum>i<nat PRIO_LIMIT. card (set (q i)))"
    unfolding qtotal_def using queues_ok_distinct [OF assms] by (simp add: distinct_card)
  also have "\<dots> = card (\<Union>i<nat PRIO_LIMIT. set (q i))"
    using d by (intro card_UN_disjoint [symmetric]) (auto simp: disjoint_family_on_def)
  also have "\<dots> \<le> card {..<TASK_LIMIT}"
    using queues_okD(4) [OF assms] by (intro card_mono) auto
  finally show ?thesis by simp
qed

section \<open>Lists, bitmap and counter under insertion and removal\<close>

lemma queues_ok_cong:
  assumes "queues_ok q ts"
    and "\<And>i p. p \<in> set (q i) \<Longrightarrow> prio (ts' p) = prio (ts p) \<and> on_cpu (ts' p) = on_cpu (ts p)"
  shows "queues_ok q ts'"
  using assms unfolding queues_ok_def by metis

lemma queues_ok_insert:
  assumes "queues_ok q ts" and "\<And>j. p \<notin> set (q j)"
    and "\<And>r. r \<noteq> p \<Longrightarrow> prio (ts' r) = prio (ts r) \<and> on_cpu (ts' r) = on_cpu (ts r)"
    and "prio (ts' p) = int i" and "i < 104" and "\<not> on_cpu (ts' p)" and "p < TASK_LIMIT"
    and "xs = q i @ [p] \<or> xs = p # q i"
  shows "queues_ok (q(i := xs)) ts'"
proof -
  have set: "set ((q(i := xs)) j) = (if j = i then insert p (set (q i)) else set (q j))" for j
    using assms(8) by auto
  have "distinct ((q(i := xs)) j)" for j
    using assms(2) [of i] assms(8) queues_ok_distinct [OF assms(1)] by auto
  moreover have "prio (ts' r) = int j \<and> int j < PRIO_LIMIT \<and> \<not> on_cpu (ts' r) \<and> r < TASK_LIMIT"
    if "r \<in> set ((q(i := xs)) j)" for j r
  proof (cases "r = p")
    case True
    then have "j = i" using that assms(2) [of j] unfolding set by (simp split: if_splits)
    with True assms(4-7) show ?thesis by simp
  next
    case False
    then have "r \<in> set (q j)" using that unfolding set by (auto split: if_splits)
    from queues_okD [OF assms(1) this] assms(3) [OF False] show ?thesis by simp
  qed
  ultimately show ?thesis unfolding queues_ok_def by blast
qed

lemma qtotal_insert:
  assumes "i < 104" and "length xs = Suc (length (q i))"
  shows "qtotal (q(i := xs)) = Suc (qtotal q)"
proof -
  let ?I = "{..<nat PRIO_LIMIT}"
  have i: "i \<in> ?I" "finite ?I" using assms(1) by simp_all
  have "qtotal (q(i := xs)) = length xs + (\<Sum>j \<in> ?I - {i}. length ((q(i := xs)) j))"
    unfolding qtotal_def by (subst sum.remove [OF i(2,1)]) simp
  also have "(\<Sum>j \<in> ?I - {i}. length ((q(i := xs)) j)) = (\<Sum>j \<in> ?I - {i}. length (q j))"
    by (rule sum.cong) auto
  finally show ?thesis
    unfolding qtotal_def sum.remove [OF i(2,1), of "\<lambda>j. length (q j)"] using assms(2) by simp
qed

lemma bits_ok_insert:
  assumes "bits_ok b q" and "xs \<noteq> []"
  shows "bits_ok (set_bit_na i b) (q(i := xs))"
  using assms kb.tracks_insert [of b q "nat PRIO_LIMIT" "q(i := xs)" i] by (simp add: bits_ok_def)

lemma remove1_queues:
  assumes "queues_ok q ts" and "p \<in> set (q i)"
  shows "(\<lambda>j. remove1 p (q j)) = q(i := remove1 p (q i))"
proof
  fix j
  show "remove1 p (q j) = (q(i := remove1 p (q i))) j"
  proof (cases "j = i")
    case False
    then have "p \<notin> set (q j)" using queues_ok_unique [OF assms(1) assms(2)] by blast
    with False show ?thesis by (simp add: remove1_idem)
  qed simp
qed

lemma queues_ok_remove:
  assumes "queues_ok q ts"
    and "\<And>r. r \<noteq> p \<Longrightarrow> prio (ts' r) = prio (ts r) \<and> on_cpu (ts' r) = on_cpu (ts r)"
  shows "queues_ok (\<lambda>j. remove1 p (q j)) ts'"
proof -
  have "prio (ts' r) = int j \<and> int j < PRIO_LIMIT \<and> \<not> on_cpu (ts' r) \<and> r < TASK_LIMIT"
    if "r \<in> set (remove1 p (q j))" for j r
  proof -
    have r: "r \<noteq> p" "r \<in> set (q j)"
      using that queues_ok_distinct [OF assms(1), of j] by (auto simp: set_remove1_eq)
    from queues_okD [OF assms(1) r(2)] assms(2) [OF r(1)] show ?thesis by simp
  qed
  moreover have "distinct (remove1 p (q j))" for j
    by (intro distinct_remove1 queues_ok_distinct [OF assms(1)])
  ultimately show ?thesis unfolding queues_ok_def by blast
qed

lemma qtotal_remove:
  assumes "queues_ok q ts" and "p \<in> set (q i)"
  shows "Suc (qtotal (\<lambda>j. remove1 p (q j))) = qtotal q"
proof -
  let ?q = "q(i := remove1 p (q i))"
  have i: "i < 104" by (rule queues_okD(2) [OF assms])
  have l: "length (q i) = Suc (length (?q i))"
    using assms(2) length_pos_if_in_set [OF assms(2)] by (simp add: length_remove1)
  have "qtotal (?q(i := q i)) = Suc (qtotal ?q)" by (rule qtotal_insert) (fact i, fact l)
  then show ?thesis unfolding remove1_queues [OF assms] by simp
qed

lemma bits_ok_remove:
  assumes "queues_ok q ts" and "bits_ok b q" and "p \<in> set (q i)"
  shows "bits_ok (if remove1 p (q i) = [] then clear_bit_na i b else b) (\<lambda>j. remove1 p (q j))"
proof -
  have n: "q i \<noteq> []" using assms(3) by auto
  have i: "i < 104" by (rule queues_okD(2) [OF assms(1,3)])
  have "kb.tracks (if remove1 p (q i) = [] then clear_bit_na i b else b) (q(i := remove1 p (q i))) (nat PRIO_LIMIT)"
    using assms(2) n kb.tracks_remove [of b q "nat PRIO_LIMIT" i "q(i := remove1 p (q i))"]
    by (simp add: bits_ok_def)
  with assms(2) i show ?thesis
    unfolding remove1_queues [OF assms(1,3)] by (simp add: bits_ok_def)
qed

section \<open>Closed forms\<close>

definition info_queued :: "int \<Rightarrow> task_struct \<Rightarrow> task_struct" where
  "info_queued clk t =
     (if last_queued (tsched_info t) = 0 then t\<lparr>tsched_info := (tsched_info t)\<lparr>last_queued := clk\<rparr>\<rparr> else t)"

lemma info_queued_simps [simp]:
  "prio (info_queued k t) = prio t" "on_cpu (info_queued k t) = on_cpu t"
  "task_cpu (info_queued k t) = task_cpu t" "tif_need_resched (info_queued k t) = tif_need_resched t"
  "policy (info_queued k t) = policy t" "rt_priority (info_queued k t) = rt_priority t"
  "static_prio (info_queued k t) = static_prio t" "normal_prio (info_queued k t) = normal_prio t"
  "state (info_queued k t) = state t" "flags (info_queued k t) = flags t"
  "deadline (info_queued k t) = deadline t" "time_slice (info_queued k t) = time_slice t"
  "sticky (info_queued k t) = sticky t" "cpus_allowed (info_queued k t) = cpus_allowed t"
  "pid (info_queued k t) = pid t" "tgid (info_queued k t) = tgid t" "parent (info_queued k t) = parent t"
  by (simp_all add: info_queued_def)

lemma sched_info_queued_eq:
  "sched_info_queued p st = upd_task p (info_queued (rq_clock (rqs st (task_cpu (tasks st p))))) st"
  by (cases st) (simp add: sched_info_queued_def upd_task_def info_queued_def)

lemma sched_info_queued_frame [frame, simp]:
  "grq (sched_info_queued p st) = grq st" "rqs (sched_info_queued p st) = rqs st"
  "param (sched_info_queued p st) = param st" "cpu_online_map (sched_info_queued p st) = cpu_online_map st"
  "jiffies (sched_info_queued p st) = jiffies st" "env (sched_info_queued p st) = env st"
  "kstat (sched_info_queued p st) = kstat st" "ipis (sched_info_queued p st) = ipis st"
  "rr_interval (sched_info_queued p st) = rr_interval st" "prio_ratios (sched_info_queued p st) = prio_ratios st"
  "sched_iso_cpu (sched_info_queued p st) = sched_iso_cpu st" "mm_count (sched_info_queued p st) = mm_count st" "sds (sched_info_queued p st) = sds st"
  by (simp_all add: sched_info_queued_eq)

lemma enqueue_task_tasks:
  "tasks (enqueue_task p st) = (tasks st)(p := info_queued (rq_clock (rqs st (task_cpu (tasks st p))))
     ((tasks st p)\<lparr>prio := enqueue_prio (tasks st p) st\<rparr>))"
  by (simp add: enqueue_task_def Let_def sched_info_queued_eq)

lemma enqueue_task_grq:
  "grq (enqueue_task p st) = (let i = nat (enqueue_prio (tasks st p) st); g = grq st in
     g\<lparr>prio_bitmap := set_bit_na i (prio_bitmap g), queue := (queue g)(i := queue g i @ [p])\<rparr>)"
  by (simp add: enqueue_task_def Let_def)

lemma enqueue_task_frame [frame, simp]:
  "rqs (enqueue_task p st) = rqs st"
  "param (enqueue_task p st) = param st" "cpu_online_map (enqueue_task p st) = cpu_online_map st"
  "jiffies (enqueue_task p st) = jiffies st" "env (enqueue_task p st) = env st"
  "kstat (enqueue_task p st) = kstat st" "ipis (enqueue_task p st) = ipis st"
  "rr_interval (enqueue_task p st) = rr_interval st" "prio_ratios (enqueue_task p st) = prio_ratios st"
  "sched_iso_cpu (enqueue_task p st) = sched_iso_cpu st" "mm_count (enqueue_task p st) = mm_count st" "sds (enqueue_task p st) = sds st"
  by (simp_all add: enqueue_task_def Let_def)

lemma dequeue_task_grq:
  "grq (dequeue_task p st) = (let i = nat (prio (tasks st p)); g = grq st in
     g\<lparr>queue := (\<lambda>j. remove1 p (queue g j)),
       prio_bitmap := (if remove1 p (queue g i) = [] then clear_bit_na i (prio_bitmap g) else prio_bitmap g)\<rparr>)"
  by (simp add: dequeue_task_def Let_def)

lemma dequeue_task_frame [frame, simp]:
  "tasks (dequeue_task p st) = tasks st" "rqs (dequeue_task p st) = rqs st"
  "param (dequeue_task p st) = param st" "cpu_online_map (dequeue_task p st) = cpu_online_map st"
  "jiffies (dequeue_task p st) = jiffies st" "env (dequeue_task p st) = env st"
  "kstat (dequeue_task p st) = kstat st" "ipis (dequeue_task p st) = ipis st"
  "rr_interval (dequeue_task p st) = rr_interval st" "prio_ratios (dequeue_task p st) = prio_ratios st"
  "sched_iso_cpu (dequeue_task p st) = sched_iso_cpu st" "mm_count (dequeue_task p st) = mm_count st" "sds (dequeue_task p st) = sds st"
  by (simp_all add: dequeue_task_def Let_def)

lemma core_sched_info_queued [simp]: "core (sched_info_queued p st) = core st"
  by (simp add: sched_info_queued_def core_upds)

lemma core_clear_sticky [simp]: "core (clear_sticky p st) = core st"
  by (simp add: clear_sticky_def core_upds)

section \<open>Every operation keeps the queues\<close>

text \<open>\<open>schedule\<close> puts the descheduling task back on its queue while \<open>on_cpu\<close> is still set; \<open>S\<close> holds
  the tasks to be read as already off their processor.\<close>

definition off :: "tid set \<Rightarrow> (tid \<Rightarrow> task_struct) \<Rightarrow> tid \<Rightarrow> task_struct" where
  "off S ts p = (if p \<in> S then (ts p)\<lparr>on_cpu := False\<rparr> else ts p)"

lemma off_simps [simp]:
  "prio (off S ts p) = prio (ts p)" "on_cpu (off S ts p) \<longleftrightarrow> on_cpu (ts p) \<and> p \<notin> S"
  "off {} ts = ts"
  by (auto simp: off_def)

definition qs_ok :: "tid set \<Rightarrow> kstate \<Rightarrow> bool" where
  "qs_ok S st \<longleftrightarrow> queues_ok (queue (grq st)) (off S (tasks st)) \<and>
     bits_ok (prio_bitmap (grq st)) (queue (grq st))"

lemma queue_ok_qs: "queue_ok st \<longleftrightarrow> qs_ok {} st \<and> qnr (grq st) = int (qtotal (queue (grq st)))"
  by (simp add: queue_ok_def qs_ok_def)

lemma qs_ok_cong:
  assumes "qs_ok S st" and "queue (grq st') = queue (grq st)" and "prio_bitmap (grq st') = prio_bitmap (grq st)"
    and "\<And>i p. p \<in> set (queue (grq st) i) \<Longrightarrow> prio (tasks st' p) = prio (tasks st p) \<and>
      (on_cpu (tasks st' p) \<and> p \<notin> S' \<longleftrightarrow> on_cpu (tasks st p) \<and> p \<notin> S)"
  shows "qs_ok S' st'"
  using assms queues_ok_cong [of "queue (grq st)" "off S (tasks st)" "off S' (tasks st')"]
  by (auto simp: qs_ok_def)

lemma qs_ok_queued:
  assumes "qs_ok S st"
  shows "task_queued p st \<longleftrightarrow> (\<exists>i. p \<in> set (queue (grq st) i))"
  using assms queues_okD(2) [of "queue (grq st)" "off S (tasks st)" p]
  by (auto simp: task_queued_def list_ex_iff qs_ok_def)

lemma qs_okD:
  assumes "qs_ok S st" and "p \<in> set (queue (grq st) i)"
  shows "prio (tasks st p) = int i" "i < 104" "\<not> on_cpu (tasks st p) \<or> p \<in> S" "p < TASK_LIMIT"
  using assms queues_okD [of "queue (grq st)" "off S (tasks st)" p i] by (auto simp: qs_ok_def)

text \<open>What \<open>enqueue_task\<close> needs of the task: a boosted priority is an index of the array, and the
  cached normal priority of the policies that use it is up to date.\<close>

definition enq_ok :: "task_struct \<Rightarrow> bool" where
  "enq_ok t \<longleftrightarrow> 0 \<le> prio t \<and> (idleprio_task t \<or> iso_task t \<longrightarrow> 101 \<le> normal_prio t \<and> normal_prio t \<le> 103)"

definition pol_ok :: "task_struct \<Rightarrow> bool" where
  "pol_ok t \<longleftrightarrow> 0 \<le> prio t \<and> (has_rt_policy t \<longrightarrow> 0 \<le> rt_priority t \<and> rt_priority t \<le> 100)"

lemma enqueue_prio_range: "enq_ok t \<Longrightarrow> 0 \<le> enqueue_prio t st \<and> enqueue_prio t st < 104"
  by (auto simp: enq_ok_def enqueue_prio_def rt_task_def rt_prio_def)

lemma normal_prio_of_range: "pol_ok t \<Longrightarrow> 0 \<le> normal_prio_of t \<and> normal_prio_of t < 104"
  by (auto simp: pol_ok_def normal_prio_of_def)

lemma set_effective_prio_simps [simp]:
  "on_cpu (set_effective_prio t) = on_cpu t" "task_cpu (set_effective_prio t) = task_cpu t"
  "tif_need_resched (set_effective_prio t) = tif_need_resched t"
  "policy (set_effective_prio t) = policy t" "rt_priority (set_effective_prio t) = rt_priority t"
  "static_prio (set_effective_prio t) = static_prio t" "normal_prio (set_effective_prio t) = normal_prio_of t"
  "state (set_effective_prio t) = state t" "flags (set_effective_prio t) = flags t"
  "sticky (set_effective_prio t) = sticky t" "cpus_allowed (set_effective_prio t) = cpus_allowed t"
  "deadline (set_effective_prio t) = deadline t" "time_slice (set_effective_prio t) = time_slice t"
  "parent (set_effective_prio t) = parent t" "tif_freeze (set_effective_prio t) = tif_freeze t"
  "tif_sigpending (set_effective_prio t) = tif_sigpending t"
  by (simp_all add: set_effective_prio_def effective_prio_def Let_def)

lemma set_effective_prio_prio:
  "prio (set_effective_prio t) = (if rt_prio (prio t) then prio t else normal_prio_of t)"
  by (simp add: set_effective_prio_def effective_prio_def Let_def)

lemma set_effective_prio_enq_ok: "pol_ok t \<Longrightarrow> enq_ok (set_effective_prio t)"
  using normal_prio_of_range [of t]
  by (auto simp: enq_ok_def set_effective_prio_prio pol_ok_def idleprio_task_def iso_task_def
      normal_prio_of_def has_rt_policy_def is_rt_policy_def)

lemma enqueue_task_qs_ok:
  assumes "qs_ok S st" and "\<And>j. p \<notin> set (queue (grq st) j)" and "\<not> on_cpu (tasks st p) \<or> p \<in> S"
    and "p < TASK_LIMIT" and "enq_ok (tasks st p)"
  shows "qs_ok S (enqueue_task p st)"
    and "qtotal (queue (grq (enqueue_task p st))) = Suc (qtotal (queue (grq st)))"
proof -
  let ?i = "nat (enqueue_prio (tasks st p) st)"
  have r: "0 \<le> enqueue_prio (tasks st p) st" "enqueue_prio (tasks st p) st < 104"
    using enqueue_prio_range [OF assms(5)] by auto
  have i: "?i < 104" using r by simp
  have q: "queue (grq (enqueue_task p st)) = (queue (grq st))(?i := queue (grq st) ?i @ [p])"
    by (simp add: enqueue_task_grq Let_def)
  have "queues_ok ((queue (grq st))(?i := queue (grq st) ?i @ [p])) (off S (tasks (enqueue_task p st)))"
    by (rule queues_ok_insert [where ts = "off S (tasks st)" and p = p])
      (use assms i r in \<open>auto simp: qs_ok_def enqueue_task_tasks\<close>)
  moreover have "bits_ok (prio_bitmap (grq (enqueue_task p st))) (queue (grq (enqueue_task p st)))"
    unfolding q using assms(1) by (simp add: qs_ok_def enqueue_task_grq Let_def bits_ok_insert)
  ultimately show "qs_ok S (enqueue_task p st)" by (simp add: qs_ok_def q)
  show "qtotal (queue (grq (enqueue_task p st))) = Suc (qtotal (queue (grq st)))"
    unfolding q by (rule qtotal_insert [OF i]) simp
qed

lemma dequeue_task_qs_ok:
  assumes "qs_ok S st" and "p \<in> set (queue (grq st) i)"
  shows "qs_ok S (dequeue_task p st)"
    and "Suc (qtotal (queue (grq (dequeue_task p st)))) = qtotal (queue (grq st))"
    and "p \<notin> set (queue (grq (dequeue_task p st)) j)"
proof -
  have q: "queues_ok (queue (grq st)) (off S (tasks st))" "bits_ok (prio_bitmap (grq st)) (queue (grq st))"
    using assms(1) by (simp_all add: qs_ok_def)
  have pr: "prio (tasks st p) = int i" by (rule qs_okD(1) [OF assms])
  have qs: "queue (grq (dequeue_task p st)) = (\<lambda>j. remove1 p (queue (grq st) j))"
    by (simp add: dequeue_task_grq Let_def)
  have "queues_ok (\<lambda>j. remove1 p (queue (grq st) j)) (off S (tasks st))"
    by (rule queues_ok_remove [OF q(1)]) simp
  moreover note bits_ok_remove [OF q assms(2)]
  ultimately show "qs_ok S (dequeue_task p st)"
    by (simp add: qs_ok_def dequeue_task_grq Let_def pr)
  show "Suc (qtotal (queue (grq (dequeue_task p st)))) = qtotal (queue (grq st))"
    unfolding qs by (rule qtotal_remove [OF q(1) assms(2)])
  show "p \<notin> set (queue (grq (dequeue_task p st)) j)"
    unfolding qs using queues_ok_distinct [OF q(1), of j] by (simp add: set_remove1_eq)
qed

section \<open>Counters and maps\<close>

lemma qnr_simps [simp]:
  "qnr (grq (inc_qnr st)) = u64 (qnr (grq st) + 1)" "qnr (grq (dec_qnr st)) = u64 (qnr (grq st) - 1)"
  "queue (grq (inc_qnr st)) = queue (grq st)" "queue (grq (dec_qnr st)) = queue (grq st)"
  "prio_bitmap (grq (inc_qnr st)) = prio_bitmap (grq st)" "prio_bitmap (grq (dec_qnr st)) = prio_bitmap (grq st)"
  "nr_running (grq (inc_qnr st)) = nr_running (grq st)" "nr_running (grq (dec_qnr st)) = nr_running (grq st)"
  "cpu_idle_map (grq (inc_qnr st)) = cpu_idle_map (grq st)" "cpu_idle_map (grq (dec_qnr st)) = cpu_idle_map (grq st)"
  "idle_cpus (grq (inc_qnr st)) = idle_cpus (grq st)" "idle_cpus (grq (dec_qnr st)) = idle_cpus (grq st)"
  "iso_refractory (grq (inc_qnr st)) = iso_refractory (grq st)" "iso_refractory (grq (dec_qnr st)) = iso_refractory (grq st)"
  "niffies (grq (inc_qnr st)) = niffies (grq st)" "niffies (grq (dec_qnr st)) = niffies (grq st)"
  "nr_switches (grq (inc_qnr st)) = nr_switches (grq st)" "nr_switches (grq (dec_qnr st)) = nr_switches (grq st)"
  "nr_uninterruptible (grq (inc_qnr st)) = nr_uninterruptible (grq st)"
  "nr_uninterruptible (grq (dec_qnr st)) = nr_uninterruptible (grq st)"
  "tasks (inc_qnr st) = tasks st" "tasks (dec_qnr st) = tasks st" "rqs (inc_qnr st) = rqs st" "rqs (dec_qnr st) = rqs st"
  "param (inc_qnr st) = param st" "param (dec_qnr st) = param st"
  "cpu_online_map (inc_qnr st) = cpu_online_map st" "cpu_online_map (dec_qnr st) = cpu_online_map st"
  "ipis (inc_qnr st) = ipis st" "ipis (dec_qnr st) = ipis st"
  "rr_interval (inc_qnr st) = rr_interval st" "rr_interval (dec_qnr st) = rr_interval st"
  "prio_ratios (inc_qnr st) = prio_ratios st" "prio_ratios (dec_qnr st) = prio_ratios st"
  by (simp_all add: inc_qnr_def dec_qnr_def)

lemma small_task_sets: "n \<le> TASK_LIMIT \<Longrightarrow> in_u64 (int n) \<and> in_s32 (int n) \<and> in_u64 (int n + 1)"
  by (simp add: TASK_LIMIT_def in_u64_def in_s32_def NR_CPUS_def)

lemma queued_notrunning_eq:
  assumes "queue_ok st"
  shows "queued_notrunning st = int (qtotal (queue (grq st)))"
  using assms qtotal_limit [of "queue (grq st)" "tasks st"] small_task_sets
  by (simp add: queue_ok_def queued_notrunning_def s32_id)

definition idle_map_ok :: "kstate \<Rightarrow> bool" where
  "idle_map_ok st \<longleftrightarrow> (idle_cpus (grq st) \<longleftrightarrow> cpu_idle_map (grq st) \<noteq> {}) \<and>
     cpu_idle_map (grq st) \<subseteq> cpu_online_map st"

lemma cpuidle_map_simps [simp]:
  "cpu_idle_map (grq (set_cpuidle_map c st)) =
     (if c \<in> cpu_online_map st then insert c (cpu_idle_map (grq st)) else cpu_idle_map (grq st))"
  "cpu_idle_map (grq (clear_cpuidle_map c st)) = cpu_idle_map (grq st) - {c}"
  "tasks (set_cpuidle_map c st) = tasks st" "tasks (clear_cpuidle_map c st) = tasks st"
  "rqs (set_cpuidle_map c st) = rqs st" "rqs (clear_cpuidle_map c st) = rqs st"
  "param (set_cpuidle_map c st) = param st" "param (clear_cpuidle_map c st) = param st"
  "cpu_online_map (set_cpuidle_map c st) = cpu_online_map st"
  "cpu_online_map (clear_cpuidle_map c st) = cpu_online_map st"
  "queue (grq (set_cpuidle_map c st)) = queue (grq st)" "queue (grq (clear_cpuidle_map c st)) = queue (grq st)"
  "prio_bitmap (grq (set_cpuidle_map c st)) = prio_bitmap (grq st)"
  "prio_bitmap (grq (clear_cpuidle_map c st)) = prio_bitmap (grq st)"
  "qnr (grq (set_cpuidle_map c st)) = qnr (grq st)" "qnr (grq (clear_cpuidle_map c st)) = qnr (grq st)"
  "nr_running (grq (set_cpuidle_map c st)) = nr_running (grq st)"
  "nr_running (grq (clear_cpuidle_map c st)) = nr_running (grq st)"
  "ipis (set_cpuidle_map c st) = ipis st" "ipis (clear_cpuidle_map c st) = ipis st"
  "niffies (grq (set_cpuidle_map c st)) = niffies (grq st)" "niffies (grq (clear_cpuidle_map c st)) = niffies (grq st)"
  by (simp_all add: set_cpuidle_map_def clear_cpuidle_map_def Let_def)

lemma idle_map_ok_set: "idle_map_ok st \<Longrightarrow> idle_map_ok (set_cpuidle_map c st)"
  by (auto simp: idle_map_ok_def set_cpuidle_map_def)

lemma idle_map_ok_clear: "idle_map_ok st \<Longrightarrow> idle_map_ok (clear_cpuidle_map c st)"
  by (auto simp: idle_map_ok_def clear_cpuidle_map_def Let_def)

lemma suitable_idle_cpus_iff:
  assumes "idle_map_ok st"
  shows "suitable_idle_cpus p st \<longleftrightarrow> cpus_allowed (tasks st p) \<inter> cpu_idle_map (grq st) \<noteq> {}"
  using assms by (auto simp: suitable_idle_cpus_def idle_map_ok_def)

section \<open>Activation\<close>

definition activated :: "kstate \<Rightarrow> cpu \<Rightarrow> tid \<Rightarrow> task_struct" where
  "activated st c p = info_queued (rq_clock (rqs (update_clocks c st) (task_cpu (tasks st p))))
     ((set_effective_prio (tasks st p))\<lparr>prio := enqueue_prio (set_effective_prio (tasks st p)) st\<rparr>)"

lemma enqueue_prio_cong: "iso_refractory (grq st) = iso_refractory (grq st') \<Longrightarrow> enqueue_prio t st = enqueue_prio t st'"
  by (simp add: enqueue_prio_def isoprio_suitable_def)

lemma enqueue_prio_upd [simp]:
  "enqueue_prio t (upd_task p f st) = enqueue_prio t st"
  "enqueue_prio t (upd_rq c h st) = enqueue_prio t st"
  "enqueue_prio t (update_clocks c st) = enqueue_prio t st"
  "iso_refractory (g (grq st)) = iso_refractory (grq st) \<Longrightarrow> enqueue_prio t (upd_grq g st) = enqueue_prio t st"
  by (simp_all add: enqueue_prio_def isoprio_suitable_def)

lemma activate_task_tasks: "tasks (activate_task p c st) = (tasks st)(p := activated st c p)"
  by (auto simp: activate_task_def Let_def enqueue_task_tasks activated_def fun_eq_iff)

lemma activated_simps [simp]:
  "on_cpu (activated st c p) = on_cpu (tasks st p)" "task_cpu (activated st c p) = task_cpu (tasks st p)"
  "tif_need_resched (activated st c p) = tif_need_resched (tasks st p)"
  "policy (activated st c p) = policy (tasks st p)" "rt_priority (activated st c p) = rt_priority (tasks st p)"
  "static_prio (activated st c p) = static_prio (tasks st p)"
  "normal_prio (activated st c p) = normal_prio_of (tasks st p)"
  "state (activated st c p) = state (tasks st p)" "flags (activated st c p) = flags (tasks st p)"
  "cpus_allowed (activated st c p) = cpus_allowed (tasks st p)"
  "deadline (activated st c p) = deadline (tasks st p)" "time_slice (activated st c p) = time_slice (tasks st p)"
  "sticky (activated st c p) = sticky (tasks st p)" "parent (activated st c p) = parent (tasks st p)"
  "prio (activated st c p) = enqueue_prio (set_effective_prio (tasks st p)) st"
  by (simp_all add: activated_def)

lemma activate_task_frame [frame, simp]:
  "rqs (activate_task p c st) = rqs (update_clocks c st)"
  "param (activate_task p c st) = param st" "cpu_online_map (activate_task p c st) = cpu_online_map st"
  "jiffies (activate_task p c st) = jiffies st" "env (activate_task p c st) = env st"
  "ipis (activate_task p c st) = ipis st" "rr_interval (activate_task p c st) = rr_interval st"
  "prio_ratios (activate_task p c st) = prio_ratios st"
  by (simp_all add: activate_task_def Let_def inc_qnr_def)

lemma activate_task_grq [frame, simp]:
  "nr_running (grq (activate_task p c st)) = u64 (nr_running (grq st) + 1)"
  "cpu_idle_map (grq (activate_task p c st)) = cpu_idle_map (grq st)"
  "idle_cpus (grq (activate_task p c st)) = idle_cpus (grq st)"
  "iso_refractory (grq (activate_task p c st)) = iso_refractory (grq st)"
  "qnr (grq (activate_task p c st)) = u64 (qnr (grq st) + 1)"
  by (simp_all add: activate_task_def Let_def enqueue_task_grq)

lemma activate_task_nr_uninterruptible:
  "nr_uninterruptible (grq (activate_task p c st)) =
     (if task_contributes_to_load (tasks st p) then u64 (nr_uninterruptible (grq st) - 1)
      else nr_uninterruptible (grq st))"
  by (simp add: activate_task_def Let_def enqueue_task_grq task_contributes_to_load_def)

lemma activate_task_queue:
  "queue (grq (activate_task p c st)) =
     (let i = nat (enqueue_prio (set_effective_prio (tasks st p)) st)
      in (queue (grq st))(i := queue (grq st) i @ [p]))"
  by (simp add: activate_task_def Let_def enqueue_task_grq)

lemma activate_task_queue_ok:
  assumes "queue_ok st" and "\<not> task_queued p st" and "\<not> on_cpu (tasks st p)" and "p < TASK_LIMIT"
    and "pol_ok (tasks st p)"
  shows "queue_ok (activate_task p c st)" and "task_queued p (activate_task p c st)"
    and "qtotal (queue (grq (activate_task p c st))) = Suc (qtotal (queue (grq st)))"
proof -
  let ?s1 = "update_clocks c st"
  let ?s2 = "upd_task p set_effective_prio ?s1"
  let ?s3 = "if task_contributes_to_load (tasks ?s2 p)
    then upd_grq (\<lambda>g. g\<lparr>nr_uninterruptible := u64 (nr_uninterruptible g - 1)\<rparr>) ?s2 else ?s2"
  have q: "qs_ok {} st" "qnr (grq st) = int (qtotal (queue (grq st)))"
    using assms(1) by (simp_all add: queue_ok_qs)
  have nq: "p \<notin> set (queue (grq st) j)" for j
    using assms(2) qs_ok_queued [OF q(1)] by blast
  have f: "queue (grq ?s3) = queue (grq st)" "prio_bitmap (grq ?s3) = prio_bitmap (grq st)"
    "tasks ?s3 = (tasks st)(p := set_effective_prio (tasks st p))"
    by simp_all
  have s3: "qs_ok {} ?s3"
    by (rule qs_ok_cong [OF q(1) f(1,2)]) (use nq f in auto)
  have e: "qs_ok {} (enqueue_task p ?s3)"
    "qtotal (queue (grq (enqueue_task p ?s3))) = Suc (qtotal (queue (grq st)))"
    using enqueue_task_qs_ok [OF s3, of p] nq assms(3-5) f
    by (simp_all add: set_effective_prio_enq_ok)
  have a: "activate_task p c st =
      inc_qnr (upd_grq (\<lambda>g. g\<lparr>nr_running := u64 (nr_running g + 1)\<rparr>) (enqueue_task p ?s3))"
    by (simp add: activate_task_def Let_def)
  have qe: "queue (grq (activate_task p c st)) = queue (grq (enqueue_task p ?s3))"
    and be: "prio_bitmap (grq (activate_task p c st)) = prio_bitmap (grq (enqueue_task p ?s3))"
    and te: "tasks (activate_task p c st) = tasks (enqueue_task p ?s3)"
    unfolding a by simp_all
  have qs: "qs_ok {} (activate_task p c st)"
    using e(1) unfolding qs_ok_def qe be te .
  show t: "qtotal (queue (grq (activate_task p c st))) = Suc (qtotal (queue (grq st)))"
    unfolding qe by (rule e(2))
  have "qtotal (queue (grq st)) \<le> TASK_LIMIT"
    using q(1) qtotal_limit by (auto simp: qs_ok_def)
  then show "queue_ok (activate_task p c st)"
    using qs t q(2) small_task_sets [of "qtotal (queue (grq st))"] by (simp add: queue_ok_qs u64_id)
  show "task_queued p (activate_task p c st)"
    unfolding qs_ok_queued [OF qs] activate_task_queue
    by (auto simp: Let_def intro!: exI [of _ "nat (enqueue_prio (set_effective_prio (tasks st p)) st)"])
qed

section \<open>Taking a task and giving it back\<close>

lemma take_task_tasks:
  "tasks (take_task c p st) = (tasks st)(p := (tasks st p)\<lparr>task_cpu := c, sticky := False\<rparr>)"
  by (simp add: take_task_def clear_sticky_def set_task_cpu_def)

lemma take_task_frame [frame, simp]:
  "rqs (take_task c p st) = rqs st" "param (take_task c p st) = param st"
  "cpu_online_map (take_task c p st) = cpu_online_map st" "ipis (take_task c p st) = ipis st"
  "jiffies (take_task c p st) = jiffies st" "env (take_task c p st) = env st"
  "rr_interval (take_task c p st) = rr_interval st" "prio_ratios (take_task c p st) = prio_ratios st"
  "nr_running (grq (take_task c p st)) = nr_running (grq st)"
  "cpu_idle_map (grq (take_task c p st)) = cpu_idle_map (grq st)"
  "idle_cpus (grq (take_task c p st)) = idle_cpus (grq st)"
  "niffies (grq (take_task c p st)) = niffies (grq st)"
  "queue (grq (take_task c p st)) = (\<lambda>j. remove1 p (queue (grq st) j))"
  "qnr (grq (take_task c p st)) = u64 (qnr (grq st) - 1)"
  by (simp_all add: take_task_def clear_sticky_def set_task_cpu_def dequeue_task_grq Let_def
      dec_qnr_def)

lemma take_task_ok:
  assumes "qs_ok S st" and "qnr (grq st) = int (qtotal (queue (grq st)))" and "p \<in> set (queue (grq st) i)"
  shows "qs_ok S (take_task c p st)" and "\<And>j. p \<notin> set (queue (grq (take_task c p st)) j)"
    and "qnr (grq (take_task c p st)) = int (qtotal (queue (grq (take_task c p st))))"
    and "Suc (qtotal (queue (grq (take_task c p st)))) = qtotal (queue (grq st))"
proof -
  let ?s = "set_task_cpu p c st"
  have s: "qs_ok S ?s" "p \<in> set (queue (grq ?s) i)"
    by (rule qs_ok_cong [OF assms(1)]) (use assms(3) in \<open>auto simp: set_task_cpu_def\<close>)
  note d = dequeue_task_qs_ok [OF s]
  have g: "queue (grq (take_task c p st)) = queue (grq (dequeue_task p ?s))"
    "prio_bitmap (grq (take_task c p st)) = prio_bitmap (grq (dequeue_task p ?s))"
    by (simp_all add: take_task_def clear_sticky_def)
  show "qs_ok S (take_task c p st)"
    by (rule qs_ok_cong [OF d(1) g]) (auto simp: take_task_tasks set_task_cpu_def)
  show "p \<notin> set (queue (grq (take_task c p st)) j)" for j
    unfolding g by (rule d(3))
  show t: "Suc (qtotal (queue (grq (take_task c p st)))) = qtotal (queue (grq st))"
    unfolding g using d(2) by (simp add: set_task_cpu_def)
  have "qtotal (queue (grq st)) \<le> TASK_LIMIT"
    using assms(1) qtotal_limit by (auto simp: qs_ok_def)
  then have "in_u64 (int (qtotal (queue (grq (take_task c p st)))))"
    using t small_task_sets by simp
  moreover have "int (qtotal (queue (grq st))) - 1 = int (qtotal (queue (grq (take_task c p st))))"
    using t by simp
  ultimately show "qnr (grq (take_task c p st)) = int (qtotal (queue (grq (take_task c p st))))"
    using assms(2) u64_id by (simp del: take_task_frame(13) add: take_task_frame(14))
qed

lemma deactivate_task_tasks: "tasks (deactivate_task p st) = (tasks st)(p := (tasks st p)\<lparr>sticky := False\<rparr>)"
  by (simp add: deactivate_task_def clear_sticky_def Let_def)

lemma deactivate_task_frame [frame, simp]:
  "rqs (deactivate_task p st) = rqs st" "param (deactivate_task p st) = param st"
  "cpu_online_map (deactivate_task p st) = cpu_online_map st" "ipis (deactivate_task p st) = ipis st"
  "rr_interval (deactivate_task p st) = rr_interval st" "prio_ratios (deactivate_task p st) = prio_ratios st"
  "nr_running (grq (deactivate_task p st)) = u64 (nr_running (grq st) - 1)"
  "cpu_idle_map (grq (deactivate_task p st)) = cpu_idle_map (grq st)"
  "idle_cpus (grq (deactivate_task p st)) = idle_cpus (grq st)"
  "queue (grq (deactivate_task p st)) = queue (grq st)"
  "prio_bitmap (grq (deactivate_task p st)) = prio_bitmap (grq st)"
  "qnr (grq (deactivate_task p st)) = qnr (grq st)"
  "niffies (grq (deactivate_task p st)) = niffies (grq st)"
  by (simp_all add: deactivate_task_def clear_sticky_def Let_def)

text \<open>Returning a task: off the processor it either waits in its queue or is no longer counted.\<close>

lemma return_task_ok:
  assumes "qs_ok S st" and "qnr (grq st) = int (qtotal (queue (grq st)))"
    and "\<And>j. p \<notin> set (queue (grq st) j)" and "p \<in> S" and "p < TASK_LIMIT" and "enq_ok (tasks st p)"
  shows "qs_ok S (return_task p d st)"
    and "qnr (grq (return_task p d st)) = int (qtotal (queue (grq (return_task p d st))))"
    and "qtotal (queue (grq (return_task p d st))) = qtotal (queue (grq st)) + (if d then 0 else 1)"
proof -
  have "qs_ok S (return_task p d st) \<and>
    qnr (grq (return_task p d st)) = int (qtotal (queue (grq (return_task p d st)))) \<and>
    qtotal (queue (grq (return_task p d st))) = qtotal (queue (grq st)) + (if d then 0 else 1)"
  proof (cases d)
    case True
    have "qs_ok S (deactivate_task p st)"
      by (rule qs_ok_cong [OF assms(1)]) (auto simp: deactivate_task_tasks)
    with True assms(2) show ?thesis by (simp add: return_task_def)
  next
    case False
    let ?s = "inc_qnr st"
    have s: "qs_ok S ?s" by (rule qs_ok_cong [OF assms(1)]) auto
    note e = enqueue_task_qs_ok [OF s, of p]
    have "qtotal (queue (grq st)) \<le> TASK_LIMIT"
      using assms(1) qtotal_limit by (auto simp: qs_ok_def)
    then have "u64 (int (qtotal (queue (grq st))) + 1) = int (qtotal (queue (grq st))) + 1"
      using small_task_sets u64_id by blast
    then show ?thesis
      using e assms False by (simp add: return_task_def enqueue_task_grq Let_def)
  qed
  then show "qs_ok S (return_task p d st)"
    "qnr (grq (return_task p d st)) = int (qtotal (queue (grq (return_task p d st))))"
    "qtotal (queue (grq (return_task p d st))) = qtotal (queue (grq st)) + (if d then 0 else 1)"
    by blast+
qed

lemma return_task_frame [frame, simp]:
  "rqs (return_task p d st) = rqs st" "param (return_task p d st) = param st"
  "cpu_online_map (return_task p d st) = cpu_online_map st" "ipis (return_task p d st) = ipis st"
  "rr_interval (return_task p d st) = rr_interval st" "prio_ratios (return_task p d st) = prio_ratios st"
  "nr_running (grq (return_task p d st)) = (if d then u64 (nr_running (grq st) - 1) else nr_running (grq st))"
  "cpu_idle_map (grq (return_task p d st)) = cpu_idle_map (grq st)"
  "idle_cpus (grq (return_task p d st)) = idle_cpus (grq st)"
  "niffies (grq (return_task p d st)) = niffies (grq st)"
  by (simp_all add: return_task_def enqueue_task_grq Let_def)

lemma return_task_tasks:
  "r \<noteq> p \<Longrightarrow> tasks (return_task p d st) r = tasks st r"
  "on_cpu (tasks (return_task p d st) r) = on_cpu (tasks st r)"
  "task_cpu (tasks (return_task p d st) r) = task_cpu (tasks st r)"
  "tif_need_resched (tasks (return_task p d st) r) = tif_need_resched (tasks st r)"
  "policy (tasks (return_task p d st) r) = policy (tasks st r)"
  "rt_priority (tasks (return_task p d st) r) = rt_priority (tasks st r)"
  "normal_prio (tasks (return_task p d st) r) = normal_prio (tasks st r)"
  "static_prio (tasks (return_task p d st) r) = static_prio (tasks st r)"
  "deadline (tasks (return_task p d st) r) = deadline (tasks st r)"
  "cpus_allowed (tasks (return_task p d st) r) = cpus_allowed (tasks st r)"
  "state (tasks (return_task p d st) r) = state (tasks st r)"
  by (simp_all add: return_task_def enqueue_task_tasks deactivate_task_tasks inc_qnr_def)

section \<open>The linked queues\<close>

text \<open>
  The pointer operations: queue \<open>i\<close> hangs off the head \<open>H i\<close> (\<open>grq.queue + i\<close>) and task \<open>p\<close> is
  linked by the node \<open>N p\<close> (\<open>&p->run_list\<close>).
\<close>

definition ptr_task_queued :: "(tid \<Rightarrow> 'a) \<Rightarrow> tid \<Rightarrow> 'a lheap \<Rightarrow> bool" where
  "ptr_task_queued N p h \<longleftrightarrow> \<not> list_empty (N p) h"

definition ptr_dequeue_task ::
  "(nat \<Rightarrow> 'a) \<Rightarrow> (tid \<Rightarrow> 'a) \<Rightarrow> tid \<Rightarrow> nat \<Rightarrow> 'a lheap \<times> bitmap \<Rightarrow> 'a lheap \<times> bitmap" where
  "ptr_dequeue_task H N p i s =
     (let h = list_del_init (N p) (fst s)
      in (h, if list_empty (H i) h then clear_bit_na i (snd s) else snd s))"

definition ptr_enqueue_task ::
  "(nat \<Rightarrow> 'a) \<Rightarrow> (tid \<Rightarrow> 'a) \<Rightarrow> tid \<Rightarrow> nat \<Rightarrow> 'a lheap \<times> bitmap \<Rightarrow> 'a lheap \<times> bitmap" where
  "ptr_enqueue_task H N p i s = (list_add_tail (N p) (H i) (fst s), set_bit_na i (snd s))"

definition ptr_rep :: "(nat \<Rightarrow> 'a) \<Rightarrow> (tid \<Rightarrow> 'a) \<Rightarrow> 'a lheap \<times> bitmap \<Rightarrow> kstate \<Rightarrow> bool" where
  "ptr_rep H N s st \<longleftrightarrow> run_lists dlist H N (fst s) (queue (grq st)) \<and> snd s = prio_bitmap (grq st)"

lemma ptr_enqueue_refines:
  assumes "ptr_rep H N s st" and "\<And>j. p \<notin> set (queue (grq st) j)"
  shows "ptr_rep H N (ptr_enqueue_task H N p (nat (enqueue_prio (tasks st p) st)) s) (enqueue_task p st)"
  using assms kl.enqueue_tail_refines [of H N "fst s" "queue (grq st)" p]
  by (simp add: ptr_rep_def ptr_enqueue_task_def enqueue_task_grq Let_def)

lemma ptr_dequeue_refines:
  assumes "ptr_rep H N s st" and "qs_ok S st" and "p \<in> set (queue (grq st) i)"
  shows "ptr_rep H N (ptr_dequeue_task H N p (nat (prio (tasks st p))) s) (dequeue_task p st)"
proof -
  have q: "queues_ok (queue (grq st)) (off S (tasks st))" using assms(2) by (simp add: qs_ok_def)
  have pr: "nat (prio (tasks st p)) = i" using qs_okD(1) [OF assms(2,3)] by simp
  have r: "run_lists dlist H N (list_del_init (N p) (fst s)) ((queue (grq st))(i := remove1 p (queue (grq st) i)))"
    using assms(1,3) queues_ok_distinct [OF q] by (intro kl.dequeue_refines) (simp_all add: ptr_rep_def)
  have "list_empty (H i) (list_del_init (N p) (fst s)) \<longleftrightarrow> remove1 p (queue (grq st) i) = []"
    using kl.queue_empty_iff [OF r, of i] by simp
  with r assms(1) show ?thesis
    by (simp add: ptr_rep_def ptr_dequeue_task_def dequeue_task_grq Let_def pr
        remove1_queues [OF q assms(3)])
qed

text \<open>C13. The doubly linked run queues implement the queues of the model: on a store that represents them,
  \<open>list_empty(&p->run_list)\<close> decides whether a task is queued, and the pointer and bitmap stores of
  \<open>enqueue_task\<close> (for a task not queued) and \<open>dequeue_task\<close> (for a queued one) again represent the
  queues and the bitmap of the resulting state.\<close>
theorem run_queues_refined:
  assumes "qs_ok {} st" and "ptr_rep H N s st"
  shows "(ptr_task_queued N p (fst s) \<longleftrightarrow> task_queued p st) \<and>
    (if task_queued p st
     then ptr_rep H N (ptr_dequeue_task H N p (nat (prio (tasks st p))) s) (dequeue_task p st)
     else ptr_rep H N (ptr_enqueue_task H N p (nat (enqueue_prio (tasks st p) st)) s) (enqueue_task p st))"
proof -
  note t = qs_ok_queued [OF assms(1)]
  have "ptr_task_queued N p (fst s) \<longleftrightarrow> task_queued p st"
    using kl.queued_iff_nonempty [of H N "fst s" "queue (grq st)" p] assms(2)
    by (simp add: ptr_task_queued_def ptr_rep_def t)
  moreover have "ptr_rep H N (ptr_dequeue_task H N p (nat (prio (tasks st p))) s) (dequeue_task p st)"
    if "task_queued p st"
    using that ptr_dequeue_refines [OF assms(2,1)] unfolding t by blast
  moreover have "ptr_rep H N (ptr_enqueue_task H N p (nat (enqueue_prio (tasks st p) st)) s) (enqueue_task p st)"
    if "\<not> task_queued p st"
    using that ptr_enqueue_refines [OF assms(2)] unfolding t by blast
  ultimately show ?thesis by simp
qed

text \<open>An empty system: all lists empty, only the sentinel bit set.\<close>

lemma qs_ok_empty:
  assumes "queue (grq st) = (\<lambda>_. [])" and "prio_bitmap (grq st) = set_bit_na (nat PRIO_LIMIT) (\<lambda>_. 0)"
  shows "qs_ok S st"
proof -
  have "\<not> test_bit i (\<lambda>_. 0)" for i by (simp add: test_bit_iff)
  with assms show ?thesis by (auto simp: qs_ok_def queues_ok_def bits_ok_def kb.tracks_def)
qed

theorem run_queues_refined_witness:
  "let st = zero_kstate\<lparr>grq := zero_grq\<lparr>prio_bitmap := set_bit_na 104 (\<lambda>_. 0)\<rparr>\<rparr>;
       s = (\<lparr>next_of = id, prev_of = id\<rparr>, set_bit_na 104 (\<lambda>_. 0)) in
   ptr_rep (\<lambda>i. 2 * i) (\<lambda>p. 2 * p + 1)
     (ptr_enqueue_task (\<lambda>i. 2 * i) (\<lambda>p. 2 * p + 1) 7 (nat (enqueue_prio (tasks st 7) st)) s) (enqueue_task 7 st)"
proof -
  let ?st = "zero_kstate\<lparr>grq := zero_grq\<lparr>prio_bitmap := set_bit_na 104 (\<lambda>_. 0)\<rparr>\<rparr>"
  let ?s = "(\<lparr>next_of = id, prev_of = id\<rparr> :: nat lheap, set_bit_na 104 (\<lambda>_. 0) :: bitmap)"
  have q: "qs_ok {} ?st" by (rule qs_ok_empty) (simp_all add: zero_grq_def)
  have "2 * i \<noteq> 2 * p + (1::nat)" for i p by presburger
  then have r: "ptr_rep (\<lambda>i. 2 * i) (\<lambda>p. 2 * p + 1) ?s ?st"
    by (simp add: ptr_rep_def run_lists_def zero_grq_def inj_def dlist_def)
  have "\<not> task_queued 7 ?st" by (simp add: task_queued_def zero_grq_def list_ex_iff)
  with run_queues_refined [OF q r, of 7] show ?thesis by (simp add: Let_def)
qed

end
