(* ===== verification/Sched_Preempt.thy ===== *)
theory Sched_Preempt
  imports Sched_Queue
begin

text \<open>
  Choosing a processor (\<open>kernel/sched_bfs.c\<close>, lines 1036 to 1140, 1293 to 1345, 1392 to 1722 and 7013
  to 7033): marking a task for rescheduling, the ranking of idle processors, sticky tasks, the choice of
  the task to preempt, and the loop that waits for a task to leave its processor.  The loops are shown to find the
  closest idle processor and the least important running task.
\<close>

unbundle bit_operations_syntax

section \<open>Marking a task for rescheduling\<close>

text \<open>\<open>this\<close> is the processor that executes; a reschedule interrupt is recorded in \<open>ipis\<close>.\<close>

definition smp_send_reschedule :: "cpu \<Rightarrow> kstate \<Rightarrow> kstate" where
  "smp_send_reschedule c st = st\<lparr>ipis := ipis st @ [c]\<rparr>"

definition resched_task :: "cpu \<Rightarrow> tid \<Rightarrow> kstate \<Rightarrow> kstate" where
  "resched_task this p st =
     (if tif_need_resched (tasks st p) then st
      else let st = upd_task p (\<lambda>t. t\<lparr>tif_need_resched := True\<rparr>) st;
               c = task_cpu (tasks st p)
           in if c = this then st
              else if \<not> tif_polling (tasks st p) then smp_send_reschedule c st else st)"

definition task_curr :: "tid \<Rightarrow> kstate \<Rightarrow> bool" where
  "task_curr p st \<longleftrightarrow> curr (rqs st (task_cpu (tasks st p))) = p"

definition kick_process :: "cpu \<Rightarrow> tid \<Rightarrow> kstate \<Rightarrow> kstate" where
  "kick_process this p st =
     (let c = task_cpu (tasks st p)
      in if c \<noteq> this \<and> task_curr p st then smp_send_reschedule c st else st)"

section \<open>Idle processors\<close>

definition rq_idle :: "rq \<Rightarrow> bool" where
  "rq_idle r \<longleftrightarrow> rq_prio r = PRIO_LIMIT"

definition sole_cpu_idle :: "cpu \<Rightarrow> kstate \<Rightarrow> bool" where
  "sole_cpu_idle c st \<longleftrightarrow> rq_idle (rqs st c)"

definition siblings_cpu_idle :: "cpu \<Rightarrow> kstate \<Rightarrow> bool" where
  "siblings_cpu_idle c st \<longleftrightarrow> smt_siblings (rqs st c) \<subseteq> cpu_idle_map (grq st)"

definition cache_cpu_idle :: "cpu \<Rightarrow> kstate \<Rightarrow> bool" where
  "cache_cpu_idle c st \<longleftrightarrow> cache_siblings (rqs st c) \<subseteq> cpu_idle_map (grq st)"

text \<open>The function pointers \<open>siblings_idle\<close> and \<open>cache_idle\<close> of a run queue: the flag tells whether the
  function over the sibling mask is installed or the one for a processor with no siblings.\<close>

definition call_siblings_idle :: "cpu \<Rightarrow> kstate \<Rightarrow> bool" where
  "call_siblings_idle c st =
     (if siblings_idle (rqs st c) then siblings_cpu_idle c st else sole_cpu_idle c st)"

definition call_cache_idle :: "cpu \<Rightarrow> kstate \<Rightarrow> bool" where
  "call_cache_idle c st = (if cache_idle (rqs st c) then cache_cpu_idle c st else sole_cpu_idle c st)"

definition CPUIDLE_DIFF_THREAD :: int where "CPUIDLE_DIFF_THREAD = 1"
definition CPUIDLE_DIFF_CORE :: int where "CPUIDLE_DIFF_CORE = 2"
definition CPUIDLE_CACHE_BUSY :: int where "CPUIDLE_CACHE_BUSY = 4"
definition CPUIDLE_DIFF_CPU :: int where "CPUIDLE_DIFF_CPU = 8"
definition CPUIDLE_THREAD_BUSY :: int where "CPUIDLE_THREAD_BUSY = 16"
definition CPUIDLE_DIFF_NODE :: int where "CPUIDLE_DIFF_NODE = 32"

lemmas cpuidle_defs = CPUIDLE_DIFF_THREAD_def CPUIDLE_DIFF_CORE_def CPUIDLE_CACHE_BUSY_def
  CPUIDLE_DIFF_CPU_def CPUIDLE_THREAD_BUSY_def CPUIDLE_DIFF_NODE_def

text \<open>The ranking of processor \<open>d\<close> as seen from run queue \<open>c\<close>.\<close>

definition cpu_ranking :: "cpu \<Rightarrow> cpu \<Rightarrow> kstate \<Rightarrow> int" where
  "cpu_ranking c d st =
     (let loc = cpu_locality (rqs st c) d;
          ranking = (if loc > 3 then CPUIDLE_DIFF_NODE else if loc > 2 then CPUIDLE_DIFF_CPU else 0);
          ranking = (if loc = 2 then ranking OR CPUIDLE_DIFF_CORE else ranking);
          ranking = (if \<not> call_cache_idle d st then ranking OR CPUIDLE_CACHE_BUSY else ranking);
          ranking = (if loc = 1 then ranking OR CPUIDLE_DIFF_THREAD else ranking)
      in if \<not> call_siblings_idle d st then ranking OR CPUIDLE_THREAD_BUSY else ranking)"

definition worst_ranking :: int where
  "worst_ranking = CPUIDLE_DIFF_NODE OR CPUIDLE_THREAD_BUSY OR CPUIDLE_DIFF_CPU OR CPUIDLE_CACHE_BUSY OR
     CPUIDLE_DIFF_CORE OR CPUIDLE_DIFF_THREAD"

definition resched_best_mask :: "cpu \<Rightarrow> cpu \<Rightarrow> cpu \<Rightarrow> cpumask \<Rightarrow> kstate \<Rightarrow> kstate" where
  "resched_best_mask this best_cpu c tmpmask st =
     (let best_cpu =
        (if best_cpu \<in> tmpmask then best_cpu
         else fst (fold (\<lambda>cpu_tmp (best_cpu, best_ranking).
                     if cpu_ranking c cpu_tmp st < best_ranking then (cpu_tmp, cpu_ranking c cpu_tmp st)
                     else (best_cpu, best_ranking))
                (for_each_cpu tmpmask) (best_cpu, worst_ranking)))
      in resched_task this (curr (rqs st best_cpu)) st)"

definition resched_best_idle :: "cpu \<Rightarrow> tid \<Rightarrow> kstate \<Rightarrow> kstate" where
  "resched_best_idle this p st =
     resched_best_mask this (task_cpu (tasks st p)) (task_cpu (tasks st p))
       (cpus_allowed (tasks st p) \<inter> cpu_idle_map (grq st)) st"

definition resched_suitable_idle :: "cpu \<Rightarrow> tid \<Rightarrow> kstate \<Rightarrow> kstate" where
  "resched_suitable_idle this p st =
     (if suitable_idle_cpus p st then resched_best_idle this p st else st)"

definition cpu_scaling :: "cpu \<Rightarrow> kstate \<Rightarrow> kstate" where
  "cpu_scaling c = upd_rq c (\<lambda>r. r\<lparr>scaling := True\<rparr>)"

definition cpu_nonscaling :: "cpu \<Rightarrow> kstate \<Rightarrow> kstate" where
  "cpu_nonscaling c = upd_rq c (\<lambda>r. r\<lparr>scaling := False\<rparr>)"

definition scaling_rq :: "rq \<Rightarrow> bool" where
  "scaling_rq r \<longleftrightarrow> scaling r"

section \<open>Sticky tasks\<close>

definition task_sticky :: "tid \<Rightarrow> kstate \<Rightarrow> bool" where
  "task_sticky p st \<longleftrightarrow> sticky (tasks st p)"

text \<open>Run queue and processor are passed separately in the code; both call sites pass \<open>cpu_of(rq)\<close>.\<close>

definition resched_closest_idle :: "cpu \<Rightarrow> cpu \<Rightarrow> tid \<Rightarrow> kstate \<Rightarrow> kstate" where
  "resched_closest_idle this c p st =
     (let tmpmask = cpus_allowed (tasks st p) \<inter> cpu_idle_map (grq st) - {c}
      in if tmpmask = {} then st else resched_best_mask this c c tmpmask st)"

definition swap_sticky :: "cpu \<Rightarrow> cpu \<Rightarrow> tid \<Rightarrow> kstate \<Rightarrow> kstate" where
  "swap_sticky this c p st =
     (if sticky_task (rqs st c) = Some p then upd_task p (\<lambda>t. t\<lparr>sticky := True\<rparr>) st
      else let st = (case sticky_task (rqs st c) of None \<Rightarrow> st
                     | Some q \<Rightarrow> if task_sticky q st then resched_closest_idle this c q (clear_sticky q st) else st)
           in if \<not> rt_task (tasks st p)
              then upd_rq c (\<lambda>r. r\<lparr>sticky_task := Some p\<rparr>) (upd_task p (\<lambda>t. t\<lparr>sticky := True\<rparr>) st)
              else upd_rq c (\<lambda>r. r\<lparr>sticky_task := None\<rparr>) (resched_closest_idle this c p st))"

definition unstick_task :: "cpu \<Rightarrow> tid \<Rightarrow> kstate \<Rightarrow> kstate" where
  "unstick_task c p st = clear_sticky p (upd_rq c (\<lambda>r. r\<lparr>sticky_task := None\<rparr>) st)"

section \<open>Preemption\<close>

definition can_preempt :: "task_struct \<Rightarrow> int \<Rightarrow> int \<Rightarrow> bool" where
  "can_preempt p pr dl \<longleftrightarrow>
     (if prio p < pr then True
      else if prio p > pr then False
      else if \<not> deadline_before (deadline p) dl then False
      else True)"

definition online_cpus :: "tid \<Rightarrow> kstate \<Rightarrow> bool" where
  "online_cpus p st \<longleftrightarrow> cpu_online_map st \<inter> cpus_allowed (tasks st p) \<noteq> {}"

definition needs_other_cpu :: "task_struct \<Rightarrow> cpu \<Rightarrow> bool" where
  "needs_other_cpu p c \<longleftrightarrow> c \<notin> cpus_allowed p"

text \<open>One turn of the loop of \<open>try_preempt\<close> on \<open>(highest_prio_rq, highest_prio, latest_deadline)\<close>.\<close>

definition preempt_scan :: "kstate \<Rightarrow> cpu \<Rightarrow> cpu \<times> int \<times> int \<Rightarrow> cpu \<times> int \<times> int" where
  "preempt_scan st c = (\<lambda>(highest_prio_rq, highest_prio, latest_deadline).
     let r = rqs st c
     in if rq_prio r < highest_prio then (highest_prio_rq, highest_prio, latest_deadline)
        else if rq_prio r > highest_prio \<or> deadline_after (rq_deadline r) latest_deadline
        then (c, rq_prio r, rq_deadline r)
        else (highest_prio_rq, highest_prio, latest_deadline))"

definition try_preempt :: "cpu \<Rightarrow> tid \<Rightarrow> cpu \<Rightarrow> kstate \<Rightarrow> kstate" where
  "try_preempt this p c st =
     (let st = clear_sticky p st
      in if suitable_idle_cpus p st then resched_best_idle this p st
         else if policy (tasks st p) = SCHED_IDLEPRIO then st
         else if \<not> online_cpus p st then st
         else case fold (preempt_scan st) (for_each_cpu (cpu_online_map st \<inter> cpus_allowed (tasks st p)))
                     (c, prio (tasks st p), rq_deadline (rqs st c)) of
              (v, highest_prio, latest_deadline) \<Rightarrow>
                if \<not> can_preempt (tasks st p) highest_prio (rq_deadline (rqs st v)) then st
                else resched_task this (curr (rqs st v)) st)"

section \<open>Waiting for a task to become inactive\<close>

text \<open>The loop reads the shared state at successive moments; the list holds the states it sees, one for
  each read.  None means it is still waiting after them.  The timed sleep of a waiter that finds the
  task queued happens between two reads.\<close>

datatype wait_phase = Fetch_rq | Spin cpu | Look_locked

fun wait_task_inactive :: "tid \<Rightarrow> int \<Rightarrow> wait_phase \<Rightarrow> kstate list \<Rightarrow> int option" where
  "wait_task_inactive p match_state ph [] = None"
| "wait_task_inactive p match_state Fetch_rq (st # obs) =
     wait_task_inactive p match_state (Spin (task_cpu (tasks st p))) obs"
| "wait_task_inactive p match_state (Spin c) (st # obs) =
     (if task_running p st \<and> curr (rqs st c) = p
      then (if match_state \<noteq> 0 \<and> state (tasks st p) \<noteq> match_state then Some 0
            else wait_task_inactive p match_state (Spin c) obs)
      else wait_task_inactive p match_state Look_locked obs)"
| "wait_task_inactive p match_state Look_locked (st # obs) =
     (let ncsw = (if match_state = 0 \<or> state (tasks st p) = match_state
                  then nvcsw (tasks st p) OR 9223372036854775808 else 0)
      in if ncsw = 0 then Some ncsw
         else if task_running p st then wait_task_inactive p match_state Fetch_rq obs
         else if task_queued p st then wait_task_inactive p match_state Fetch_rq obs
         else Some ncsw)"

section \<open>What marking a task changes\<close>

lemma smp_send_reschedule_frame [frame, simp]:
  "tasks (smp_send_reschedule c st) = tasks st" "rqs (smp_send_reschedule c st) = rqs st"
  "grq (smp_send_reschedule c st) = grq st" "param (smp_send_reschedule c st) = param st"
  "cpu_online_map (smp_send_reschedule c st) = cpu_online_map st" "jiffies (smp_send_reschedule c st) = jiffies st"
  "env (smp_send_reschedule c st) = env st" "kstat (smp_send_reschedule c st) = kstat st"
  "rr_interval (smp_send_reschedule c st) = rr_interval st" "prio_ratios (smp_send_reschedule c st) = prio_ratios st"
  "sched_iso_cpu (smp_send_reschedule c st) = sched_iso_cpu st" "mm_count (smp_send_reschedule c st) = mm_count st"
  "sds (smp_send_reschedule c st) = sds st" "ipis (smp_send_reschedule c st) = ipis st @ [c]"
  by (simp_all add: smp_send_reschedule_def)

text \<open>All that rescheduling decisions can change: reschedule flags, sticky marks, the log of interrupts.\<close>

definition resched_frame :: "kstate \<Rightarrow> kstate \<Rightarrow> bool" where
  "resched_frame st st' \<longleftrightarrow>
     (\<exists>f s k i. st' = st\<lparr>tasks := (\<lambda>p. (tasks st p)\<lparr>tif_need_resched := f p, sticky := s p\<rparr>),
        rqs := (\<lambda>c. (rqs st c)\<lparr>sticky_task := k c\<rparr>), ipis := i\<rparr>)"

lemma resched_frameI:
  assumes "st' = st\<lparr>tasks := (\<lambda>p. (tasks st p)\<lparr>tif_need_resched := f p, sticky := s p\<rparr>),
        rqs := (\<lambda>c. (rqs st c)\<lparr>sticky_task := k c\<rparr>), ipis := i\<rparr>"
  shows "resched_frame st st'"
  using assms unfolding resched_frame_def by blast

lemma resched_frame_refl [simp]: "resched_frame st st"
  by (rule resched_frameI [where f = "\<lambda>p. tif_need_resched (tasks st p)" and s = "\<lambda>p. sticky (tasks st p)"
        and k = "\<lambda>c. sticky_task (rqs st c)" and i = "ipis st"]) simp

lemma resched_frame_trans [trans]:
  assumes "resched_frame a b" and "resched_frame b c"
  shows "resched_frame a c"
proof -
  from assms(1) obtain f s k i where b: "b = a\<lparr>tasks := (\<lambda>p. (tasks a p)\<lparr>tif_need_resched := f p, sticky := s p\<rparr>),
        rqs := (\<lambda>c. (rqs a c)\<lparr>sticky_task := k c\<rparr>), ipis := i\<rparr>" unfolding resched_frame_def by blast
  from assms(2) obtain f' s' k' i' where c: "c = b\<lparr>tasks := (\<lambda>p. (tasks b p)\<lparr>tif_need_resched := f' p, sticky := s' p\<rparr>),
        rqs := (\<lambda>c. (rqs b c)\<lparr>sticky_task := k' c\<rparr>), ipis := i'\<rparr>" unfolding resched_frame_def by blast
  show ?thesis by (rule resched_frameI [where f = f' and s = s' and k = k' and i = i']) (simp add: b c)
qed

lemma resched_frameD:
  assumes "resched_frame st st'"
  shows "grq st' = grq st" "param st' = param st" "cpu_online_map st' = cpu_online_map st" "jiffies st' = jiffies st"
    "env st' = env st" "kstat st' = kstat st" "rr_interval st' = rr_interval st" "prio_ratios st' = prio_ratios st"
    "sched_iso_cpu st' = sched_iso_cpu st" "mm_count st' = mm_count st" "sds st' = sds st"
    "prio (tasks st' p) = prio (tasks st p)" "normal_prio (tasks st' p) = normal_prio (tasks st p)"
    "static_prio (tasks st' p) = static_prio (tasks st p)" "rt_priority (tasks st' p) = rt_priority (tasks st p)"
    "policy (tasks st' p) = policy (tasks st p)" "on_cpu (tasks st' p) = on_cpu (tasks st p)"
    "task_cpu (tasks st' p) = task_cpu (tasks st p)" "state (tasks st' p) = state (tasks st p)"
    "deadline (tasks st' p) = deadline (tasks st p)" "time_slice (tasks st' p) = time_slice (tasks st p)"
    "cpus_allowed (tasks st' p) = cpus_allowed (tasks st p)" "flags (tasks st' p) = flags (tasks st p)"
    "mm (tasks st' p) = mm (tasks st p)" "active_mm (tasks st' p) = active_mm (tasks st p)"
    "curr (rqs st' c) = curr (rqs st c)" "idle (rqs st' c) = idle (rqs st c)"
    "rq_prio (rqs st' c) = rq_prio (rqs st c)" "rq_deadline (rqs st' c) = rq_deadline (rqs st c)"
    "rq_policy (rqs st' c) = rq_policy (rqs st c)" "rq_running (rqs st' c) = rq_running (rqs st c)"
    "rq_time_slice (rqs st' c) = rq_time_slice (rqs st c)"
  using assms unfolding resched_frame_def by auto

lemma resched_frame_core: "resched_frame st st' \<Longrightarrow> core st' = core st"
  by (rule coreI) (auto simp: resched_frameD task_core_def)

lemma resched_frame_upd_task:
  assumes "\<And>t. f t = t\<lparr>tif_need_resched := g t, sticky := h t\<rparr>"
  shows "resched_frame st (upd_task p f st)"
proof (rule resched_frameI)
  show "upd_task p f st = st\<lparr>tasks := (\<lambda>q. (tasks st q)\<lparr>
      tif_need_resched := (if q = p then g (tasks st p) else tif_need_resched (tasks st q)),
      sticky := (if q = p then h (tasks st p) else sticky (tasks st q))\<rparr>),
    rqs := (\<lambda>c. (rqs st c)\<lparr>sticky_task := sticky_task (rqs st c)\<rparr>), ipis := ipis st\<rparr>"
    using assms by (auto simp: upd_task_def fun_eq_iff)
qed

lemma resched_frame_ipi: "resched_frame st (smp_send_reschedule c st)"
  by (rule resched_frameI [where f = "\<lambda>p. tif_need_resched (tasks st p)" and s = "\<lambda>p. sticky (tasks st p)"
        and k = "\<lambda>c. sticky_task (rqs st c)" and i = "ipis st @ [c]"]) (simp add: smp_send_reschedule_def)

lemma resched_frame_rq: "resched_frame st (upd_rq c (\<lambda>r. r\<lparr>sticky_task := x\<rparr>) st)"
  by (rule resched_frameI [where f = "\<lambda>p. tif_need_resched (tasks st p)" and s = "\<lambda>p. sticky (tasks st p)"
        and k = "\<lambda>d. if d = c then x else sticky_task (rqs st d)" and i = "ipis st"])
    (auto simp: upd_rq_def fun_eq_iff)

lemma resched_frame_flag: "resched_frame st (upd_task p (\<lambda>t. t\<lparr>tif_need_resched := b\<rparr>) st)"
  by (rule resched_frame_upd_task [where g = "\<lambda>_. b" and h = sticky]) simp

lemma resched_frame_sticky: "resched_frame st (upd_task p (\<lambda>t. t\<lparr>sticky := b\<rparr>) st)"
  by (rule resched_frame_upd_task [where g = tif_need_resched and h = "\<lambda>_. b"]) simp

lemma resched_frame_clear_sticky: "resched_frame st (clear_sticky p st)"
  unfolding clear_sticky_def by (rule resched_frame_sticky)

lemma resched_task_frame: "resched_frame st (resched_task this p st)"
proof -
  let ?u = "upd_task p (\<lambda>t. t\<lparr>tif_need_resched := True\<rparr>) st"
  have "resched_frame st ?u" by (rule resched_frame_flag)
  moreover have "resched_frame ?u (smp_send_reschedule c ?u)" for c by (rule resched_frame_ipi)
  ultimately show ?thesis
    by (auto simp: resched_task_def Let_def intro: resched_frame_trans)
qed

lemma resched_task_tasks:
  "tasks (resched_task this p st) = (tasks st)(p := (tasks st p)\<lparr>tif_need_resched := True\<rparr>)"
  by (auto simp: resched_task_def Let_def fun_eq_iff)

lemma resched_task_rqs [frame, simp]: "rqs (resched_task this p st) = rqs st"
  by (simp add: resched_task_def Let_def)

lemma resched_task_ipis:
  "ipis (resched_task this p st) = ipis st @
     (if tif_need_resched (tasks st p) \<or> task_cpu (tasks st p) = this \<or> tif_polling (tasks st p) then []
      else [task_cpu (tasks st p)])"
  by (simp add: resched_task_def Let_def)

lemma resched_best_mask_frame: "resched_frame st (resched_best_mask this b c m st)"
  by (simp add: resched_best_mask_def Let_def resched_task_frame)

lemma resched_best_idle_frame: "resched_frame st (resched_best_idle this p st)"
  by (simp add: resched_best_idle_def resched_best_mask_frame)

lemma resched_suitable_idle_frame: "resched_frame st (resched_suitable_idle this p st)"
  by (simp add: resched_suitable_idle_def resched_best_idle_frame)

lemma resched_closest_idle_frame: "resched_frame st (resched_closest_idle this c p st)"
  by (simp add: resched_closest_idle_def Let_def resched_best_mask_frame)

lemma swap_sticky_frame: "resched_frame st (swap_sticky this c p st)"
proof -
  have a: "resched_frame st (case sticky_task (rqs st c) of None \<Rightarrow> st
      | Some q \<Rightarrow> if task_sticky q st then resched_closest_idle this c q (clear_sticky q st) else st)"
    by (auto split: option.split intro: resched_frame_trans resched_frame_clear_sticky resched_closest_idle_frame)
  have b: "resched_frame s (upd_rq c (\<lambda>r. r\<lparr>sticky_task := Some p\<rparr>) (upd_task p (\<lambda>t. t\<lparr>sticky := True\<rparr>) s))" for s
    by (rule resched_frame_trans [OF resched_frame_sticky resched_frame_rq])
  have d: "resched_frame s (upd_rq c (\<lambda>r. r\<lparr>sticky_task := None\<rparr>) (resched_closest_idle this c p s))" for s
    by (rule resched_frame_trans [OF resched_closest_idle_frame resched_frame_rq])
  show ?thesis
    unfolding swap_sticky_def Let_def
    using resched_frame_sticky resched_frame_trans [OF a b] resched_frame_trans [OF a d] by simp
qed

lemma unstick_task_frame: "resched_frame st (unstick_task c p st)"
  unfolding unstick_task_def by (rule resched_frame_trans [OF resched_frame_rq resched_frame_clear_sticky])

lemma try_preempt_frame: "resched_frame st (try_preempt this p c st)"
proof -
  note t = resched_frame_trans [OF resched_frame_clear_sticky]
  show ?thesis
    unfolding try_preempt_def Let_def
    by (auto split: prod.split intro: t [OF resched_best_idle_frame] t [OF resched_task_frame]
        resched_frame_clear_sticky)
qed

lemmas core_resched [simp] =
  resched_task_frame [THEN resched_frame_core] resched_best_idle_frame [THEN resched_frame_core]
  resched_suitable_idle_frame [THEN resched_frame_core] swap_sticky_frame [THEN resched_frame_core]
  unstick_task_frame [THEN resched_frame_core] try_preempt_frame [THEN resched_frame_core]

section \<open>The closest idle processor\<close>

interpretation rank: best_scan "(<) :: int \<Rightarrow> int \<Rightarrow> bool"
  by unfold_locales auto

lemma cpu_ranking_eq:
  "cpu_ranking c d st =
     (let loc = cpu_locality (rqs st c) d in
      (if loc > 3 then 32 else if loc > 2 then 8 else if loc = 2 then 2 else if loc = 1 then 1 else 0) +
      (if call_cache_idle d st then 0 else 4) + (if call_siblings_idle d st then 0 else 16))"
  by (simp add: cpu_ranking_def Let_def cpuidle_defs)

lemma cpu_ranking_bound: "cpu_ranking c d st < worst_ranking"
  by (simp add: cpu_ranking_eq worst_ranking_def cpuidle_defs Let_def)

lemma fold_ranking_scan:
  "fold (\<lambda>cpu_tmp (best_cpu, best_ranking).
      if cpu_ranking c cpu_tmp st < best_ranking then (cpu_tmp, cpu_ranking c cpu_tmp st)
      else (best_cpu, best_ranking)) = scan_best (<) (\<lambda>d. cpu_ranking c d st)"
  by (simp add: scan_best_def fun_eq_iff)

lemma sorted_split_first:
  assumes "sorted xs" and "xs = ys @ v # zs" and "d \<in> set xs" and "d \<notin> set ys"
  shows "v \<le> (d :: nat)"
  using assms by (auto simp: sorted_append)

lemma resched_best_mask_picks:
  assumes "m \<noteq> {}" and "m \<subseteq> {..<NR_CPUS}"
  shows "\<exists>d \<in> m. resched_best_mask this best c m st = resched_task this (curr (rqs st d)) st \<and>
    (best \<in> m \<longrightarrow> d = best) \<and>
    (best \<notin> m \<longrightarrow> (\<forall>e \<in> m. cpu_ranking c d st \<le> cpu_ranking c e st \<and>
       (cpu_ranking c e st = cpu_ranking c d st \<longrightarrow> d \<le> e)))"
proof (cases "best \<in> m")
  case True
  then show ?thesis by (auto simp: resched_best_mask_def intro!: bexI [of _ best])
next
  case False
  have s: "set (for_each_cpu m) = m" using assms(2) by auto
  obtain e where "e \<in> set (for_each_cpu m)" using s assms(1) by blast
  then obtain v where v: "scan_best (<) (\<lambda>d. cpu_ranking c d st) (for_each_cpu m) (best, worst_ranking) = (v, cpu_ranking c v st)"
    "v \<in> set (for_each_cpu m)" "\<forall>y \<in> set (for_each_cpu m). \<not> cpu_ranking c y st < cpu_ranking c v st"
    "\<exists>ys zs. for_each_cpu m = ys @ v # zs \<and> (\<forall>y \<in> set ys. cpu_ranking c v st < cpu_ranking c y st)"
    using cpu_ranking_bound by (rule rank.scan_best_some [where key = "\<lambda>d. cpu_ranking c d st" and k = worst_ranking and a = best])
  from v(4) obtain ys zs where yz: "for_each_cpu m = ys @ v # zs" "\<forall>y \<in> set ys. cpu_ranking c v st < cpu_ranking c y st"
    by blast
  have "v \<le> e" if "e \<in> m" "cpu_ranking c e st = cpu_ranking c v st" for e
    using that yz s by (intro sorted_split_first [OF sorted_for_each_cpu yz(1)]) auto
  then show ?thesis
    using False v(1-3) s
    by (intro bexI [of _ v]) (auto simp: resched_best_mask_def fold_ranking_scan not_less)
qed

lemma resched_best_mask_chosen:
  assumes "m \<noteq> {}" and "m \<subseteq> {..<NR_CPUS}"
  shows "\<exists>d \<in> m. resched_best_mask this best c m st = resched_task this (curr (rqs st d)) st"
  using resched_best_mask_picks [OF assms] by blast

text \<open>C15. \<open>resched_best_mask\<close> reschedules exactly one processor of a non-empty mask: the preferred one if it
  is in the mask, otherwise one whose ranking (locality, busy cache, busy threads) is minimal over
  the mask, the lowest-numbered among equals.\<close>
theorem resched_best_mask_optimal:
  assumes "m \<noteq> {}" and "m \<subseteq> {..<NR_CPUS}"
  shows "\<exists>d \<in> m. resched_best_mask this best c m st = resched_task this (curr (rqs st d)) st \<and>
    (best \<in> m \<longrightarrow> d = best) \<and>
    (best \<notin> m \<longrightarrow> (\<forall>e \<in> m. cpu_ranking c d st \<le> cpu_ranking c e st \<and>
       (cpu_ranking c e st = cpu_ranking c d st \<longrightarrow> d \<le> e)))"
  using assms by (rule resched_best_mask_picks)

theorem resched_best_mask_optimal_witness:
  "let st = zero_kstate\<lparr>rqs := (\<lambda>c. zero_rq\<lparr>curr := c, cpu_locality := (\<lambda>d. if d = 5 then 2 else 4)\<rparr>)\<rparr> in
   \<exists>d \<in> {2, 5}. resched_best_mask 0 0 0 {2, 5} st = resched_task 0 (curr (rqs st d)) st \<and> d = 5"
proof -
  let ?st = "zero_kstate\<lparr>rqs := (\<lambda>c. zero_rq\<lparr>curr := c, cpu_locality := (\<lambda>d. if d = 5 then 2 else 4)\<rparr>)\<rparr>"
  have r: "cpu_ranking 0 2 ?st = 52" "cpu_ranking 0 5 ?st = 22"
    by (simp_all add: cpu_ranking_eq Let_def call_cache_idle_def call_siblings_idle_def sole_cpu_idle_def
        rq_idle_def zero_rq_def)
  show ?thesis
    using resched_best_mask_optimal [of "{2, 5}" 0 0 0 ?st] r by (auto simp: NR_CPUS_def Let_def)
qed

text \<open>C16. A waking task with an allowed idle processor preempts nothing: exactly one allowed idle processor has
  its current task flagged, and that processor, if it is not the executing one, its task does not poll
  and was not flagged yet, receives a reschedule interrupt.\<close>
theorem try_preempt_wakes_idle:
  assumes "idle_map_ok st" and "cpu_online_map st \<subseteq> {..<NR_CPUS}"
    and "cpus_allowed (tasks st p) \<inter> cpu_idle_map (grq st) \<noteq> {}"
    and "\<forall>c \<in> cpu_idle_map (grq st). task_cpu (tasks st (curr (rqs st c))) = c"
  shows "\<exists>d \<in> cpus_allowed (tasks st p) \<inter> cpu_idle_map (grq st).
    let q = curr (rqs st d); st' = try_preempt this p c st in
      tif_need_resched (tasks st' q) \<and>
      (\<forall>t. t \<noteq> q \<longrightarrow> tif_need_resched (tasks st' t) = tif_need_resched (tasks st t)) \<and>
      ipis st' = ipis st @
        (if tif_need_resched (tasks st q) \<or> d = this \<or> tif_polling (tasks st q) then [] else [d])"
proof -
  let ?s = "clear_sticky p st"
  let ?m = "cpus_allowed (tasks st p) \<inter> cpu_idle_map (grq st)"
  have eqs: "cpus_allowed (tasks ?s p) \<inter> cpu_idle_map (grq ?s) = ?m" "rqs ?s = rqs st" "ipis ?s = ipis st"
    "tif_need_resched (tasks ?s t) = tif_need_resched (tasks st t)" "task_cpu (tasks ?s t) = task_cpu (tasks st t)"
    "tif_polling (tasks ?s t) = tif_polling (tasks st t)" for t
    by (simp_all add: clear_sticky_def)
  have sub: "?m \<subseteq> {..<NR_CPUS}" using assms(1,2) by (auto simp: idle_map_ok_def)
  have "suitable_idle_cpus p ?s"
    using assms(1,3) eqs(1) by (auto simp: suitable_idle_cpus_def idle_map_ok_def clear_sticky_def)
  then have "try_preempt this p c st = resched_best_idle this p ?s"
    by (simp add: try_preempt_def Let_def)
  then obtain d where d: "d \<in> ?m" "try_preempt this p c st = resched_task this (curr (rqs st d)) ?s"
    using resched_best_mask_chosen [OF assms(3) sub, of this "task_cpu (tasks ?s p)" "task_cpu (tasks ?s p)" ?s] eqs(1,2)
    by (auto simp: resched_best_idle_def)
  have "task_cpu (tasks st (curr (rqs st d))) = d" using d(1) assms(4) by blast
  then show ?thesis
    using d by (intro bexI [of _ d]) (auto simp: Let_def resched_task_tasks resched_task_ipis eqs)
qed

theorem try_preempt_wakes_idle_witness:
  "let st = zero_kstate\<lparr>cpu_online_map := {0, 1}, tasks := (\<lambda>t. zero_task\<lparr>cpus_allowed := {0, 1}, task_cpu := t\<rparr>),
        rqs := (\<lambda>c. zero_rq\<lparr>curr := c\<rparr>), grq := zero_grq\<lparr>cpu_idle_map := {1}, idle_cpus := True\<rparr>\<rparr> in
   \<exists>d \<in> {1}. tif_need_resched (tasks (try_preempt 0 7 0 st) d) \<and> ipis (try_preempt 0 7 0 st) = [d]"
  using try_preempt_wakes_idle [of "zero_kstate\<lparr>cpu_online_map := {0, 1},
      tasks := (\<lambda>t. zero_task\<lparr>cpus_allowed := {0, 1}, task_cpu := t\<rparr>),
      rqs := (\<lambda>c. zero_rq\<lparr>curr := c\<rparr>), grq := zero_grq\<lparr>cpu_idle_map := {1}, idle_cpus := True\<rparr>\<rparr>" 7 0 0]
  by (simp add: idle_map_ok_def NR_CPUS_def Let_def zero_rq_def zero_task_def zero_kstate_def)

section \<open>The task to preempt\<close>

text \<open>A run queue is a better victim than another if it runs at a worse priority, or at the same with a
  later deadline.\<close>

definition worse_running :: "int \<times> int \<Rightarrow> int \<times> int \<Rightarrow> bool" where
  "worse_running a b \<longleftrightarrow> fst a > fst b \<or> fst a = fst b \<and> snd a > snd b"

interpretation victim: best_scan worse_running
  by unfold_locales (auto simp: worse_running_def)

definition running_key :: "kstate \<Rightarrow> cpu \<Rightarrow> int \<times> int" where
  "running_key st c = (rq_prio (rqs st c), rq_deadline (rqs st c))"

lemma fold_preempt_scan: "fold (preempt_scan st) = scan_best worse_running (running_key st)"
proof -
  have "preempt_scan st = (\<lambda>x (a, k). if worse_running (running_key st x) k then (x, running_key st x) else (a, k))"
    by (auto simp: preempt_scan_def worse_running_def running_key_def deadline_after_def Let_def fun_eq_iff)
  then show ?thesis unfolding scan_best_def by (intro ext) (simp only:)
qed

lemma try_preempt_scan:
  assumes "\<not> suitable_idle_cpus p st" and "policy (tasks st p) \<noteq> SCHED_IDLEPRIO"
    and "cpu_online_map st \<inter> cpus_allowed (tasks st p) \<noteq> {}"
  shows "try_preempt this p c st =
    (case scan_best worse_running (running_key st) (for_each_cpu (cpu_online_map st \<inter> cpus_allowed (tasks st p)))
        (c, prio (tasks st p), rq_deadline (rqs st c)) of
       (v, hp, _) \<Rightarrow> if can_preempt (tasks st p) hp (rq_deadline (rqs st v))
                     then resched_task this (curr (rqs st v)) (clear_sticky p st) else clear_sticky p st)"
proof -
  have "running_key (clear_sticky p st) = running_key st"
    by (simp add: fun_eq_iff running_key_def clear_sticky_def)
  moreover have "can_preempt (tasks (clear_sticky p st) p) = can_preempt (tasks st p)"
    by (simp add: clear_sticky_def fun_eq_iff can_preempt_def)
  moreover have "suitable_idle_cpus p (clear_sticky p st) = suitable_idle_cpus p st"
    "online_cpus p (clear_sticky p st)"
    "policy (tasks (clear_sticky p st) p) = policy (tasks st p)"
    "cpus_allowed (tasks (clear_sticky p st) p) = cpus_allowed (tasks st p)"
    "prio (tasks (clear_sticky p st) p) = prio (tasks st p)" "rqs (clear_sticky p st) = rqs st"
    "cpu_online_map (clear_sticky p st) = cpu_online_map st"
    using assms(3) by (simp_all add: suitable_idle_cpus_def online_cpus_def clear_sticky_def)
  ultimately show ?thesis
    using assms(1,2) by (simp add: try_preempt_def Let_def fold_preempt_scan split: prod.split)
qed



text \<open>The scan starts from the priority of the waking task but the deadline of the executing run queue,
  whatever that run queue runs.  So when all allowed processors run more important tasks, a waking task
  whose deadline is earlier than that of the executing run queue still has its current task
  rescheduled, be it a realtime task or on a processor the waking task may not use.\<close>
theorem try_preempt_interrupts_better:
  assumes "\<not> suitable_idle_cpus p st" and "policy (tasks st p) \<noteq> SCHED_IDLEPRIO"
    and "cpu_online_map st \<inter> cpus_allowed (tasks st p) \<noteq> {}"
    and "\<forall>d \<in> cpu_online_map st \<inter> cpus_allowed (tasks st p). rq_prio (rqs st d) < prio (tasks st p)"
    and "deadline (tasks st p) < rq_deadline (rqs st c)"
  shows "tif_need_resched (tasks (try_preempt this p c st) (curr (rqs st c)))"
proof -
  let ?m = "cpu_online_map st \<inter> cpus_allowed (tasks st p)"
  have "\<forall>x \<in> set (for_each_cpu ?m). \<not> worse_running (running_key st x) (prio (tasks st p), rq_deadline (rqs st c))"
  proof
    fix x assume "x \<in> set (for_each_cpu ?m)"
    then have "rq_prio (rqs st x) < prio (tasks st p)" using assms(4) by simp
    then show "\<not> worse_running (running_key st x) (prio (tasks st p), rq_deadline (rqs st c))"
      by (auto simp: worse_running_def running_key_def)
  qed
  then have v: "scan_best worse_running (running_key st) (for_each_cpu ?m)
      (c, prio (tasks st p), rq_deadline (rqs st c)) = (c, prio (tasks st p), rq_deadline (rqs st c))"
    by (rule victim.scan_best_none)
  show ?thesis
    unfolding try_preempt_scan [OF assms(1-3)] v
    using assms(5) by (simp add: can_preempt_def deadline_before_def resched_task_tasks clear_sticky_def)
qed

theorem try_preempt_interrupts_better_witness:
  "let st = zero_kstate\<lparr>cpu_online_map := {0}, tasks := (\<lambda>t. zero_task\<lparr>cpus_allowed := {0}, prio := 102\<rparr>),
        rqs := (\<lambda>c. zero_rq\<lparr>curr := 3, rq_policy := SCHED_FIFO, rq_prio := 50, rq_deadline := 9\<rparr>)\<rparr> in
   rt_queue (rqs st 0) \<and> tif_need_resched (tasks (try_preempt 0 7 0 st) 3)"
proof -
  let ?st = "zero_kstate\<lparr>cpu_online_map := {0}, tasks := (\<lambda>t. zero_task\<lparr>cpus_allowed := {0}, prio := 102\<rparr>),
        rqs := (\<lambda>c. zero_rq\<lparr>curr := 3, rq_policy := SCHED_FIFO, rq_prio := 50, rq_deadline := 9\<rparr>)\<rparr>"
  have "\<not> suitable_idle_cpus 7 ?st" by (simp add: suitable_idle_cpus_def zero_kstate_def zero_grq_def)
  then show ?thesis
    using try_preempt_interrupts_better [of 7 ?st 0 0]
    by (simp add: zero_task_def Let_def rt_queue_def rt_prio_def)
qed

section \<open>Waiting\<close>

text \<open>C18. \<open>wait_task_inactive\<close> reports success only for a task it saw, in one locked look, neither running nor
  queued, in the expected state if one was given, and returns its switch count with the top bit
  set; and it does return once it finds the task so in three successive reads.\<close>
theorem wait_task_inactive_sound:
  "(\<forall>n. wait_task_inactive p m ph obs = Some n \<longrightarrow> n \<noteq> 0 \<longrightarrow>
      (\<exists>st \<in> set obs. \<not> task_running p st \<and> \<not> task_queued p st \<and> (m = 0 \<or> state (tasks st p) = m) \<and>
         n = nvcsw (tasks st p) OR 9223372036854775808)) \<and>
    (\<forall>a b c. (\<forall>st \<in> {a, b, c}. \<not> task_running p st \<and> \<not> task_queued p st) \<longrightarrow>
      wait_task_inactive p m ph (obs @ [a, b, c]) \<noteq> None)"
proof -
  have r: "\<exists>st \<in> set obs. \<not> task_running p st \<and> \<not> task_queued p st \<and> (m = 0 \<or> state (tasks st p) = m) \<and>
         n = nvcsw (tasks st p) OR 9223372036854775808"
    if "wait_task_inactive p m ph obs = Some n" "n \<noteq> 0" for n
    using that by (induction p m ph obs rule: wait_task_inactive.induct) (auto simp: Let_def split: if_splits)
  have l: "wait_task_inactive p m ph (obs @ [a, b, c]) \<noteq> None"
    if "\<forall>st \<in> {a, b, c}. \<not> task_running p st \<and> \<not> task_queued p st" for a b c
    using that
  proof (induction p m ph obs rule: wait_task_inactive.induct)
    case (1 p match_state ph)
    then show ?case by (cases ph) (simp_all add: Let_def)
  next
    case (4 p match_state st obs)
    then show ?case by (cases "task_running p st") (auto simp: Let_def)
  qed auto
  show ?thesis using r l by blast
qed

theorem wait_task_inactive_sound_witness:
  "wait_task_inactive 3 0 Fetch_rq ([] @ [zero_kstate, zero_kstate, zero_kstate]) \<noteq> None"
  using wait_task_inactive_sound [of 3 0 Fetch_rq "[]"]
  by (simp add: task_running_def task_queued_def zero_kstate_def zero_task_def zero_grq_def list_ex_iff)

end
