(* ===== verification/Sched_Deadline.thy ===== *)
theory Sched_Deadline
  imports Sched_Preempt
begin

text \<open>
  Virtual deadlines (\<open>kernel/sched_bfs.c\<close>, lines 394 to 403, 969 to 986, 3137 to 3195 and 7151 to
  7153): the table of priority ratios, the distance of a deadline for a nice level, and the refill of
  time slice and deadline.  The distances are shown to be strictly increasing in the nice level for
  every \<open>rr_interval\<close> up to 51; for larger values, which the sysctl admits up to 1000, the 32-bit
  product overflows and the order breaks.
\<close>

definition MS_TO_NS :: "int \<Rightarrow> int" where
  "MS_TO_NS t = s32 (t * 1048576)"

definition timeslice :: "kstate \<Rightarrow> int" where
  "timeslice st = MS_TO_US (rr_interval st)"

text \<open>The loop of \<open>sched_init\<close> that fills \<open>prio_ratios\<close>.\<close>

primrec prio_ratio :: "nat \<Rightarrow> int" where
  "prio_ratio 0 = 128"
| "prio_ratio (Suc i) = prio_ratio i * 11 div 10"

definition fill_prio_ratios :: "kstate \<Rightarrow> kstate" where
  "fill_prio_ratios st =
     fold (\<lambda>i st. st\<lparr>prio_ratios := (prio_ratios st)(i := prio_ratios st (i - 1) * 11 div 10)\<rparr>)
       [1..<nat PRIO_RANGE] (st\<lparr>prio_ratios := (prio_ratios st)(0 := 128)\<rparr>)"

definition task_prio_ratio :: "tid \<Rightarrow> kstate \<Rightarrow> int" where
  "task_prio_ratio p st = prio_ratios st (nat (task_user_prio (tasks st p)))"

definition task_timeslice :: "tid \<Rightarrow> kstate \<Rightarrow> int" where
  "task_timeslice p st = cdiv (s32 (rr_interval st * task_prio_ratio p st)) 128"

text \<open>All factors are \<open>int\<close>; the product is converted to \<open>u64\<close> on return.\<close>

definition prio_deadline_diff :: "int \<Rightarrow> kstate \<Rightarrow> int" where
  "prio_deadline_diff user_prio st =
     u64 (s32 (s32 (prio_ratios st (nat user_prio) * rr_interval st) * cdiv (MS_TO_NS 1) 128))"

definition task_deadline_diff :: "tid \<Rightarrow> kstate \<Rightarrow> int" where
  "task_deadline_diff p st = prio_deadline_diff (task_user_prio (tasks st p)) st"

definition static_deadline_diff :: "int \<Rightarrow> kstate \<Rightarrow> int" where
  "static_deadline_diff sp st = prio_deadline_diff (USER_PRIO sp) st"

definition longest_deadline_diff :: "kstate \<Rightarrow> int" where
  "longest_deadline_diff st = s32 (prio_deadline_diff 39 st)"

definition ms_longest_deadline_diff :: "kstate \<Rightarrow> int" where
  "ms_longest_deadline_diff st = NS_TO_MS (longest_deadline_diff st)"

definition time_slice_expired :: "tid \<Rightarrow> kstate \<Rightarrow> kstate" where
  "time_slice_expired p st =
     upd_task p (\<lambda>t. t\<lparr>time_slice := timeslice st, deadline := u64 (niffies (grq st) + task_deadline_diff p st)\<rparr>) st"

definition check_deadline :: "tid \<Rightarrow> kstate \<Rightarrow> kstate" where
  "check_deadline p st =
     (if time_slice (tasks st p) < RESCHED_US \<or> batch_task (tasks st p) then time_slice_expired p st else st)"

section \<open>The table of ratios\<close>

lemma prio_ratio_ge: "128 \<le> prio_ratio i"
  by (induction i) simp_all

lemma prio_ratio_step: "prio_ratio i < prio_ratio (Suc i)"
  using prio_ratio_ge [of i] by simp

lemma prio_ratio_mono: "i < j \<Longrightarrow> prio_ratio i < prio_ratio j"
  by (rule lift_Suc_mono_less [of prio_ratio, OF prio_ratio_step])

lemma prio_ratio_39: "prio_ratio 39 = 5089"
  by code_simp

lemma prio_ratio_20: "prio_ratio 20 = 836"
  by code_simp

lemma prio_ratio_le: "i \<le> 39 \<Longrightarrow> prio_ratio i \<le> 5089"
  using prio_ratio_mono [of i 39] prio_ratio_39 by (cases "i = 39") auto

lemma fill_prio_ratios_table:
  assumes "i < 40"
  shows "prio_ratios (fill_prio_ratios st) i = prio_ratio i"
proof -
  define f :: "nat \<Rightarrow> kstate \<Rightarrow> kstate"
    where "f = (\<lambda>i st. st\<lparr>prio_ratios := (prio_ratios st)(i := prio_ratios st (i - 1) * 11 div 10)\<rparr>)"
  define g where "g n = fold f [1..<Suc n] (st\<lparr>prio_ratios := (prio_ratios st)(0 := 128)\<rparr>)" for n
  have g0: "prio_ratios (g 0) 0 = 128" by (simp add: g_def)
  have gS: "g (Suc n) = f (Suc n) (g n)" for n by (simp add: g_def)
  have step: "prio_ratios (f (Suc n) s) j = (if j = Suc n then prio_ratios s n * 11 div 10 else prio_ratios s j)" for n s j
    by (simp add: f_def)
  have "j \<le> n \<longrightarrow> prio_ratios (g n) j = prio_ratio j" for n j
    by (induction n arbitrary: j) (simp_all add: g0 gS step le_Suc_eq)
  then have "prio_ratios (g 39) i = prio_ratio i" using assms by simp
  moreover have "fill_prio_ratios st = g 39" by (simp only: fill_prio_ratios_def g_def f_def) simp
  ultimately show ?thesis by simp
qed

lemma prio_deadline_diff_exact:
  assumes "\<forall>i<40. prio_ratios st i = prio_ratio i" and "1 \<le> rr_interval st" and "rr_interval st \<le> 51"
    and "0 \<le> u" and "u < 40"
  shows "prio_deadline_diff u st = prio_ratio (nat u) * rr_interval st * 8192"
proof -
  let ?r = "prio_ratio (nat u)"
  have r: "128 \<le> ?r" "?r \<le> 5089" using prio_ratio_ge prio_ratio_le [of "nat u"] assms(4,5) by auto
  define x where "x = ?r * rr_interval st"
  have "x \<le> 5089 * 51" unfolding x_def using r assms(2,3) by (intro mult_mono) auto
  moreover have "0 \<le> x" unfolding x_def using r assms(2) by (intro mult_nonneg_nonneg) auto
  ultimately have "s32 x = x" "s32 (x * 8192) = x * 8192" "u64 (x * 8192) = x * 8192"
    by (simp_all add: s32_id u64_id in_s32_def in_u64_def)
  moreover have "cdiv (MS_TO_NS 1) 128 = 8192" by (simp add: MS_TO_NS_def cdiv_def s32_def)
  ultimately show ?thesis using assms(1,4,5) by (simp add: prio_deadline_diff_def x_def)
qed

text \<open>C19. With the table \<open>sched_init\<close> builds and an \<open>rr_interval\<close> of at most 51 milliseconds, a higher nice level
  means a strictly later deadline, the distance is at least one time slice (in the shifted
  nanoseconds of the scheduler) and never wraps.\<close>
theorem deadline_diff_monotone:
  assumes "1 \<le> rr_interval st" and "rr_interval st \<le> 51" and "0 \<le> u" and "u < v" and "v < 40"
  shows "let s = fill_prio_ratios st in
    MS_TO_NS (rr_interval st) \<le> prio_deadline_diff u s \<and> prio_deadline_diff u s < prio_deadline_diff v s \<and>
    prio_deadline_diff v s < 2147483648"
proof -
  let ?s = "fill_prio_ratios st"
  have i: "rr_interval ?s = rr_interval st"
    unfolding fill_prio_ratios_def by (subst fold_frame) simp_all
  note t = fill_prio_ratios_table [of _ st]
  have d: "prio_deadline_diff w ?s = prio_ratio (nat w) * rr_interval st * 8192" if "0 \<le> w" "w < 40" for w
    using prio_deadline_diff_exact [of ?s w] that assms(1,2) t i by simp
  have lt: "prio_ratio (nat u) * rr_interval st < prio_ratio (nat v) * rr_interval st"
    using prio_ratio_mono [of "nat u" "nat v"] assms by simp
  have ge: "128 * rr_interval st \<le> prio_ratio (nat u) * rr_interval st"
    using prio_ratio_ge assms(1) by (intro mult_right_mono) auto
  have le: "prio_ratio (nat v) * rr_interval st \<le> 5089 * 51"
    using prio_ratio_le [of "nat v"] prio_ratio_ge [of "nat v"] assms by (intro mult_mono) auto
  have m: "MS_TO_NS (rr_interval st) = 128 * rr_interval st * 8192"
    using assms(1,2) by (simp add: MS_TO_NS_def s32_id in_s32_def)
  have "prio_deadline_diff u ?s = prio_ratio (nat u) * rr_interval st * 8192"
    "prio_deadline_diff v ?s = prio_ratio (nat v) * rr_interval st * 8192"
    using d assms by simp_all
  then show ?thesis using lt ge le m by (simp add: Let_def mult.commute)
qed

theorem deadline_diff_monotone_witness:
  "let s = fill_prio_ratios zero_kstate in
     MS_TO_NS 6 \<le> prio_deadline_diff 0 s \<and> prio_deadline_diff 0 s < prio_deadline_diff 39 s \<and>
     prio_deadline_diff 39 s < 2147483648"
  using deadline_diff_monotone [of zero_kstate 0 39] by (simp add: zero_kstate_def)

text \<open>With the largest \<open>rr_interval\<close> the sysctl accepts, the product overflows: a nice 0 task gets a
  deadline in the past, before that of any task of nice -20, and \<open>task_deadline_diff\<close> is no longer
  monotone in the nice level.\<close>
theorem deadline_diff_overflow:
  assumes "rr_interval st = 1000" and "1741422592 \<le> niffies (grq st)" and "niffies (grq st) < 2 ^ 63"
    and "static_prio (tasks st p) = NICE_TO_PRIO 0" and "static_prio (tasks st q) = NICE_TO_PRIO (- 20)"
    and "\<forall>i<40. prio_ratios st i = prio_ratio i"
  shows "deadline (tasks (time_slice_expired p st) p) < niffies (grq st) \<and>
    niffies (grq st) < deadline (tasks (time_slice_expired q st) q)"
proof -
  have "task_deadline_diff p st = u64 (- 1741422592)"
    using assms(1,4,6) prio_ratio_20
    by (simp add: task_deadline_diff_def prio_deadline_diff_def task_user_prio_def USER_PRIO_def NICE_TO_PRIO_def
        MS_TO_NS_def cdiv_def s32_def)
  then have "u64 (niffies (grq st) + task_deadline_diff p st) = niffies (grq st) - 1741422592"
    using assms(2,3) by (simp add: u64_id in_u64_def)
  moreover have "task_deadline_diff q st = 1048576000"
    using assms(1,5,6)
    by (simp add: task_deadline_diff_def prio_deadline_diff_def task_user_prio_def USER_PRIO_def NICE_TO_PRIO_def
        MS_TO_NS_def cdiv_def s32_def u64_def)
  moreover have "u64 (niffies (grq st) + 1048576000) = niffies (grq st) + 1048576000"
    using assms(2,3) by (intro u64_id) (simp add: in_u64_def)
  ultimately show ?thesis by (simp add: time_slice_expired_def)
qed

theorem deadline_diff_overflow_witness:
  "let st = (zero_kstate\<lparr>rr_interval := 1000, grq := zero_grq\<lparr>niffies := 2000000000\<rparr>, prio_ratios := prio_ratio,
      tasks := (\<lambda>t. zero_task\<lparr>static_prio := (if t = 1 then 121 else 101)\<rparr>)\<rparr>) in
   deadline (tasks (time_slice_expired 1 st) 1) < 2000000000 \<and> 2000000000 < deadline (tasks (time_slice_expired 2 st) 2)"
  using deadline_diff_overflow [of "zero_kstate\<lparr>rr_interval := 1000, grq := zero_grq\<lparr>niffies := 2000000000\<rparr>,
      prio_ratios := prio_ratio, tasks := (\<lambda>t. zero_task\<lparr>static_prio := (if t = 1 then 121 else 101)\<rparr>)\<rparr>" 1 2]
  by (simp add: NICE_TO_PRIO_def Let_def)

end
