(* ===== verification/Sched_Acct.thy ===== *)
theory Sched_Acct
  imports Sched_Deadline
begin

text \<open>
  Time accounting (\<open>kernel/sched_bfs.c\<close>, lines 2235 to 2345 and 2561 to 2912): the percentages charged
  to the components of a processor's load at every tick and switch, the time slice of the running
  task, the statistics counters and the load average.  A processor charges exactly 128 parts for each
  tick, however many switches fall into it.  The per-process-group timers and the accounting
  integrals (\<open>account_group_user_time\<close>, \<open>account_group_system_time\<close>, \<open>acct_update_integrals\<close>) are not part of
  the scheduler state and are left out.
\<close>

unbundle bit_operations_syntax

section \<open>Percentages of a tick\<close>

text \<open>Adding to a percentage counter: the new value, and whether a whole tick is accounted.\<close>

definition pc_add :: "int \<Rightarrow> int \<Rightarrow> int \<times> bool" where
  "pc_add old pc = (let x = u64 (old + pc) in if 128 \<le> x then (x mod 128, True) else (x, False))"

definition rq_pc_add :: "(rq \<Rightarrow> int) \<Rightarrow> (int \<Rightarrow> rq \<Rightarrow> rq) \<Rightarrow> (cpu_usage_stat \<Rightarrow> cpu_usage_stat) \<Rightarrow>
    cpu \<Rightarrow> int \<Rightarrow> kstate \<Rightarrow> kstate" where
  "rq_pc_add get put add c pc st =
     (case pc_add (get (rqs st c)) pc of
        (x, tick) \<Rightarrow> (let st = upd_rq c (put x) st in if tick then upd_kstat c add st else st))"

definition pc_idle_time :: "cpu \<Rightarrow> int \<Rightarrow> kstate \<Rightarrow> kstate" where
  "pc_idle_time c pc st =
     (if rq_nr_iowait (rqs st c) > 0
      then rq_pc_add iowait_pc (\<lambda>x r. r\<lparr>iowait_pc := x\<rparr>) (\<lambda>u. u\<lparr>cu_iowait := u64 (cu_iowait u + 1)\<rparr>) c pc st
      else rq_pc_add idle_pc (\<lambda>x r. r\<lparr>idle_pc := x\<rparr>) (\<lambda>u. u\<lparr>cu_idle := u64 (cu_idle u + 1)\<rparr>) c pc st)"

definition pc_system_time :: "cpu \<Rightarrow> tid \<Rightarrow> int \<Rightarrow> int \<Rightarrow> int \<Rightarrow> kstate \<Rightarrow> kstate" where
  "pc_system_time c p hardirq_offset pc ns st =
     (let st = (case pc_add (stime_pc (tasks st p)) pc of
                  (x, tick) \<Rightarrow> upd_task p (\<lambda>t. if tick
                    then t\<lparr>stime_pc := x, stime := u64 (stime t + 1), stimescaled := u64 (stimescaled t + 1)\<rparr>
                    else t\<lparr>stime_pc := x\<rparr>) st);
          st = upd_task p (\<lambda>t. t\<lparr>sched_time := u64 (sched_time t + ns)\<rparr>) st
      in if hardirq_count (env st c) - hardirq_offset \<noteq> 0
         then rq_pc_add irq_pc (\<lambda>x r. r\<lparr>irq_pc := x\<rparr>) (\<lambda>u. u\<lparr>cu_irq := u64 (cu_irq u + 1)\<rparr>) c pc st
         else if in_softirq (env st c)
         then rq_pc_add softirq_pc (\<lambda>x r. r\<lparr>softirq_pc := x\<rparr>) (\<lambda>u. u\<lparr>cu_softirq := u64 (cu_softirq u + 1)\<rparr>) c pc st
         else rq_pc_add system_pc (\<lambda>x r. r\<lparr>system_pc := x\<rparr>) (\<lambda>u. u\<lparr>cu_system := u64 (cu_system u + 1)\<rparr>) c pc st)"

definition pc_user_time :: "cpu \<Rightarrow> tid \<Rightarrow> int \<Rightarrow> int \<Rightarrow> kstate \<Rightarrow> kstate" where
  "pc_user_time c p pc ns st =
     (let st = (case pc_add (utime_pc (tasks st p)) pc of
                  (x, tick) \<Rightarrow> upd_task p (\<lambda>t. if tick
                    then t\<lparr>utime_pc := x, utime := u64 (utime t + 1), utimescaled := u64 (utimescaled t + 1)\<rparr>
                    else t\<lparr>utime_pc := x\<rparr>) st);
          st = upd_task p (\<lambda>t. t\<lparr>sched_time := u64 (sched_time t + ns)\<rparr>) st;
          st = (if ksoftirqd (env st c) = Some p
                then rq_pc_add softirq_pc (\<lambda>x r. r\<lparr>softirq_pc := x\<rparr>)
                       (\<lambda>u. u\<lparr>cu_softirq := u64 (cu_softirq u + 1)\<rparr>) c pc st
                else st)
      in if task_nice (tasks st p) > 0 \<or> idleprio_task (tasks st p)
         then rq_pc_add nice_pc (\<lambda>x r. r\<lparr>nice_pc := x\<rparr>) (\<lambda>u. u\<lparr>cu_nice := u64 (cu_nice u + 1)\<rparr>) c pc st
         else rq_pc_add user_pc (\<lambda>x r. r\<lparr>user_pc := x\<rparr>) (\<lambda>u. u\<lparr>cu_user := u64 (cu_user u + 1)\<rparr>) c pc st)"

definition HARDIRQ_OFFSET :: int where
  "HARDIRQ_OFFSET = 65536"

definition NS_TO_PC :: "int \<Rightarrow> int" where
  "NS_TO_PC ns = cdiv (s64 (ns * 128)) JIFFY_NS"

text \<open>The charge of a running task: \<open>tick\<close> tells a clock tick from a context switch.\<close>

definition charge_time :: "cpu \<Rightarrow> tid \<Rightarrow> bool \<Rightarrow> kstate \<Rightarrow> kstate" where
  "charge_time c p tick st =
     (let account_ns = max 0 (s64 (rq_clock (rqs st c) - timekeep_clock (rqs st c)));
          pc = u64 (NS_TO_PC account_ns)
      in if tick then
           (let acc = s64 (account_pc (rqs st c) + (pc - 128));
                pc = (if acc < 0 then u64 (pc + - acc) else pc);
                st = upd_rq c (\<lambda>r. r\<lparr>account_pc := (if acc < 0 then 0 else acc)\<rparr>) st
            in if user_mode (env st c) then pc_user_time c p pc account_ns st
               else if p \<noteq> idle (rqs st c) \<or> irq_count (env st c) \<noteq> HARDIRQ_OFFSET
               then pc_system_time c p HARDIRQ_OFFSET pc account_ns st
               else pc_idle_time c pc st)
         else
           (let st = upd_rq c (\<lambda>r. r\<lparr>account_pc := s64 (account_pc r + pc)\<rparr>) st
            in if p = idle (rqs st c) then pc_idle_time c pc st
               else pc_user_time c p pc account_ns st))"

definition update_cpu_clock :: "cpu \<Rightarrow> tid \<Rightarrow> bool \<Rightarrow> kstate \<Rightarrow> kstate" where
  "update_cpu_clock c p tick st =
     (let st = charge_time c p tick st;
          st = (if rq_policy (rqs st c) \<noteq> SCHED_FIFO \<and> p \<noteq> idle (rqs st c)
                then let time_diff = niffy_diff (s64 (rq_clock (rqs st c) - rq_last_ran (rqs st c))) 1
                     in upd_rq c (\<lambda>r. r\<lparr>rq_time_slice := s32 (rq_time_slice r - NS_TO_US time_diff)\<rparr>) st
                else st)
      in upd_rq c (\<lambda>r. r\<lparr>rq_last_ran := rq_clock r, timekeep_clock := rq_clock r\<rparr>) st)"

section \<open>Run time of a task\<close>

definition do_task_delta_exec :: "tid \<Rightarrow> cpu \<Rightarrow> kstate \<Rightarrow> kstate \<times> int" where
  "do_task_delta_exec p c st =
     (if p = curr (rqs st c) then
        (let st = update_clocks c st;
             ns = u64 (clock_task (rqs st c) - rq_last_ran (rqs st c))
         in (st, if s64 ns < 0 then 0 else ns))
      else (st, 0))"

definition task_delta_exec :: "tid \<Rightarrow> kstate \<Rightarrow> kstate \<times> int" where
  "task_delta_exec p st = do_task_delta_exec p (task_cpu (tasks st p)) st"

definition task_sched_runtime :: "tid \<Rightarrow> kstate \<Rightarrow> kstate \<times> int" where
  "task_sched_runtime p st =
     (case do_task_delta_exec p (task_cpu (tasks st p)) st of
        (st', ns) \<Rightarrow> (st', u64 (sched_time (tasks st p) + ns)))"

section \<open>Guest, steal and idle time\<close>

definition account_guest_time :: "cpu \<Rightarrow> tid \<Rightarrow> int \<Rightarrow> int \<Rightarrow> kstate \<Rightarrow> kstate" where
  "account_guest_time c p cputime cputime_scaled st =
     (let st = upd_task p (\<lambda>t. t\<lparr>utime := u64 (utime t + cputime),
                 utimescaled := u64 (utimescaled t + cputime_scaled), gtime := u64 (gtime t + cputime)\<rparr>) st
      in if task_nice (tasks st p) > 0
         then upd_kstat c (\<lambda>u. u\<lparr>cu_nice := u64 (cu_nice u + cputime), cu_guest_nice := u64 (cu_guest_nice u + cputime)\<rparr>) st
         else upd_kstat c (\<lambda>u. u\<lparr>cu_user := u64 (cu_user u + cputime), cu_guest := u64 (cu_guest u + cputime)\<rparr>) st)"

definition account_system_time :: "cpu \<Rightarrow> tid \<Rightarrow> int \<Rightarrow> int \<Rightarrow> int \<Rightarrow> kstate \<Rightarrow> kstate" where
  "account_system_time c p hardirq_offset cputime cputime_scaled st =
     (if flags (tasks st p) AND PF_VCPU \<noteq> 0 \<and> irq_count (env st c) - hardirq_offset = 0
      then account_guest_time c p cputime cputime_scaled st else st)"

definition account_steal_time :: "cpu \<Rightarrow> int \<Rightarrow> kstate \<Rightarrow> kstate" where
  "account_steal_time c cputime = upd_kstat c (\<lambda>u. u\<lparr>cu_steal := u64 (cu_steal u + cputime)\<rparr>)"

definition account_idle_times :: "cpu \<Rightarrow> int \<Rightarrow> kstate \<Rightarrow> kstate" where
  "account_idle_times c cputime st =
     (if rq_nr_iowait (rqs st c) > 0
      then upd_kstat c (\<lambda>u. u\<lparr>cu_iowait := u64 (cu_iowait u + cputime)\<rparr>) st
      else upd_kstat c (\<lambda>u. u\<lparr>cu_idle := u64 (cu_idle u + cputime)\<rparr>) st)"

definition account_steal_ticks :: "cpu \<Rightarrow> int \<Rightarrow> kstate \<Rightarrow> kstate" where
  "account_steal_ticks c ticks = account_steal_time c ticks"

definition account_idle_ticks :: "cpu \<Rightarrow> int \<Rightarrow> kstate \<Rightarrow> kstate" where
  "account_idle_ticks c ticks = account_idle_times c ticks"

section \<open>Statistics\<close>

definition nr_running_stat :: "kstate \<Rightarrow> int" where
  "nr_running_stat st = (let nr = s64 (nr_running (grq st)) in if nr < 0 then 0 else nr)"

definition nr_uninterruptible_stat :: "kstate \<Rightarrow> int" where
  "nr_uninterruptible_stat st = (let nu = s64 (nr_uninterruptible (grq st)) in if nu < 0 then 0 else nu)"

definition nr_context_switches :: "kstate \<Rightarrow> int" where
  "nr_context_switches st = (let ns = s64 (nr_switches (grq st)) in if ns < 0 then 1 else ns)"

definition nr_iowait :: "kstate \<Rightarrow> int" where
  "nr_iowait st = fold (\<lambda>c sum. u64 (sum + rq_nr_iowait (rqs st c))) [0..<NR_CPUS] 0"

definition nr_iowait_cpu :: "cpu \<Rightarrow> kstate \<Rightarrow> int" where
  "nr_iowait_cpu c st = u64 (rq_nr_iowait (rqs st c))"

definition nr_active :: "kstate \<Rightarrow> int" where
  "nr_active st = u64 (nr_running_stat st + nr_uninterruptible_stat st)"

definition this_cpu_load :: "cpu \<Rightarrow> kstate \<Rightarrow> int" where
  "this_cpu_load this st =
     u64 ((if rq_running (rqs st this) then 1 else 0) +
          u64 (queued_notrunning st + nr_uninterruptible_stat st) div u64 (noc (grq st)))"

definition get_avenrun :: "int \<Rightarrow> nat \<Rightarrow> kstate \<Rightarrow> int list" where
  "get_avenrun offset shift st = map (\<lambda>i. u64 (u64 (avenrun st i + offset) * 2 ^ shift)) [0, 1, 2]"

definition FSHIFT :: nat where "FSHIFT = 11"
definition FIXED_1 :: int where "FIXED_1 = 2 ^ FSHIFT"
definition LOAD_FREQ :: int where "LOAD_FREQ = 5 * HZ + 1"
definition EXP_1 :: int where "EXP_1 = 1884"
definition EXP_5 :: int where "EXP_5 = 2014"
definition EXP_15 :: int where "EXP_15 = 2037"

definition calc_load :: "int \<Rightarrow> int \<Rightarrow> int \<Rightarrow> int" where
  "calc_load load exp active =
     (let load = u64 (load * exp);
          load = u64 (load + active * (FIXED_1 - exp))
      in load div 2 ^ FSHIFT)"

definition calc_global_load :: "kstate \<Rightarrow> kstate" where
  "calc_global_load st =
     (if s64 (jiffies st - calc_load_update st) < 0 then st
      else let active = u64 (nr_active st * FIXED_1)
           in st\<lparr>avenrun := (avenrun st)(0 := calc_load (avenrun st 0) EXP_1 active,
                  1 := calc_load (avenrun st 1) EXP_5 active, 2 := calc_load (avenrun st 2) EXP_15 active),
                calc_load_update := u64 (jiffies st + LOAD_FREQ)\<rparr>)"

section \<open>Frame\<close>

lemma rq_pc_add_frame [frame, simp]:
  "tasks (rq_pc_add get put add c pc st) = tasks st" "grq (rq_pc_add get put add c pc st) = grq st"
  "env (rq_pc_add get put add c pc st) = env st" "jiffies (rq_pc_add get put add c pc st) = jiffies st"
  "rr_interval (rq_pc_add get put add c pc st) = rr_interval st"
  "prio_ratios (rq_pc_add get put add c pc st) = prio_ratios st"
  "cpu_online_map (rq_pc_add get put add c pc st) = cpu_online_map st"
  "param (rq_pc_add get put add c pc st) = param st" "ipis (rq_pc_add get put add c pc st) = ipis st"
  "sched_iso_cpu (rq_pc_add get put add c pc st) = sched_iso_cpu st"
  by (simp_all add: rq_pc_add_def Let_def split: prod.split)

lemma rq_pc_add_rqs:
  "rqs (rq_pc_add get put add c pc st) = (rqs st)(c := put (fst (pc_add (get (rqs st c)) pc)) (rqs st c))"
  by (simp add: rq_pc_add_def Let_def split: prod.split)

lemma rq_pc_add_kstat:
  "kstat (rq_pc_add get put add c pc st) =
     (if snd (pc_add (get (rqs st c)) pc) then (kstat st)(c := add (kstat st c)) else kstat st)"
  by (simp add: rq_pc_add_def Let_def split: prod.split)

text \<open>The fields of a run queue that accounting does not touch.\<close>

definition rq_keep :: "rq \<Rightarrow> tid \<times> tid \<times> int \<times> int \<times> int \<times> int \<times> bool \<times> int \<times> int \<times> int \<times> int \<times> tid option \<times> bool" where
  "rq_keep r = (curr r, idle r, rq_deadline r, rq_policy r, rq_prio r, rq_clock r, rq_running r, last_tick r,
     rq_last_ran r, timekeep_clock r, rq_time_slice r, sticky_task r, dither r)"

lemma rq_pc_add_keep:
  assumes "\<And>x r. rq_keep (put x r) = rq_keep r"
  shows "rq_keep (rqs (rq_pc_add get put add c pc st) d) = rq_keep (rqs st d)"
  using assms by (simp add: rq_pc_add_rqs)

lemma charge_keep:
  "rq_keep (rqs (pc_idle_time c pc st) d) = rq_keep (rqs st d)"
  "rq_keep (rqs (pc_system_time c p hoff pc ns st) d) = rq_keep (rqs st d)"
  "rq_keep (rqs (pc_user_time c p pc ns st) d) = rq_keep (rqs st d)"
  "rq_keep (rqs (charge_time c p tick st) d) = rq_keep (rqs st d)"
proof -
  show a: "rq_keep (rqs (pc_idle_time c pc st) d) = rq_keep (rqs st d)" for pc st
    by (simp add: pc_idle_time_def rq_pc_add_rqs rq_keep_def)
  show b: "rq_keep (rqs (pc_system_time c p hoff pc ns st) d) = rq_keep (rqs st d)" for hoff pc ns st
    by (simp add: pc_system_time_def rq_pc_add_rqs rq_keep_def Let_def split: prod.split)
  show e: "rq_keep (rqs (pc_user_time c p pc ns st) d) = rq_keep (rqs st d)" for pc ns st
    by (simp add: pc_user_time_def rq_pc_add_rqs rq_keep_def Let_def split: prod.split)
  have u: "rq_keep (rqs (upd_rq c (\<lambda>r. r\<lparr>account_pc := f r\<rparr>) st) d) = rq_keep (rqs st d)" for f
    by (simp add: rq_keep_def)
  show "rq_keep (rqs (charge_time c p tick st) d) = rq_keep (rqs st d)"
    by (simp only: charge_time_def Let_def a b e u if_distrib [where f = "\<lambda>s. rq_keep (rqs s d)"] if_cancel)
qed

lemma task_core_accounting [simp]:
  "task_core (t\<lparr>stime_pc := x\<rparr>) = task_core t" "task_core (t\<lparr>utime_pc := x\<rparr>) = task_core t"
  "task_core (t\<lparr>stime_pc := x, stime := y, stimescaled := z\<rparr>) = task_core t"
  "task_core (t\<lparr>utime_pc := x, utime := y, utimescaled := z\<rparr>) = task_core t"
  "task_core (t\<lparr>sched_time := x\<rparr>) = task_core t"
  by (simp_all add: task_core_def)

lemma core_rq_pc_add:
  assumes "\<And>x r. curr (put x r) = curr r \<and> idle (put x r) = idle r"
  shows "core (rq_pc_add get put add c pc st) = core st"
  using assms by (simp add: rq_pc_add_def Let_def core_upd_rq split: prod.split)

lemma core_pc_idle_time [simp]: "core (pc_idle_time c pc st) = core st"
  by (simp add: pc_idle_time_def core_rq_pc_add)

lemma core_pc_system_time [simp]: "core (pc_system_time c p hoff pc ns st) = core st"
  by (simp add: pc_system_time_def core_rq_pc_add Let_def core_upd_task split: prod.split)

lemma core_pc_user_time [simp]: "core (pc_user_time c p pc ns st) = core st"
  by (simp add: pc_user_time_def core_rq_pc_add Let_def core_upd_task split: prod.split)

lemma core_charge_time [simp]: "core (charge_time c p tick st) = core st"
  by (simp add: charge_time_def Let_def core_upd_rq)

lemma core_update_cpu_clock [simp]: "core (update_cpu_clock c p tick st) = core st"
  by (simp add: update_cpu_clock_def Let_def core_upd_rq)

lemma pc_idle_time_frame [frame, simp]:
  "grq (pc_idle_time c pc st) = grq st"
  "jiffies (pc_idle_time c pc st) = jiffies st"
  "rr_interval (pc_idle_time c pc st) = rr_interval st"
  "prio_ratios (pc_idle_time c pc st) = prio_ratios st"
  "env (pc_idle_time c pc st) = env st"
  "ipis (pc_idle_time c pc st) = ipis st"
  "sched_iso_cpu (pc_idle_time c pc st) = sched_iso_cpu st"
  by (simp_all add: pc_idle_time_def)

lemma pc_system_time_frame [frame, simp]:
  "grq (pc_system_time c p hoff pc ns st) = grq st"
  "jiffies (pc_system_time c p hoff pc ns st) = jiffies st"
  "rr_interval (pc_system_time c p hoff pc ns st) = rr_interval st"
  "prio_ratios (pc_system_time c p hoff pc ns st) = prio_ratios st"
  "env (pc_system_time c p hoff pc ns st) = env st"
  "ipis (pc_system_time c p hoff pc ns st) = ipis st"
  "sched_iso_cpu (pc_system_time c p hoff pc ns st) = sched_iso_cpu st"
  by (simp_all add: pc_system_time_def Let_def split: prod.split)

lemma pc_user_time_frame [frame, simp]:
  "grq (pc_user_time c p pc ns st) = grq st"
  "jiffies (pc_user_time c p pc ns st) = jiffies st"
  "rr_interval (pc_user_time c p pc ns st) = rr_interval st"
  "prio_ratios (pc_user_time c p pc ns st) = prio_ratios st"
  "env (pc_user_time c p pc ns st) = env st"
  "ipis (pc_user_time c p pc ns st) = ipis st"
  "sched_iso_cpu (pc_user_time c p pc ns st) = sched_iso_cpu st"
  by (simp_all add: pc_user_time_def Let_def split: prod.split)

lemma charge_time_frame [frame, simp]:
  "grq (charge_time c p tick st) = grq st"
  "jiffies (charge_time c p tick st) = jiffies st"
  "rr_interval (charge_time c p tick st) = rr_interval st"
  "prio_ratios (charge_time c p tick st) = prio_ratios st"
  "env (charge_time c p tick st) = env st"
  "ipis (charge_time c p tick st) = ipis st"
  "sched_iso_cpu (charge_time c p tick st) = sched_iso_cpu st"
  by (simp_all add: charge_time_def Let_def)

lemma update_cpu_clock_frame [frame, simp]:
  "grq (update_cpu_clock c p tick st) = grq st"
  "jiffies (update_cpu_clock c p tick st) = jiffies st"
  "rr_interval (update_cpu_clock c p tick st) = rr_interval st"
  "prio_ratios (update_cpu_clock c p tick st) = prio_ratios st"
  "env (update_cpu_clock c p tick st) = env st"
  "ipis (update_cpu_clock c p tick st) = ipis st"
  "sched_iso_cpu (update_cpu_clock c p tick st) = sched_iso_cpu st"
  by (simp_all add: update_cpu_clock_def Let_def)

lemma pc_system_time_task [frame, simp]:
  "tif_need_resched (tasks (pc_system_time c p hoff pc ns st) t) = tif_need_resched (tasks st t)"
  "flags (tasks (pc_system_time c p hoff pc ns st) t) = flags (tasks st t)"
  "sticky (tasks (pc_system_time c p hoff pc ns st) t) = sticky (tasks st t)"
  "tif_sigpending (tasks (pc_system_time c p hoff pc ns st) t) = tif_sigpending (tasks st t)"
  "tif_freeze (tasks (pc_system_time c p hoff pc ns st) t) = tif_freeze (tasks st t)"
  "deadline (tasks (pc_system_time c p hoff pc ns st) t) = deadline (tasks st t)"
  "time_slice (tasks (pc_system_time c p hoff pc ns st) t) = time_slice (tasks st t)"
  "parent (tasks (pc_system_time c p hoff pc ns st) t) = parent (tasks st t)"
  "pid (tasks (pc_system_time c p hoff pc ns st) t) = pid (tasks st t)"
  "tgid (tasks (pc_system_time c p hoff pc ns st) t) = tgid (tasks st t)"
  "mm (tasks (pc_system_time c p hoff pc ns st) t) = mm (tasks st t)"
  "active_mm (tasks (pc_system_time c p hoff pc ns st) t) = active_mm (tasks st t)"
  by (simp_all add: pc_system_time_def Let_def split: prod.split)

lemma pc_user_time_task [frame, simp]:
  "tif_need_resched (tasks (pc_user_time c p pc ns st) t) = tif_need_resched (tasks st t)"
  "flags (tasks (pc_user_time c p pc ns st) t) = flags (tasks st t)"
  "sticky (tasks (pc_user_time c p pc ns st) t) = sticky (tasks st t)"
  "tif_sigpending (tasks (pc_user_time c p pc ns st) t) = tif_sigpending (tasks st t)"
  "tif_freeze (tasks (pc_user_time c p pc ns st) t) = tif_freeze (tasks st t)"
  "deadline (tasks (pc_user_time c p pc ns st) t) = deadline (tasks st t)"
  "time_slice (tasks (pc_user_time c p pc ns st) t) = time_slice (tasks st t)"
  "parent (tasks (pc_user_time c p pc ns st) t) = parent (tasks st t)"
  "pid (tasks (pc_user_time c p pc ns st) t) = pid (tasks st t)"
  "tgid (tasks (pc_user_time c p pc ns st) t) = tgid (tasks st t)"
  "mm (tasks (pc_user_time c p pc ns st) t) = mm (tasks st t)"
  "active_mm (tasks (pc_user_time c p pc ns st) t) = active_mm (tasks st t)"
  by (simp_all add: pc_user_time_def Let_def split: prod.split)

lemma pc_idle_time_tasks [frame, simp]: "tasks (pc_idle_time c pc st) = tasks st"
  by (simp add: pc_idle_time_def)

lemma charge_time_task [frame, simp]:
  "tif_need_resched (tasks (charge_time c p tick st) t) = tif_need_resched (tasks st t)"
  "flags (tasks (charge_time c p tick st) t) = flags (tasks st t)"
  "sticky (tasks (charge_time c p tick st) t) = sticky (tasks st t)"
  "tif_sigpending (tasks (charge_time c p tick st) t) = tif_sigpending (tasks st t)"
  "tif_freeze (tasks (charge_time c p tick st) t) = tif_freeze (tasks st t)"
  "deadline (tasks (charge_time c p tick st) t) = deadline (tasks st t)"
  "time_slice (tasks (charge_time c p tick st) t) = time_slice (tasks st t)"
  "parent (tasks (charge_time c p tick st) t) = parent (tasks st t)"
  "pid (tasks (charge_time c p tick st) t) = pid (tasks st t)"
  "tgid (tasks (charge_time c p tick st) t) = tgid (tasks st t)"
  "mm (tasks (charge_time c p tick st) t) = mm (tasks st t)"
  "active_mm (tasks (charge_time c p tick st) t) = active_mm (tasks st t)"
  by (simp_all add: charge_time_def Let_def)

lemma update_cpu_clock_task [frame, simp]:
  "tif_need_resched (tasks (update_cpu_clock c p tick st) t) = tif_need_resched (tasks st t)"
  "flags (tasks (update_cpu_clock c p tick st) t) = flags (tasks st t)"
  "sticky (tasks (update_cpu_clock c p tick st) t) = sticky (tasks st t)"
  "tif_sigpending (tasks (update_cpu_clock c p tick st) t) = tif_sigpending (tasks st t)"
  "tif_freeze (tasks (update_cpu_clock c p tick st) t) = tif_freeze (tasks st t)"
  "deadline (tasks (update_cpu_clock c p tick st) t) = deadline (tasks st t)"
  "time_slice (tasks (update_cpu_clock c p tick st) t) = time_slice (tasks st t)"
  "parent (tasks (update_cpu_clock c p tick st) t) = parent (tasks st t)"
  "pid (tasks (update_cpu_clock c p tick st) t) = pid (tasks st t)"
  "tgid (tasks (update_cpu_clock c p tick st) t) = tgid (tasks st t)"
  "mm (tasks (update_cpu_clock c p tick st) t) = mm (tasks st t)"
  "active_mm (tasks (update_cpu_clock c p tick st) t) = active_mm (tasks st t)"
  by (simp_all add: update_cpu_clock_def Let_def)

section \<open>Every tick is charged once\<close>

definition load_parts :: "rq \<Rightarrow> int" where
  "load_parts r = user_pc r + nice_pc r + irq_pc r + softirq_pc r + system_pc r + iowait_pc r + idle_pc r"

definition stat_ticks :: "cpu_usage_stat \<Rightarrow> int" where
  "stat_ticks u = cu_user u + cu_nice u + cu_irq u + cu_softirq u + cu_system u + cu_iowait u + cu_idle u"

definition pcs_ok :: "rq \<Rightarrow> bool" where
  "pcs_ok r \<longleftrightarrow> (\<forall>x \<in> {user_pc r, nice_pc r, irq_pc r, softirq_pc r, system_pc r, iowait_pc r, idle_pc r}.
     0 \<le> x \<and> x < 128)"

definition stats_ok :: "cpu_usage_stat \<Rightarrow> bool" where
  "stats_ok u \<longleftrightarrow> (\<forall>x \<in> {cu_user u, cu_nice u, cu_irq u, cu_softirq u, cu_system u, cu_iowait u, cu_idle u}.
     0 \<le> x \<and> x < 2 ^ 63)"

text \<open>Parts charged so far, minus the excess already charged beyond the last tick.\<close>

definition accounted :: "cpu \<Rightarrow> kstate \<Rightarrow> int" where
  "accounted c st = 128 * stat_ticks (kstat st c) + load_parts (rqs st c) - account_pc (rqs st c)"

lemma pc_add_exact:
  assumes "0 \<le> old" and "old < 128" and "0 \<le> pc" and "pc \<le> 128"
  shows "128 * (if snd (pc_add old pc) then 1 else 0) + fst (pc_add old pc) = old + pc"
    and "0 \<le> fst (pc_add old pc)" and "fst (pc_add old pc) < 128"
proof -
  have u: "u64 (old + pc) = old + pc" using assms by (intro u64_id) (simp add: in_u64_def)
  have "(old + pc) mod 128 = old + pc - 128" if "128 \<le> old + pc"
  proof -
    have "(old + pc) mod 128 = (128 + (old + pc - 128)) mod 128" by (rule arg_cong [of _ _ "\<lambda>x. x mod 128"]) simp
    also have "\<dots> = old + pc - 128"
      unfolding mod_add_self1 using that assms by (intro mod_pos_pos_trivial) auto
    finally show ?thesis .
  qed
  then show "128 * (if snd (pc_add old pc) then 1 else 0) + fst (pc_add old pc) = old + pc"
    "0 \<le> fst (pc_add old pc)" "fst (pc_add old pc) < 128"
    using assms by (auto simp: pc_add_def u Let_def)
qed

lemma rq_pc_add_accounted:
  assumes "\<And>x. load_parts (put x (rqs st c)) = load_parts (rqs st c) - get (rqs st c) + x"
    and "\<And>x. account_pc (put x (rqs st c)) = account_pc (rqs st c)"
    and "stat_ticks (add (kstat st c)) = stat_ticks (kstat st c) + 1"
    and "0 \<le> get (rqs st c)" and "get (rqs st c) < 128" and "0 \<le> pc" and "pc \<le> 128"
  shows "accounted c (rq_pc_add get put add c pc st) = accounted c st + pc"
  using pc_add_exact(1) [OF assms(4-7)] assms(1-3)
  by (auto simp: accounted_def rq_pc_add_rqs rq_pc_add_kstat split: if_splits)

lemma pc_idle_accounted:
  assumes "pcs_ok (rqs st c)" and "stats_ok (kstat st c)" and "0 \<le> pc" and "pc \<le> 128"
  shows "accounted c (pc_idle_time c pc st) = accounted c st + pc"
  using assms unfolding pc_idle_time_def
  by (auto intro!: rq_pc_add_accounted
      simp: load_parts_def stat_ticks_def pcs_ok_def stats_ok_def u64_id in_u64_def)

lemma accounted_upd_task [simp]: "accounted c (upd_task p f st) = accounted c st"
  by (simp add: accounted_def)

lemma pc_system_accounted:
  assumes "pcs_ok (rqs st c)" and "stats_ok (kstat st c)" and "0 \<le> pc" and "pc \<le> 128"
  shows "accounted c (pc_system_time c p off' pc ns st) = accounted c st + pc"
proof -
  obtain s where s: "accounted c s = accounted c st" "rqs s = rqs st" "kstat s = kstat st" "env s = env st"
    and e: "pc_system_time c p off' pc ns st =
      (if hardirq_count (env s c) - off' \<noteq> 0
         then rq_pc_add irq_pc (\<lambda>x r. r\<lparr>irq_pc := x\<rparr>) (\<lambda>u. u\<lparr>cu_irq := u64 (cu_irq u + 1)\<rparr>) c pc s
         else if in_softirq (env s c)
         then rq_pc_add softirq_pc (\<lambda>x r. r\<lparr>softirq_pc := x\<rparr>) (\<lambda>u. u\<lparr>cu_softirq := u64 (cu_softirq u + 1)\<rparr>) c pc s
         else rq_pc_add system_pc (\<lambda>x r. r\<lparr>system_pc := x\<rparr>) (\<lambda>u. u\<lparr>cu_system := u64 (cu_system u + 1)\<rparr>) c pc s)"
    by (rule that [OF _ _ _ _ pc_system_time_def [unfolded Let_def]]) (simp_all split: prod.split)
  have "pcs_ok (rqs s c)" "stats_ok (kstat s c)" using s assms by simp_all
  with assms(3,4) have "accounted c (pc_system_time c p off' pc ns st) = accounted c s + pc"
    unfolding e
    by (auto intro!: rq_pc_add_accounted
        simp: load_parts_def stat_ticks_def pcs_ok_def stats_ok_def u64_id in_u64_def)
  with s(1) show ?thesis by simp
qed

lemma pc_user_accounted:
  assumes "pcs_ok (rqs st c)" and "stats_ok (kstat st c)" and "0 \<le> pc" and "pc \<le> 128"
  shows "accounted c (pc_user_time c p pc ns st) =
    accounted c st + (if ksoftirqd (env st c) = Some p then 2 * pc else pc)"
proof -
  define s where "s = upd_task p (\<lambda>t. t\<lparr>sched_time := u64 (sched_time t + ns)\<rparr>)
    (case pc_add (utime_pc (tasks st p)) pc of
       (x, tick) \<Rightarrow> upd_task p (\<lambda>t. if tick
         then t\<lparr>utime_pc := x, utime := u64 (utime t + 1), utimescaled := u64 (utimescaled t + 1)\<rparr>
         else t\<lparr>utime_pc := x\<rparr>) st)"
  define s' where "s' = (if ksoftirqd (env s c) = Some p
    then rq_pc_add softirq_pc (\<lambda>x r. r\<lparr>softirq_pc := x\<rparr>) (\<lambda>u. u\<lparr>cu_softirq := u64 (cu_softirq u + 1)\<rparr>) c pc s else s)"
  have s: "accounted c s = accounted c st" "rqs s = rqs st" "kstat s = kstat st" "env s = env st"
    by (simp_all add: s_def split: prod.split)
  have e: "pc_user_time c p pc ns st =
      (if task_nice (tasks s' p) > 0 \<or> idleprio_task (tasks s' p)
       then rq_pc_add nice_pc (\<lambda>x r. r\<lparr>nice_pc := x\<rparr>) (\<lambda>u. u\<lparr>cu_nice := u64 (cu_nice u + 1)\<rparr>) c pc s'
       else rq_pc_add user_pc (\<lambda>x r. r\<lparr>user_pc := x\<rparr>) (\<lambda>u. u\<lparr>cu_user := u64 (cu_user u + 1)\<rparr>) c pc s')"
    unfolding pc_user_time_def Let_def s_def s'_def by (rule refl)
  have ok: "pcs_ok (rqs s c)" "stats_ok (kstat s c)" using s assms by simp_all
  have a: "accounted c s' = accounted c s + (if ksoftirqd (env st c) = Some p then pc else 0)"
    unfolding s'_def s(4) using ok assms(3,4)
    by (auto intro!: rq_pc_add_accounted
        simp: load_parts_def stat_ticks_def pcs_ok_def stats_ok_def u64_id in_u64_def)
  have k: "user_pc (rqs s' c) = user_pc (rqs s c)" "nice_pc (rqs s' c) = nice_pc (rqs s c)"
    "cu_user (kstat s' c) = cu_user (kstat s c)" "cu_nice (kstat s' c) = cu_nice (kstat s c)"
    by (auto simp: s'_def rq_pc_add_rqs rq_pc_add_kstat)
  have "accounted c (pc_user_time c p pc ns st) = accounted c s' + pc"
    unfolding e using ok k assms(3,4)
    by (auto intro!: rq_pc_add_accounted
        simp: load_parts_def stat_ticks_def pcs_ok_def stats_ok_def u64_id in_u64_def)
  with a s(1) show ?thesis by simp
qed

lemma ns_to_pc_range:
  assumes "0 \<le> ns" and "ns \<le> 1000000"
  shows "0 \<le> NS_TO_PC ns" and "NS_TO_PC ns \<le> 128" and "u64 (NS_TO_PC ns) = NS_TO_PC ns"
proof -
  have "s64 (ns * 128) = ns * 128" using assms by (intro s64_id) (simp add: in_s64_def)
  then have e: "NS_TO_PC ns = ns * 128 div 1000000" using assms by (simp add: NS_TO_PC_def cdiv_nonneg)
  have "ns * 128 div 1000000 \<le> 128000000 div 1000000" using assms by (intro zdiv_mono1) auto
  then show "NS_TO_PC ns \<le> 128" unfolding e by simp
  show z: "0 \<le> NS_TO_PC ns" unfolding e using assms by (simp add: pos_imp_zdiv_nonneg_iff)
  show "u64 (NS_TO_PC ns) = NS_TO_PC ns"
    using z \<open>NS_TO_PC ns \<le> 128\<close> by (intro u64_id) (simp add: in_u64_def)
qed

lemma accounted_set_account:
  "accounted c (upd_rq c (\<lambda>r. r\<lparr>account_pc := f r\<rparr>) st) =
     accounted c st + account_pc (rqs st c) - f (rqs st c)"
  by (simp add: accounted_def load_parts_def)

lemma pcs_ok_set_account: "pcs_ok (r\<lparr>account_pc := x\<rparr>) = pcs_ok r"
  by (simp add: pcs_ok_def)

text \<open>Time since the last charge, as the code computes it, within one tick.\<close>

definition within_tick :: "cpu \<Rightarrow> kstate \<Rightarrow> bool" where
  "within_tick c st \<longleftrightarrow> 0 \<le> rq_clock (rqs st c) - timekeep_clock (rqs st c) \<and>
     rq_clock (rqs st c) - timekeep_clock (rqs st c) \<le> JIFFY_NS"

lemma charge_time_accounted:
  assumes "pcs_ok (rqs st c)" and "stats_ok (kstat st c)" and "within_tick c st"
    and "0 \<le> account_pc (rqs st c)" and "account_pc (rqs st c) < 2 ^ 62"
  shows "accounted c (charge_time c p tick st) = accounted c st + (if tick then 128 else 0) +
    (if ksoftirqd (env st c) = Some p \<and> p \<noteq> idle (rqs st c) \<and> \<not> tick
     then NS_TO_PC (rq_clock (rqs st c) - timekeep_clock (rqs st c))
     else if ksoftirqd (env st c) = Some p \<and> tick \<and> user_mode (env st c)
     then max (128 - account_pc (rqs st c)) (NS_TO_PC (rq_clock (rqs st c) - timekeep_clock (rqs st c)))
     else 0)"
proof -
  let ?ns = "rq_clock (rqs st c) - timekeep_clock (rqs st c)"
  let ?acc = "account_pc (rqs st c)"
  have ns: "0 \<le> ?ns" "?ns \<le> 1000000" using assms(3) by (simp_all add: within_tick_def)
  have n: "max 0 (s64 ?ns) = ?ns" using ns by (simp add: s64_id in_s64_def)
  define pc where "pc = NS_TO_PC ?ns"
  have pc: "0 \<le> pc" "pc \<le> 128" "u64 (NS_TO_PC ?ns) = pc"
    using ns_to_pc_range [OF ns] by (simp_all add: pc_def)
  show ?thesis
  proof (cases tick)
    case True
    have a: "s64 (?acc + (pc - 128)) = ?acc + pc - 128"
      using assms(4,5) pc by (subst s64_id) (simp_all add: in_s64_def)
    define acc' where "acc' = (if ?acc + pc - 128 < 0 then 0 else ?acc + pc - 128)"
    define ch where "ch = (if ?acc + pc - 128 < 0 then 128 - ?acc else pc)"
    have ch: "0 \<le> ch" "ch \<le> 128" "ch - acc' = 128 - ?acc" "ch = max (128 - ?acc) pc"
      using pc assms(4) by (auto simp: ch_def acc'_def)
    have u: "(if ?acc + pc - 128 < 0 then u64 (pc + - (?acc + pc - 128)) else pc) = ch"
      using pc assms(4) by (auto simp: ch_def u64_id in_u64_def)
    let ?s = "upd_rq c (\<lambda>r. r\<lparr>account_pc := acc'\<rparr>) st"
    have s: "accounted c ?s = accounted c st + ?acc - acc'" "pcs_ok (rqs ?s c)" "stats_ok (kstat ?s c)"
      "env ?s = env st" "idle (rqs ?s c) = idle (rqs st c)"
      using assms(1,2) by (simp_all add: accounted_set_account pcs_ok_set_account)
    have e: "charge_time c p tick st =
        (if user_mode (env ?s c) then pc_user_time c p ch ?ns ?s
         else if p \<noteq> idle (rqs ?s c) \<or> irq_count (env ?s c) \<noteq> HARDIRQ_OFFSET
         then pc_system_time c p HARDIRQ_OFFSET ch ?ns ?s else pc_idle_time c ch ?s)"
      using True unfolding charge_time_def Let_def n pc(3) a u acc'_def by simp
    note k = pc_user_accounted [OF s(2,3) ch(1,2)] pc_system_accounted [OF s(2,3) ch(1,2)]
      pc_idle_accounted [OF s(2,3) ch(1,2)]
    show ?thesis unfolding e if_distrib [where f = "accounted c"] k s(1,4,5)
      using True ch(3,4) by (auto simp: pc_def)
  next
    case False
    have a: "s64 (?acc + pc) = ?acc + pc" using assms(4,5) pc by (intro s64_id) (simp add: in_s64_def)
    let ?s = "upd_rq c (\<lambda>r. r\<lparr>account_pc := s64 (account_pc r + pc)\<rparr>) st"
    have s: "accounted c ?s = accounted c st - pc" "pcs_ok (rqs ?s c)" "stats_ok (kstat ?s c)"
      "env ?s = env st" "idle (rqs ?s c) = idle (rqs st c)"
      using assms(1,2) a by (simp_all add: accounted_set_account pcs_ok_set_account)
    have e: "charge_time c p tick st =
        (if p = idle (rqs ?s c) then pc_idle_time c pc ?s else pc_user_time c p pc ?ns ?s)"
      using False unfolding charge_time_def Let_def n pc(3) by simp
    note k = pc_user_accounted [OF s(2,3) pc(1,2)] pc_idle_accounted [OF s(2,3) pc(1,2)]
    show ?thesis unfolding e if_distrib [where f = "accounted c"] k s(1,4,5)
      using False by (auto simp: pc_def)
  qed
qed

lemma update_cpu_clock_accounted:
  "accounted c (update_cpu_clock c p tick st) = accounted c (charge_time c p tick st)"
  by (simp add: update_cpu_clock_def Let_def accounted_def load_parts_def)

text \<open>C20. However switches and ticks fall, a processor charges exactly 128 parts to the components of its load per
  tick: the parts charged so far, less the excess carried to the next tick, grow by 128 at a tick and
  not at all at a switch, provided at most one tick of time passed since the last charge and the
  running task is not the softirq daemon.\<close>
theorem ticks_charged_exactly:
  assumes "pcs_ok (rqs st c)" and "stats_ok (kstat st c)" and "within_tick c st"
    and "0 \<le> account_pc (rqs st c)" and "account_pc (rqs st c) < 2 ^ 62" and "ksoftirqd (env st c) \<noteq> Some p"
  shows "accounted c (update_cpu_clock c p tick st) = accounted c st + (if tick then 128 else 0)"
  using charge_time_accounted [OF assms(1-5)] assms(6) by (simp add: update_cpu_clock_accounted)

theorem ticks_charged_exactly_witness:
  "let st = zero_kstate\<lparr>rqs := (\<lambda>_. zero_rq\<lparr>rq_clock := 700000, user_pc := 100\<rparr>)\<rparr> in
   accounted 0 (update_cpu_clock 0 5 True st) = 100 + 128"
  using ticks_charged_exactly [of "zero_kstate\<lparr>rqs := (\<lambda>_. zero_rq\<lparr>rq_clock := 700000, user_pc := 100\<rparr>)\<rparr>" 0 5 True]
  by (simp add: Let_def pcs_ok_def stats_ok_def within_tick_def accounted_def load_parts_def stat_ticks_def
      zero_rq_def zero_kstate_def)

text \<open>Time of the softirq daemon is charged twice at a switch, to softirq time and to user time, although the
  total per tick is meant to be 128 parts.\<close>
theorem ksoftirqd_charged_twice:
  assumes "pcs_ok (rqs st c)" and "stats_ok (kstat st c)" and "within_tick c st"
    and "0 \<le> account_pc (rqs st c)" and "account_pc (rqs st c) < 2 ^ 62" and "ksoftirqd (env st c) = Some p"
    and "p \<noteq> idle (rqs st c)"
  shows "accounted c (update_cpu_clock c p False st) =
    accounted c st + NS_TO_PC (rq_clock (rqs st c) - timekeep_clock (rqs st c))"
  using charge_time_accounted [OF assms(1-5)] assms(6,7) by (simp add: update_cpu_clock_accounted)

theorem ksoftirqd_charged_twice_witness:
  "let st = zero_kstate\<lparr>rqs := (\<lambda>_. zero_rq\<lparr>rq_clock := 500000\<rparr>),
        env := (\<lambda>_. (env zero_kstate 0)\<lparr>ksoftirqd := Some 5\<rparr>)\<rparr> in
   accounted 0 (update_cpu_clock 0 5 False st) = 64"
  using ksoftirqd_charged_twice [of "zero_kstate\<lparr>rqs := (\<lambda>_. zero_rq\<lparr>rq_clock := 500000\<rparr>),
        env := (\<lambda>_. (env zero_kstate 0)\<lparr>ksoftirqd := Some 5\<rparr>)\<rparr>" 0 5]
  by (simp add: Let_def pcs_ok_def stats_ok_def within_tick_def accounted_def load_parts_def stat_ticks_def
      zero_rq_def zero_kstate_def NS_TO_PC_def cdiv_def s64_def)

section \<open>Time slices\<close>

lemma charge_time_rq:
  "rq_policy (rqs (charge_time c p tick st) d) = rq_policy (rqs st d)"
  "idle (rqs (charge_time c p tick st) d) = idle (rqs st d)"
  "curr (rqs (charge_time c p tick st) d) = curr (rqs st d)"
  "rq_clock (rqs (charge_time c p tick st) d) = rq_clock (rqs st d)"
  "rq_last_ran (rqs (charge_time c p tick st) d) = rq_last_ran (rqs st d)"
  "rq_time_slice (rqs (charge_time c p tick st) d) = rq_time_slice (rqs st d)"
  "rq_prio (rqs (charge_time c p tick st) d) = rq_prio (rqs st d)"
  "rq_deadline (rqs (charge_time c p tick st) d) = rq_deadline (rqs st d)"
  "rq_running (rqs (charge_time c p tick st) d) = rq_running (rqs st d)"
  "last_tick (rqs (charge_time c p tick st) d) = last_tick (rqs st d)"
  "sticky_task (rqs (charge_time c p tick st) d) = sticky_task (rqs st d)"
  "dither (rqs (charge_time c p tick st) d) = dither (rqs st d)"
  using charge_keep(4) [of c p tick st d] by (simp_all add: rq_keep_def)

lemma update_cpu_clock_rq [simp]:
  "rq_policy (rqs (update_cpu_clock c p tick st) d) = rq_policy (rqs st d)"
  "idle (rqs (update_cpu_clock c p tick st) d) = idle (rqs st d)"
  "curr (rqs (update_cpu_clock c p tick st) d) = curr (rqs st d)"
  "rq_clock (rqs (update_cpu_clock c p tick st) d) = rq_clock (rqs st d)"
  "rq_prio (rqs (update_cpu_clock c p tick st) d) = rq_prio (rqs st d)"
  "rq_deadline (rqs (update_cpu_clock c p tick st) d) = rq_deadline (rqs st d)"
  "rq_running (rqs (update_cpu_clock c p tick st) d) = rq_running (rqs st d)"
  "last_tick (rqs (update_cpu_clock c p tick st) d) = last_tick (rqs st d)"
  "sticky_task (rqs (update_cpu_clock c p tick st) d) = sticky_task (rqs st d)"
  "dither (rqs (update_cpu_clock c p tick st) d) = dither (rqs st d)"
  by (simp_all add: update_cpu_clock_def Let_def charge_time_rq)

lemma update_cpu_clock_slice:
  "rq_time_slice (rqs (update_cpu_clock c p tick st) c) =
     (if rq_policy (rqs st c) \<noteq> SCHED_FIFO \<and> p \<noteq> idle (rqs st c)
      then s32 (rq_time_slice (rqs st c) -
        NS_TO_US (niffy_diff (s64 (rq_clock (rqs st c) - rq_last_ran (rqs st c))) 1))
      else rq_time_slice (rqs st c))"
  by (simp add: update_cpu_clock_def Let_def charge_time_rq)

text \<open>Whatever the clocks read, one charge takes at most 1953 microseconds (two ticks) from the time slice of the
  running task and never adds to it; \<open>SCHED_FIFO\<close> tasks and the idle task keep theirs.\<close>
theorem time_slice_charge_bounded:
  assumes "- 2147481695 \<le> rq_time_slice (rqs st c)" and "rq_time_slice (rqs st c) < 2147483648"
  shows "rq_time_slice (rqs st c) - 1953 \<le> rq_time_slice (rqs (update_cpu_clock c p tick st) c) \<and>
    rq_time_slice (rqs (update_cpu_clock c p tick st) c) \<le> rq_time_slice (rqs st c) \<and>
    (rq_policy (rqs st c) = SCHED_FIFO \<or> p = idle (rqs st c) \<longrightarrow>
       rq_time_slice (rqs (update_cpu_clock c p tick st) c) = rq_time_slice (rqs st c))"
proof -
  let ?d = "niffy_diff (s64 (rq_clock (rqs st c) - rq_last_ran (rqs st c))) 1"
  have "1 \<le> ?d" "?d \<le> 2000000"
    using niffy_diff_bounds [of 1 "s64 (rq_clock (rqs st c) - rq_last_ran (rqs st c))"] niffy_bounds [of 1]
    by simp_all
  then have "0 div 1024 \<le> ?d div 1024" "?d div 1024 \<le> 2000000 div 1024" by (intro zdiv_mono1; simp)+
  then have n: "0 \<le> NS_TO_US ?d" "NS_TO_US ?d \<le> 1953" by (simp_all add: NS_TO_US_def)
  then have "s32 (rq_time_slice (rqs st c) - NS_TO_US ?d) = rq_time_slice (rqs st c) - NS_TO_US ?d"
    using assms by (intro s32_id) (simp add: in_s32_def)
  with n show ?thesis by (simp add: update_cpu_clock_slice)
qed

theorem time_slice_charge_bounded_witness:
  "let st = zero_kstate\<lparr>rqs := (\<lambda>_. zero_rq\<lparr>rq_clock := 900000000, rq_time_slice := 6144\<rparr>)\<rparr> in
   4191 \<le> rq_time_slice (rqs (update_cpu_clock 0 5 True st) 0)"
  using time_slice_charge_bounded [of "zero_kstate\<lparr>rqs := (\<lambda>_. zero_rq\<lparr>rq_clock := 900000000, rq_time_slice := 6144\<rparr>)\<rparr>" 0 5 True]
  by (simp add: Let_def)

section \<open>The load average\<close>

text \<open>A new load average lies between the old one and the current load: it never overshoots either, for any of the
  three decay factors and any load below a thousand million tasks.\<close>
theorem calc_load_between:
  assumes "0 \<le> load" and "load \<le> 2 ^ 41" and "0 \<le> active" and "active \<le> 2 ^ 41" and "0 \<le> exp" and "exp \<le> FIXED_1"
  shows "min load active \<le> calc_load load exp active \<and> calc_load load exp active \<le> max load active"
proof -
  have e: "exp \<le> 2048" using assms(6) by (simp add: FIXED_1_def FSHIFT_def)
  have f: "(2::int) ^ FSHIFT = 2048" by (simp add: FSHIFT_def)
  define x y where "x = load * exp" and "y = active * (2048 - exp)"
  have lx: "0 \<le> x" unfolding x_def using assms by simp
  have ly: "0 \<le> y" unfolding y_def using assms e by simp
  have ux: "x \<le> 2 ^ 41 * 2048" unfolding x_def using assms e by (intro mult_mono) auto
  have uy: "y \<le> 2 ^ 41 * 2048" unfolding y_def using assms e by (intro mult_mono) auto
  have c: "calc_load load exp active = (x + y) div 2048"
    using lx ly ux uy
    by (simp add: calc_load_def Let_def FIXED_1_def f x_def [symmetric] y_def [symmetric] u64_id in_u64_def)
  have split2: "z * exp + z * (2048 - exp) = 2048 * z" for z by (simp add: algebra_simps)
  have "x + y \<le> max load active * exp + max load active * (2048 - exp)"
    unfolding x_def y_def using assms(5) e by (intro add_mono mult_right_mono) auto
  moreover have "min load active * exp + min load active * (2048 - exp) \<le> x + y"
    unfolding x_def y_def using assms(5) e by (intro add_mono mult_right_mono) auto
  ultimately have "2048 * min load active \<le> x + y" "x + y \<le> 2048 * max load active"
    unfolding split2 by blast+
  then have "2048 * min load active div 2048 \<le> (x + y) div 2048" "(x + y) div 2048 \<le> 2048 * max load active div 2048"
    by (intro zdiv_mono1; simp)+
  then show ?thesis unfolding c by simp
qed

theorem calc_load_between_witness:
  "min 2048 4096 \<le> calc_load 2048 EXP_1 4096 \<and> calc_load 2048 EXP_1 4096 \<le> max 2048 4096"
  using calc_load_between [of 2048 4096 EXP_1] by (simp add: EXP_1_def FIXED_1_def FSHIFT_def)

end
