(* ===== verification/Sched_Wakeup.thy ===== *)
theory Sched_Wakeup
  imports Sched_Acct
begin

text \<open>
  Waking and forking (\<open>kernel/sched_bfs.c\<close>, lines 1717 to 2021): the wakeup statistics, the two wakeup
  paths, the set-up of a forked task and its first wakeup.  A wakeup is shown to put exactly the tasks
  in a matching sleep on their queue, once, and to keep the queue invariant.
\<close>

unbundle bit_operations_syntax

definition WF_SYNC :: int where "WF_SYNC = 1"

text \<open>The statistics go to the run queue of the executing processor, or to the smallest of its domains that
  spans the processor of the task.\<close>

primrec sd_wake_remote :: "cpu \<Rightarrow> sched_domain list \<Rightarrow> sched_domain list" where
  "sd_wake_remote c [] = []"
| "sd_wake_remote c (sd # rest) =
     (if c \<in> sd_span sd then sd\<lparr>ttwu_wake_remote := u32 (ttwu_wake_remote sd + 1)\<rparr> # rest
      else sd # sd_wake_remote c rest)"

definition ttwu_stat :: "cpu \<Rightarrow> cpu \<Rightarrow> kstate \<Rightarrow> kstate" where
  "ttwu_stat this c st =
     (let st = (if c = this then upd_rq this (\<lambda>r. r\<lparr>ttwu_local := u32 (ttwu_local r + 1)\<rparr>) st
                else st\<lparr>sds := (sds st)(this := sd_wake_remote c (sds st this))\<rparr>)
      in upd_rq this (\<lambda>r. r\<lparr>ttwu_count := u32 (ttwu_count r + 1)\<rparr>) st)"

definition ttwu_activate :: "cpu \<Rightarrow> tid \<Rightarrow> cpu \<Rightarrow> bool \<Rightarrow> kstate \<Rightarrow> kstate" where
  "ttwu_activate this p c is_sync st =
     (let st = activate_task p c st
      in if \<not> is_sync \<or> suitable_idle_cpus p st then try_preempt this p c st else st)"

definition ttwu_post_activation :: "tid \<Rightarrow> cpu \<Rightarrow> bool \<Rightarrow> kstate \<Rightarrow> kstate" where
  "ttwu_post_activation p c success st =
     (let st = upd_task p (\<lambda>t. t\<lparr>state := TASK_RUNNING\<rparr>) st
      in if flags (tasks st p) AND PF_WQ_WORKER \<noteq> 0 \<and> success
         then st\<lparr>wq_worker_waking_up := wq_worker_waking_up st @ [(p, c)]\<rparr> else st)"

definition try_to_wake_up :: "cpu \<Rightarrow> tid \<Rightarrow> int \<Rightarrow> int \<Rightarrow> kstate \<Rightarrow> kstate \<times> bool" where
  "try_to_wake_up this p s wake_flags st =
     (let c = task_cpu (tasks st p);
          r = (if u32 (state (tasks st p)) AND s = 0 then (st, False)
               else if task_queued p st \<or> task_running p st then (ttwu_post_activation p c False st, False)
               else (ttwu_post_activation p c True (ttwu_activate this p c (wake_flags AND WF_SYNC \<noteq> 0) st), True))
      in (ttwu_stat this c (fst r), snd r))"

definition try_to_wake_up_local :: "cpu \<Rightarrow> tid \<Rightarrow> kstate \<Rightarrow> kstate" where
  "try_to_wake_up_local this p st =
     (let c = task_cpu (tasks st p)
      in if state (tasks st p) AND TASK_NORMAL = 0 then st
         else if \<not> task_queued p st then
           (let st = (if \<not> task_running p st
                      then upd_rq c (\<lambda>r. r\<lparr>ttwu_count := u32 (ttwu_count r + 1), ttwu_local := u32 (ttwu_local r + 1)\<rparr>) st
                      else st);
                st = ttwu_activate this p c False st;
                st = ttwu_stat this this st
            in ttwu_post_activation p c True st)
         else ttwu_post_activation p c False st)"

definition wake_up_process :: "cpu \<Rightarrow> tid \<Rightarrow> kstate \<Rightarrow> kstate \<times> bool" where
  "wake_up_process this p = try_to_wake_up this p TASK_ALL 0"

definition wake_up_state :: "cpu \<Rightarrow> tid \<Rightarrow> int \<Rightarrow> kstate \<Rightarrow> kstate \<times> bool" where
  "wake_up_state this p s = try_to_wake_up this p s 0"

section \<open>Fork\<close>

text \<open>Task \<open>p\<close> is the copy of the current task that the fork code made; it is on no queue.\<close>

definition reset_on_fork :: "task_struct \<Rightarrow> task_struct" where
  "reset_on_fork t =
     (if sched_reset_on_fork t then
        (let t = (if policy t = SCHED_FIFO \<or> policy t = SCHED_RR
                  then let t = t\<lparr>policy := SCHED_NORMAL\<rparr> in t\<lparr>normal_prio := normal_prio_of t\<rparr> else t);
             t = (if PRIO_TO_NICE (static_prio t) < 0
                  then let t = t\<lparr>static_prio := NICE_TO_PRIO 0\<rparr> in t\<lparr>normal_prio := static_prio t\<rparr> else t)
         in t\<lparr>sched_reset_on_fork := False\<rparr>)
      else t)"

definition sched_fork :: "cpu \<Rightarrow> tid \<Rightarrow> kstate \<Rightarrow> kstate" where
  "sched_fork this p st =
     (let st = upd_task p (\<lambda>t. t\<lparr>state := TASK_RUNNING\<rparr>) st;
          st = set_task_cpu p this st;
          st = upd_task p (\<lambda>t. t\<lparr>sched_time := 0, stime_pc := 0, utime_pc := 0\<rparr>) st;
          st = upd_task p reset_on_fork st;
          cur = curr (rqs st this);
          st = upd_task p (\<lambda>t. t\<lparr>prio := normal_prio (tasks st cur)\<rparr>) st;
          st = upd_task p (\<lambda>t. t\<lparr>tsched_info := zero_sched_info, on_cpu := False\<rparr>) st;
          st = clear_sticky p st
      in if policy (tasks st p) = SCHED_FIFO then st
         else
           (let c = task_cpu (tasks st cur);
                st = (if rq_time_slice (rqs st c) \<ge> RESCHED_US * 2
                      then let st = upd_rq c (\<lambda>r. r\<lparr>rq_time_slice := rq_time_slice r div 2\<rparr>) st
                           in upd_task p (\<lambda>t. t\<lparr>time_slice := rq_time_slice (rqs st c)\<rparr>) st
                      else let st = upd_rq c (\<lambda>r. r\<lparr>rq_time_slice := 0\<rparr>) st;
                               st = upd_task cur (\<lambda>t. t\<lparr>tif_need_resched := True\<rparr>) st
                           in time_slice_expired p st)
            in upd_task p (\<lambda>t. t\<lparr>last_ran := rq_last_ran (rqs st c)\<rparr>) st))"

definition wake_up_new_task :: "cpu \<Rightarrow> tid \<Rightarrow> kstate \<Rightarrow> kstate" where
  "wake_up_new_task this p st =
     (let c = task_cpu (tasks st p);
          st = upd_task p (\<lambda>t. t\<lparr>state := TASK_RUNNING\<rparr>) st;
          par = parent (tasks st p);
          st = set_task_cpu p (task_cpu (tasks st par)) st;
          st = activate_task p c st
      in if curr (rqs st c) = par \<and> \<not> suitable_idle_cpus p st then resched_task this par st
         else try_preempt this p c st)"

section \<open>Frame\<close>

lemma ttwu_stat_frame [frame, simp]:
  "tasks (ttwu_stat this c st) = tasks st" "grq (ttwu_stat this c st) = grq st"
  "param (ttwu_stat this c st) = param st" "cpu_online_map (ttwu_stat this c st) = cpu_online_map st"
  "ipis (ttwu_stat this c st) = ipis st" "jiffies (ttwu_stat this c st) = jiffies st"
  "env (ttwu_stat this c st) = env st" "rr_interval (ttwu_stat this c st) = rr_interval st"
  "prio_ratios (ttwu_stat this c st) = prio_ratios st"
  by (simp_all add: ttwu_stat_def Let_def)

lemma core_ttwu_stat [simp]: "core (ttwu_stat this c st) = core st"
  by (rule coreI) (simp_all add: ttwu_stat_def Let_def)

text \<open>\<open>try_preempt\<close> only flags tasks, so waking is activating as far as the core goes.\<close>

lemma core_ttwu_activate: "core (ttwu_activate this p c is_sync st) = core (activate_task p c st)"
  by (simp add: ttwu_activate_def Let_def)

lemma ttwu_post_activation_tasks:
  "tasks (ttwu_post_activation p c s st) = (tasks st)(p := (tasks st p)\<lparr>state := TASK_RUNNING\<rparr>)"
  by (simp add: ttwu_post_activation_def Let_def)

lemma ttwu_post_activation_frame [frame, simp]:
  "grq (ttwu_post_activation p c s st) = grq st" "rqs (ttwu_post_activation p c s st) = rqs st"
  "param (ttwu_post_activation p c s st) = param st" "cpu_online_map (ttwu_post_activation p c s st) = cpu_online_map st"
  "jiffies (ttwu_post_activation p c s st) = jiffies st" "env (ttwu_post_activation p c s st) = env st"
  by (simp_all add: ttwu_post_activation_def Let_def)

lemma try_to_wake_up_snd:
  "snd (try_to_wake_up this p s wfl st) \<longleftrightarrow>
     u32 (state (tasks st p)) AND s \<noteq> 0 \<and> \<not> task_queued p st \<and> \<not> task_running p st"
  by (auto simp: try_to_wake_up_def Let_def)

lemma core_set_state:
  "core s1 = core s2 \<Longrightarrow> core (upd_task p (\<lambda>t. t\<lparr>state := x\<rparr>) s1) = core (upd_task p (\<lambda>t. t\<lparr>state := x\<rparr>) s2)"
  using coreD [of s1 s2] by (intro coreI) (auto simp: task_core_def grq_core_def)

text \<open>The three outcomes of a wakeup, in terms of the core of the state.\<close>

lemma try_to_wake_up_core:
  "core (fst (try_to_wake_up this p s wfl st)) =
     (if u32 (state (tasks st p)) AND s = 0 then core st
      else if task_queued p st \<or> task_running p st then core (upd_task p (\<lambda>t. t\<lparr>state := TASK_RUNNING\<rparr>) st)
      else core (upd_task p (\<lambda>t. t\<lparr>state := TASK_RUNNING\<rparr>) (activate_task p (task_cpu (tasks st p)) st)))"
proof -
  have post: "core (ttwu_post_activation p c b s1) = core (upd_task p (\<lambda>t. t\<lparr>state := TASK_RUNNING\<rparr>) s1)" for s1 c b
    by (intro coreI) (auto simp: ttwu_post_activation_tasks task_core_def grq_core_def)
  show ?thesis
    by (simp add: try_to_wake_up_def Let_def post core_set_state [OF core_ttwu_activate])
qed

lemma queue_ok_cong:
  assumes "queue_ok st" and "queue (grq st') = queue (grq st)" and "prio_bitmap (grq st') = prio_bitmap (grq st)"
    and "qnr (grq st') = qnr (grq st)"
    and "\<And>i p. p \<in> set (queue (grq st) i) \<Longrightarrow> prio (tasks st' p) = prio (tasks st p) \<and>
      on_cpu (tasks st' p) = on_cpu (tasks st p)"
  shows "queue_ok st'"
  using assms qs_ok_cong [of "{}" st st' "{}"] by (simp add: queue_ok_qs)

lemma queue_ok_core: "core st' = core st \<Longrightarrow> queue_ok st \<Longrightarrow> queue_ok st'"
  using coreD [of st' st] by (intro queue_ok_cong [of st st']) auto

lemma task_queued_cong: "queue (grq st') = queue (grq st) \<Longrightarrow> task_queued p st' = task_queued p st"
  by (simp add: task_queued_def)

lemma set_state_queue_ok: "queue_ok st \<Longrightarrow> queue_ok (upd_task p (\<lambda>t. t\<lparr>state := x\<rparr>) st)"
  by (rule queue_ok_cong) auto

lemma try_to_wake_up_wakes:
  assumes "queue_ok st" and "pol_ok (tasks st p)" and "p < TASK_LIMIT"
    and "snd (try_to_wake_up this p s wfl st)"
  shows "queue_ok (fst (try_to_wake_up this p s wfl st))"
    and "state (tasks (fst (try_to_wake_up this p s wfl st)) p) = TASK_RUNNING"
    and "queue (grq (fst (try_to_wake_up this p s wfl st))) = (queue (grq st))
       (nat (enqueue_prio (set_effective_prio (tasks st p)) st) :=
          queue (grq st) (nat (enqueue_prio (set_effective_prio (tasks st p)) st)) @ [p])"
    and "nr_running (grq (fst (try_to_wake_up this p s wfl st))) = u64 (nr_running (grq st) + 1)"
proof -
  let ?a = "activate_task p (task_cpu (tasks st p)) st"
  let ?b = "upd_task p (\<lambda>t. t\<lparr>state := TASK_RUNNING\<rparr>) ?a"
  have h: "u32 (state (tasks st p)) AND s \<noteq> 0" "\<not> task_queued p st" "\<not> task_running p st"
    using assms(4) by (simp_all add: try_to_wake_up_snd)
  have c: "core (fst (try_to_wake_up this p s wfl st)) = core ?b"
    using h by (simp add: try_to_wake_up_core)
  have "queue_ok ?a"
    using h(2,3) assms(1-3) by (intro activate_task_queue_ok(1)) (simp_all add: task_running_def)
  then show "queue_ok (fst (try_to_wake_up this p s wfl st))"
    by (intro queue_ok_core [OF c] set_state_queue_ok)
  show "state (tasks (fst (try_to_wake_up this p s wfl st)) p) = TASK_RUNNING"
    using coreD(1) [OF c, of p] by simp
  show "queue (grq (fst (try_to_wake_up this p s wfl st))) = (queue (grq st))
       (nat (enqueue_prio (set_effective_prio (tasks st p)) st) :=
          queue (grq st) (nat (enqueue_prio (set_effective_prio (tasks st p)) st)) @ [p])"
    unfolding coreD(12) [OF c] by (simp add: activate_task_queue Let_def)
  show "nr_running (grq (fst (try_to_wake_up this p s wfl st))) = u64 (nr_running (grq st) + 1)"
    unfolding coreD(15) [OF c] by simp
qed

text \<open>C21. \<open>try_to_wake_up\<close> succeeds exactly for a task in a matching state that is neither queued nor running.  Then
  the task is made runnable, appended to the queue of its effective priority and counted; otherwise
  queues and counters stay as they are.  The queue invariant holds afterwards in every case.\<close>
theorem try_to_wake_up_spec:
  assumes "queue_ok st" and "pol_ok (tasks st p)" and "p < TASK_LIMIT"
  shows "let st' = fst (try_to_wake_up this p s wfl st); ok = snd (try_to_wake_up this p s wfl st);
             i = nat (enqueue_prio (set_effective_prio (tasks st p)) st) in
    queue_ok st' \<and>
    (ok \<longleftrightarrow> u32 (state (tasks st p)) AND s \<noteq> 0 \<and> \<not> task_queued p st \<and> \<not> task_running p st) \<and>
    (u32 (state (tasks st p)) AND s \<noteq> 0 \<longrightarrow> state (tasks st' p) = TASK_RUNNING \<and> (task_queued p st' \<or> task_running p st')) \<and>
    queue (grq st') = (if ok then (queue (grq st))(i := queue (grq st) i @ [p]) else queue (grq st)) \<and>
    nr_running (grq st') = (if ok then u64 (nr_running (grq st) + 1) else nr_running (grq st))"
proof (cases "snd (try_to_wake_up this p s wfl st)")
  case True
  let ?st' = "fst (try_to_wake_up this p s wfl st)"
  let ?i = "nat (enqueue_prio (set_effective_prio (tasks st p)) st)"
  note w = try_to_wake_up_wakes [OF assms True]
  have "p \<in> set (queue (grq ?st') ?i)" using w(3) by simp
  then have "task_queued p ?st'" using w(1) qs_ok_queued by (auto simp: queue_ok_qs)
  with w True iffD1 [OF try_to_wake_up_snd True] show ?thesis by (simp add: Let_def)
next
  case False
  let ?st' = "fst (try_to_wake_up this p s wfl st)"
  have d: "u32 (state (tasks st p)) AND s = 0 \<or> task_queued p st \<or> task_running p st"
    using False by (auto simp: try_to_wake_up_snd)
  show ?thesis
  proof (cases "u32 (state (tasks st p)) AND s = 0")
    case True
    then have c: "core ?st' = core st" by (simp add: try_to_wake_up_core)
    from False True show ?thesis
      using queue_ok_core [OF c assms(1)] by (simp add: Let_def coreD [OF c])
  next
    case ns: False
    let ?u = "upd_task p (\<lambda>t. t\<lparr>state := TASK_RUNNING\<rparr>) st"
    have c: "core ?st' = core ?u" using ns d by (auto simp: try_to_wake_up_core)
    have q: "queue_ok ?st'" by (intro queue_ok_core [OF c] set_state_queue_ok assms(1))
    have "task_queued p ?st' = task_queued p st" "task_running p ?st' = task_running p st"
      using coreD(2,12) [OF c] by (simp_all add: task_running_def task_queued_def)
    then show ?thesis
      using False d ns q by (simp add: Let_def coreD [OF c])
  qed
qed

theorem try_to_wake_up_spec_witness:
  "let st = zero_kstate\<lparr>tasks := (\<lambda>_. zero_task\<lparr>state := TASK_INTERRUPTIBLE, prio := 102\<rparr>),
        grq := zero_grq\<lparr>prio_bitmap := set_bit_na 104 (\<lambda>_. 0)\<rparr>\<rparr> in
   queue (grq (fst (try_to_wake_up 0 7 TASK_NORMAL 0 st))) 102 = [7] \<and> queue_ok (fst (try_to_wake_up 0 7 TASK_NORMAL 0 st))"
proof -
  let ?st = "zero_kstate\<lparr>tasks := (\<lambda>_. zero_task\<lparr>state := TASK_INTERRUPTIBLE, prio := 102\<rparr>),
        grq := zero_grq\<lparr>prio_bitmap := set_bit_na 104 (\<lambda>_. 0)\<rparr>\<rparr>"
  have "qs_ok {} ?st" by (rule qs_ok_empty) (simp_all add: zero_grq_def)
  then have "queue_ok ?st" by (simp add: queue_ok_qs zero_grq_def qtotal_def)
  moreover have "pol_ok (tasks ?st 7)" "(7::nat) < TASK_LIMIT"
    by (simp_all add: pol_ok_def has_rt_policy_def is_rt_policy_def zero_task_def TASK_LIMIT_def)
  ultimately show ?thesis
    using try_to_wake_up_spec [of ?st 7 0 TASK_NORMAL 0]
    by (simp add: Let_def task_queued_def task_running_def zero_grq_def zero_task_def list_ex_iff u32_def
        enqueue_prio_def rt_task_def set_effective_prio_prio normal_prio_of_def has_rt_policy_def is_rt_policy_def
        idleprio_task_def iso_task_def rt_prio_def)
qed

section \<open>Forked tasks\<close>

lemma sched_fork_task:
  assumes "p \<noteq> curr (rqs st this)"
  shows "policy (tasks (sched_fork this p st) p) = policy (reset_on_fork (tasks st p))"
    and "prio (tasks (sched_fork this p st) p) = normal_prio (tasks st (curr (rqs st this)))"
    and "\<not> on_cpu (tasks (sched_fork this p st) p)" and "state (tasks (sched_fork this p st) p) = TASK_RUNNING"
    and "rt_priority (tasks (sched_fork this p st) p) = rt_priority (tasks st p)"
  using assms
  by (simp_all add: sched_fork_def Let_def set_task_cpu_def clear_sticky_def time_slice_expired_def reset_on_fork_def)

text \<open>A fork shares the time slice: unless the child is \<open>SCHED_FIFO\<close>, the parent keeps half of what it had left, rounded
  down, the child gets as much, and neither more than the parent had; a parent with less than 200
  microseconds left is flagged for rescheduling and the child starts with a fresh slice.\<close>
theorem sched_fork_shares_slice:
  assumes "p \<noteq> curr (rqs st this)" and "task_cpu (tasks st (curr (rqs st this))) = this"
    and "policy (reset_on_fork (tasks st p)) \<noteq> SCHED_FIFO" and "rq_time_slice (rqs st this) = x"
  shows "let st' = sched_fork this p st; cur = curr (rqs st this) in
    if 200 \<le> x then
      rq_time_slice (rqs st' this) = x div 2 \<and> time_slice (tasks st' p) = x div 2 \<and>
      rq_time_slice (rqs st' this) + time_slice (tasks st' p) \<le> x \<and> x - 1 \<le> rq_time_slice (rqs st' this) + time_slice (tasks st' p)
    else rq_time_slice (rqs st' this) = 0 \<and> tif_need_resched (tasks st' cur) \<and> time_slice (tasks st' p) = timeslice st"
proof -
  have pol: "policy (reset_on_fork (t\<lparr>state := a, task_cpu := b, sched_time := 0, stime_pc := 0, utime_pc := 0\<rparr>)) =
      policy (reset_on_fork t)" for t a b
    by (simp add: reset_on_fork_def Let_def)
  show ?thesis
    using assms
    by (auto simp: sched_fork_def Let_def set_task_cpu_def clear_sticky_def time_slice_expired_def timeslice_def pol)
qed

theorem sched_fork_shares_slice_witness:
  "let st = zero_kstate\<lparr>rqs := (\<lambda>_. zero_rq\<lparr>curr := 3, rq_time_slice := 5001\<rparr>)\<rparr> in
   rq_time_slice (rqs (sched_fork 0 9 st) 0) = 2500 \<and> time_slice (tasks (sched_fork 0 9 st) 9) = 2500"
  using sched_fork_shares_slice [of 9 "zero_kstate\<lparr>rqs := (\<lambda>_. zero_rq\<lparr>curr := 3, rq_time_slice := 5001\<rparr>)\<rparr>" 0 5001]
  by (simp add: Let_def zero_kstate_def zero_task_def reset_on_fork_def)

text \<open>The reset on fork does not take the realtime priority from the child: a child of a realtime parent with
  \<open>sched_reset_on_fork\<close> set gets policy \<open>SCHED_NORMAL\<close>, but is queued by its first wakeup at the
  realtime priority of the parent.\<close>
theorem sched_fork_reset_keeps_rt:
  assumes "p \<noteq> curr (rqs st this)" and "sched_reset_on_fork (tasks st p)"
    and "has_rt_policy (tasks st p)"
    and "normal_prio (tasks st (curr (rqs st this))) = r" and "0 \<le> r" and "r < MAX_RT_PRIO"
  shows "let st' = wake_up_new_task this p (sched_fork this p st) in
    policy (tasks st' p) = SCHED_NORMAL \<and> p \<in> set (queue (grq st') (nat r)) \<and> rt_task (tasks st' p)"
proof -
  let ?f = "sched_fork this p st"
  have pol: "policy (tasks ?f p) = SCHED_NORMAL"
    unfolding sched_fork_task(1) [OF assms(1)] using assms(2,3)
    by (auto simp: reset_on_fork_def Let_def has_rt_policy_def is_rt_policy_def)
  have pr: "prio (tasks ?f p) = r" using sched_fork_task(2) [OF assms(1)] assms(4) by simp
  let ?g = "set_task_cpu p (task_cpu (tasks (upd_task p (\<lambda>t. t\<lparr>state := TASK_RUNNING\<rparr>) ?f)
    (parent (tasks (upd_task p (\<lambda>t. t\<lparr>state := TASK_RUNNING\<rparr>) ?f) p)))) (upd_task p (\<lambda>t. t\<lparr>state := TASK_RUNNING\<rparr>) ?f)"
  let ?h = "activate_task p (task_cpu (tasks ?f p)) ?g"
  have c: "core (wake_up_new_task this p ?f) = core ?h"
    by (simp add: wake_up_new_task_def Let_def)
  have g: "policy (tasks ?g p) = SCHED_NORMAL" "prio (tasks ?g p) = r"
    using pol pr by (simp_all add: set_task_cpu_def)
  then have e: "enqueue_prio (set_effective_prio (tasks ?g p)) ?g = r"
    using assms(6) by (simp add: enqueue_prio_def rt_task_def rt_prio_def set_effective_prio_prio)
  have "prio (tasks ?h p) = r" "policy (tasks ?h p) = SCHED_NORMAL" "p \<in> set (queue (grq ?h) (nat r))"
    using e g by (simp_all add: activate_task_tasks activate_task_queue Let_def)
  then show ?thesis
    using coreD [OF c] assms(6) by (simp add: Let_def rt_task_def rt_prio_def)
qed

theorem sched_fork_reset_keeps_rt_witness:
  "let st = zero_kstate\<lparr>tasks := (\<lambda>_. zero_task\<lparr>policy := SCHED_FIFO, sched_reset_on_fork := True, normal_prio := 50\<rparr>),
        rqs := (\<lambda>_. zero_rq\<lparr>curr := 3\<rparr>), grq := zero_grq\<lparr>prio_bitmap := set_bit_na 104 (\<lambda>_. 0)\<rparr>\<rparr>;
       st' = wake_up_new_task 0 9 (sched_fork 0 9 st) in
   policy (tasks st' 9) = SCHED_NORMAL \<and> 9 \<in> set (queue (grq st') 50)"
proof -
  let ?st = "zero_kstate\<lparr>tasks := (\<lambda>_. zero_task\<lparr>policy := SCHED_FIFO, sched_reset_on_fork := True, normal_prio := 50\<rparr>),
        rqs := (\<lambda>_. zero_rq\<lparr>curr := 3\<rparr>), grq := zero_grq\<lparr>prio_bitmap := set_bit_na 104 (\<lambda>_. 0)\<rparr>\<rparr>"
  show ?thesis
    using sched_fork_reset_keeps_rt [of 9 ?st 0 50]
    by (simp add: Let_def has_rt_policy_def is_rt_policy_def)
qed

end
