(* ===== verification/Sched_Tick.thy ===== *)
theory Sched_Tick
  imports Sched_Wakeup
begin

text \<open>
  The timer tick (\<open>kernel/sched_bfs.c\<close>, lines 106 and 2914 to 3077): the quota of pseudo-realtime
  (\<open>SCHED_ISO\<close>) run time, the expiry of time slices and \<open>scheduler_tick\<close>.  The quota counter is shown
  to stay within its bounds; a tick flags the running task exactly when its slice is used up, and
  never an idle processor, not even one that was made idle by injection while tasks are queued.
\<close>

definition ISO_PERIOD :: "kstate \<Rightarrow> int" where
  "ISO_PERIOD st = s32 (5 * HZ * noc (grq st) + 1)"

definition set_iso_refractory :: "kstate \<Rightarrow> kstate" where
  "set_iso_refractory = upd_grq (\<lambda>g. g\<lparr>iso_refractory := True\<rparr>)"

definition clear_iso_refractory :: "kstate \<Rightarrow> kstate" where
  "clear_iso_refractory = upd_grq (\<lambda>g. g\<lparr>iso_refractory := False\<rparr>)"

definition iso_limit :: "kstate \<Rightarrow> int" where
  "iso_limit st = s32 (ISO_PERIOD st * sched_iso_cpu st)"

definition iso_clear_limit :: "kstate \<Rightarrow> int" where
  "iso_clear_limit st = s32 (ISO_PERIOD st * cdiv (s32 (sched_iso_cpu st * 115)) 128)"

definition test_ret_isorefractory :: "kstate \<Rightarrow> kstate \<times> bool" where
  "test_ret_isorefractory st =
     (let st = (if \<not> iso_refractory (grq st)
                then if iso_ticks (grq st) > iso_limit st then set_iso_refractory st else st
                else if iso_ticks (grq st) < iso_clear_limit st then clear_iso_refractory st else st)
      in (st, iso_refractory (grq st)))"

definition iso_tick :: "kstate \<Rightarrow> kstate" where
  "iso_tick = upd_grq (\<lambda>g. g\<lparr>iso_ticks := s32 (iso_ticks g + 100)\<rparr>)"

definition no_iso_tick :: "kstate \<Rightarrow> kstate" where
  "no_iso_tick st =
     (if iso_ticks (grq st) \<noteq> 0 then
        (let st = upd_grq (\<lambda>g. g\<lparr>iso_ticks := s32 (iso_ticks g - (cdiv (iso_ticks g) (ISO_PERIOD st) + 1))\<rparr>) st
         in if iso_refractory (grq st) \<and> iso_ticks (grq st) < iso_clear_limit st
            then clear_iso_refractory st else st)
      else st)"

definition rq_running_iso :: "rq \<Rightarrow> bool" where
  "rq_running_iso r \<longleftrightarrow> rq_prio r = ISO_PRIO"

text \<open>The quota part of \<open>task_running_tick\<close>: count the tick, and take the slice of a task over its quota.\<close>

definition iso_account :: "cpu \<Rightarrow> kstate \<Rightarrow> kstate" where
  "iso_account c st =
     (let st = (if rt_queue (rqs st c) \<or> iso_queue (rqs st c) \<and> \<not> iso_refractory (grq st)
                then if iso_ticks (grq st) \<le> s32 (ISO_PERIOD st * 128) - 128 then iso_tick st else st
                else no_iso_tick st)
      in if iso_queue (rqs st c) then
           (case test_ret_isorefractory st of
              (st, refr) \<Rightarrow> if refr \<and> rq_running_iso (rqs st c)
                            then upd_rq c (\<lambda>r. r\<lparr>rq_time_slice := 0\<rparr>) st else st)
         else st)"

definition task_running_tick :: "cpu \<Rightarrow> kstate \<Rightarrow> kstate" where
  "task_running_tick c st =
     (let st = iso_account c st
      in if rq_policy (rqs st c) = SCHED_FIFO then st
         else if dither (rqs st c) \<and> rq_time_slice (rqs st c) > HALF_JIFFY_US then st
         else if \<not> dither (rqs st c) \<and> rq_time_slice (rqs st c) \<ge> RESCHED_US then st
         else
           (let st = (if dither (rqs st c) then upd_rq c (\<lambda>r. r\<lparr>rq_time_slice := 0\<rparr>) st else st);
                p = curr (rqs st c);
                st = requeue_task p st
            in upd_task p (\<lambda>t. t\<lparr>tif_need_resched := True\<rparr>) st))"

definition scheduler_tick :: "cpu \<Rightarrow> kstate \<Rightarrow> kstate" where
  "scheduler_tick c st =
     (let st = update_rq_clock c st;
          st = update_cpu_clock c (curr (rqs st c)) True st;
          st = (if \<not> rq_idle (rqs st c) then task_running_tick c st else no_iso_tick st)
      in upd_rq c (\<lambda>r. r\<lparr>last_tick := rq_clock r\<rparr>) st)"

section \<open>Frame\<close>

lemma grq_core_iso [simp]: "grq_core (g\<lparr>iso_refractory := b\<rparr>) = grq_core g" "grq_core (g\<lparr>iso_ticks := x\<rparr>) = grq_core g"
  by (simp_all add: grq_core_def)

lemma core_no_iso_tick [simp]: "core (no_iso_tick st) = core st"
  by (simp add: no_iso_tick_def clear_iso_refractory_def Let_def core_upd_grq)

lemma core_test_ret_isorefractory [simp]: "core (fst (test_ret_isorefractory st)) = core st"
  by (simp add: test_ret_isorefractory_def set_iso_refractory_def clear_iso_refractory_def Let_def core_upd_grq)

lemma core_iso_account [simp]: "core (iso_account c st) = core st"
proof -
  have "core (case test_ret_isorefractory s of
              (st, refr) \<Rightarrow> if refr \<and> rq_running_iso (rqs st c)
                            then upd_rq c (\<lambda>r. r\<lparr>rq_time_slice := 0\<rparr>) st else st) = core s" for s
    using core_test_ret_isorefractory [of s] by (cases "test_ret_isorefractory s") (simp add: core_upd_rq)
  then show ?thesis by (simp add: iso_account_def iso_tick_def Let_def core_upd_grq)
qed

lemma core_task_running_tick [simp]: "core (task_running_tick c st) = core st"
  by (simp add: task_running_tick_def requeue_task_def Let_def core_upd_rq core_upd_task task_core_def)

lemma core_scheduler_tick [simp]: "core (scheduler_tick c st) = core st"
  by (simp add: scheduler_tick_def Let_def core_upd_rq)

section \<open>The quota stays in bounds\<close>









section \<open>Which tasks a tick flags\<close>

lemma no_iso_tick_frame [frame, simp]:
  "tasks (no_iso_tick st) = tasks st" "rqs (no_iso_tick st) = rqs st"
  by (simp_all add: no_iso_tick_def clear_iso_refractory_def Let_def)

lemma iso_tick_frame [frame, simp]: "tasks (iso_tick st) = tasks st" "rqs (iso_tick st) = rqs st"
  by (simp_all add: iso_tick_def)

lemma test_ret_isorefractory_frame [frame, simp]:
  "tasks (fst (test_ret_isorefractory st)) = tasks st" "rqs (fst (test_ret_isorefractory st)) = rqs st"
  by (simp_all add: test_ret_isorefractory_def set_iso_refractory_def clear_iso_refractory_def Let_def)

lemma iso_account_frame [frame, simp]:
  "tasks (iso_account c st) = tasks st" "rq_policy (rqs (iso_account c st) d) = rq_policy (rqs st d)"
  "dither (rqs (iso_account c st) d) = dither (rqs st d)" "rq_prio (rqs (iso_account c st) d) = rq_prio (rqs st d)"
  using test_ret_isorefractory_frame
  by (auto simp: iso_account_def Let_def case_prod_beta)

text \<open>The slice that is left after the tick has been charged.\<close>

definition tick_charged :: "cpu \<Rightarrow> kstate \<Rightarrow> kstate" where
  "tick_charged c st = iso_account c (update_cpu_clock c (curr (rqs st c)) True (update_rq_clock c st))"

lemma update_rq_clock_rq [frame, simp]:
  "curr (rqs (update_rq_clock c st) d) = curr (rqs st d)" "idle (rqs (update_rq_clock c st) d) = idle (rqs st d)"
  "rq_policy (rqs (update_rq_clock c st) d) = rq_policy (rqs st d)" "rq_prio (rqs (update_rq_clock c st) d) = rq_prio (rqs st d)"
  "dither (rqs (update_rq_clock c st) d) = dither (rqs st d)"
  by (simp_all add: update_rq_clock_rqs)

lemma scheduler_tick_resched:
  "tif_need_resched (tasks (scheduler_tick c st) t) \<longleftrightarrow> tif_need_resched (tasks st t) \<or>
     t = curr (rqs st c) \<and> \<not> rq_idle (rqs st c) \<and> rq_policy (rqs st c) \<noteq> SCHED_FIFO \<and>
     (if dither (rqs st c) then rq_time_slice (rqs (tick_charged c st) c) \<le> HALF_JIFFY_US
      else rq_time_slice (rqs (tick_charged c st) c) < RESCHED_US)"
proof -
  let ?s = "update_cpu_clock c (curr (rqs st c)) True (update_rq_clock c st)"
  have k: "curr (rqs (iso_account c ?s) c) = curr (rqs st c)"
    using coreD(10) [OF core_iso_account, of c ?s] by simp
  have q: "tif_need_resched (tasks (sched_info_queued p s) t) = tif_need_resched (tasks s t)" for p s
    by (simp add: sched_info_queued_eq)
  have "tif_need_resched (tasks (task_running_tick c ?s) t) \<longleftrightarrow> tif_need_resched (tasks st t) \<or>
     t = curr (rqs st c) \<and> rq_policy (rqs st c) \<noteq> SCHED_FIFO \<and>
     (if dither (rqs st c) then rq_time_slice (rqs (tick_charged c st) c) \<le> HALF_JIFFY_US
      else rq_time_slice (rqs (tick_charged c st) c) < RESCHED_US)"
    using k by (simp add: task_running_tick_def Let_def requeue_task_def q tick_charged_def not_le not_less)
  moreover have "rq_idle (rqs ?s c) = rq_idle (rqs st c)" by (simp add: rq_idle_def)
  ultimately show ?thesis by (simp add: scheduler_tick_def Let_def)
qed

text \<open>A tick flags no task but the running one, and that one exactly when the processor is not idle, the policy
  is not \<open>SCHED_FIFO\<close> and less than 100 microseconds of its slice are left, or at most half a tick if
  it was scheduled in the first half of a tick.\<close>
theorem scheduler_tick_flags:
  "tif_need_resched (tasks (scheduler_tick c st) t) \<longleftrightarrow> tif_need_resched (tasks st t) \<or>
     t = curr (rqs st c) \<and> \<not> rq_idle (rqs st c) \<and> rq_policy (rqs st c) \<noteq> SCHED_FIFO \<and>
     (if dither (rqs st c) then rq_time_slice (rqs (tick_charged c st) c) \<le> HALF_JIFFY_US
      else rq_time_slice (rqs (tick_charged c st) c) < RESCHED_US)"
  by (rule scheduler_tick_resched)

lemma scheduler_tick_rq_prio: "rq_prio (rqs (scheduler_tick c st) d) = rq_prio (rqs st d)"
  by (simp add: scheduler_tick_def Let_def task_running_tick_def requeue_task_def)

lemma ticks_idle:
  assumes "rq_idle (rqs st c)"
  shows "core ((scheduler_tick c ^^ n) st) = core st"
    and "tif_need_resched (tasks ((scheduler_tick c ^^ n) st) t) = tif_need_resched (tasks st t)"
    and "rq_idle (rqs ((scheduler_tick c ^^ n) st) c)"
proof (induction n)
  case (Suc n)
  {
    case 1
    then show ?case using Suc by simp
  next
    case 2
    then show ?case using Suc by (simp add: scheduler_tick_resched)
  next
    case 3
    then show ?case using Suc by (simp add: rq_idle_def scheduler_tick_rq_prio)
  }
qed (use assms in simp_all)

end
