(* ===== verification/Sched_Core.thy ===== *)
theory Sched_Core
  imports Sched_Tick
begin

text \<open>
  The scheduler proper (\<open>kernel/sched_bfs.c\<close>, lines 2080 to 2231 and 3196 to 3517, and
  \<open>kernel/sched_stats.h\<close>): the search for the next task, the context switch and one pass of
  \<open>schedule()\<close>, with both kinds of idle injection.
\<close>

unbundle bit_operations_syntax

section \<open>Searching for the next task\<close>

text \<open>The deadline a task of the non-realtime queues competes with on processor \<open>c\<close>; None for a task that is
  passed over.\<close>

definition edt_deadline :: "cpu \<Rightarrow> kstate \<Rightarrow> tid \<Rightarrow> int option" where
  "edt_deadline c st p =
     (if needs_other_cpu (tasks st p) c then None
      else if task_cpu (tasks st p) \<noteq> c \<and> task_sticky p st
      then (if scaling_rq (rqs st c) then None
            else Some (u64 (deadline (tasks st p) + longest_deadline_diff st)))
      else Some (deadline (tasks st p)))"

definition edt_step :: "cpu \<Rightarrow> kstate \<Rightarrow> tid \<Rightarrow> tid \<times> int \<Rightarrow> tid \<times> int" where
  "edt_step c st p = (\<lambda>(edt, earliest_deadline).
     case edt_deadline c st p of
       None \<Rightarrow> (edt, earliest_deadline)
     | Some dl \<Rightarrow>
         if edt = idle (rqs st c) \<or> deadline_before dl earliest_deadline then (p, dl)
         else (edt, earliest_deadline))"

text \<open>The loop from label \<open>retry\<close>.  The flag of the result tells a realtime task, which is taken at once,
  from one that is still subject to injection; None is the way out with \<open>edt = idle\<close>.\<close>

function edt_search :: "cpu \<Rightarrow> nat \<Rightarrow> kstate \<Rightarrow> (bool \<times> tid) option" where
  "edt_search c idx st =
     (let idx = find_next_bit (prio_bitmap (grq st)) (nat PRIO_LIMIT) idx
      in if nat PRIO_LIMIT \<le> idx then None
         else if idx < nat MAX_RT_PRIO then
           (case find (\<lambda>p. \<not> needs_other_cpu (tasks st p) c) (queue (grq st) idx) of
              Some p \<Rightarrow> Some (True, p)
            | None \<Rightarrow> edt_search c (Suc idx) st)
         else
           (let edt = fst (fold (edt_step c st) (queue (grq st) idx) (idle (rqs st c), 0))
            in if edt = idle (rqs st c)
               then (if Suc idx < nat PRIO_LIMIT then edt_search c (Suc idx) st else None)
               else Some (False, edt)))"
  by pat_completeness auto

lemma find_next_bit_ge: "find_next_bit b 104 idx < 104 \<Longrightarrow> idx \<le> find_next_bit b 104 idx"
  using find_next_bit_next [of idx 104 b] find_next_bit_past [of 104 idx b]
  by (cases "idx < 104") (auto simp: is_next_bit_def)

termination edt_search
proof (relation "measure (\<lambda>(c, idx, st). 104 - idx)", goal_cases)
  case 1
  then show ?case by simp
next
  case (2 c idx st x)
  then show ?case using find_next_bit_ge [of "prio_bitmap (grq st)" idx] by simp
next
  case (3 c idx st x y)
  then show ?case using find_next_bit_ge [of "prio_bitmap (grq st)" idx] by simp
qed

declare edt_search.simps [simp del]

definition earliest_deadline_task :: "cpu \<Rightarrow> kstate \<Rightarrow> kstate \<times> tid" where
  "earliest_deadline_task c st =
     (case edt_search c 0 st of
        None \<Rightarrow> (st, idle (rqs st c))
      | Some (True, p) \<Rightarrow> (take_task c p st, p)
      | Some (False, p) \<Rightarrow>
          (case inject_check (tgid (tasks st p)) (pid (tasks st p)) (param st) of
             (par, hit) \<Rightarrow>
               let st = st\<lparr>param := par\<rparr>
               in if hit then (st, idle (rqs st c)) else (take_task c p st, p)))"

section \<open>Statistics of queueing\<close>

definition rq_sched_info_arrive :: "cpu \<Rightarrow> int \<Rightarrow> kstate \<Rightarrow> kstate" where
  "rq_sched_info_arrive c delta =
     upd_rq c (\<lambda>r. r\<lparr>rq_sched_info := (rq_sched_info r)\<lparr>run_delay := u64 (run_delay (rq_sched_info r) + delta),
       pcount := u64 (pcount (rq_sched_info r) + 1)\<rparr>\<rparr>)"

definition rq_sched_info_depart :: "cpu \<Rightarrow> int \<Rightarrow> kstate \<Rightarrow> kstate" where
  "rq_sched_info_depart c delta = upd_rq c (\<lambda>r. r\<lparr>rq_cpu_time := u64 (rq_cpu_time r + delta)\<rparr>)"

definition rq_sched_info_dequeued :: "cpu \<Rightarrow> int \<Rightarrow> kstate \<Rightarrow> kstate" where
  "rq_sched_info_dequeued c delta =
     upd_rq c (\<lambda>r. r\<lparr>rq_sched_info := (rq_sched_info r)\<lparr>run_delay := u64 (run_delay (rq_sched_info r) + delta)\<rparr>\<rparr>)"

definition sched_info_reset_dequeued :: "task_struct \<Rightarrow> task_struct" where
  "sched_info_reset_dequeued t = t\<lparr>tsched_info := (tsched_info t)\<lparr>last_queued := 0\<rparr>\<rparr>"

text \<open>Time a task has waited since it was first queued.\<close>

definition queue_delay :: "tid \<Rightarrow> kstate \<Rightarrow> int" where
  "queue_delay p st =
     (let now = rq_clock (rqs st (task_cpu (tasks st p)))
      in if last_queued (tsched_info (tasks st p)) \<noteq> 0 then u64 (now - last_queued (tsched_info (tasks st p))) else 0)"

definition sched_info_dequeued :: "tid \<Rightarrow> kstate \<Rightarrow> kstate" where
  "sched_info_dequeued p st =
     (let delta = queue_delay p st;
          st = upd_task p sched_info_reset_dequeued st;
          st = upd_task p (\<lambda>t. t\<lparr>tsched_info := (tsched_info t)\<lparr>run_delay := u64 (run_delay (tsched_info t) + delta)\<rparr>\<rparr>) st
      in rq_sched_info_dequeued (task_cpu (tasks st p)) delta st)"

definition sched_info_arrive :: "tid \<Rightarrow> kstate \<Rightarrow> kstate" where
  "sched_info_arrive p st =
     (let now = rq_clock (rqs st (task_cpu (tasks st p)));
          delta = queue_delay p st;
          st = upd_task p sched_info_reset_dequeued st;
          st = upd_task p (\<lambda>t. t\<lparr>tsched_info := (tsched_info t)\<lparr>run_delay := u64 (run_delay (tsched_info t) + delta),
                 last_arrival := now, pcount := u64 (pcount (tsched_info t) + 1)\<rparr>\<rparr>) st
      in rq_sched_info_arrive (task_cpu (tasks st p)) delta st)"

definition sched_info_depart :: "tid \<Rightarrow> kstate \<Rightarrow> kstate" where
  "sched_info_depart p st =
     (let c = task_cpu (tasks st p);
          delta = u64 (rq_clock (rqs st c) - last_arrival (tsched_info (tasks st p)));
          st = rq_sched_info_depart c delta st
      in if state (tasks st p) = TASK_RUNNING then sched_info_queued p st else st)"

definition sched_info_switch :: "tid \<Rightarrow> tid \<Rightarrow> kstate \<Rightarrow> kstate" where
  "sched_info_switch prev next st =
     (let c = task_cpu (tasks st prev);
          st = (if prev \<noteq> idle (rqs st c) then sched_info_depart prev st else st)
      in if next \<noteq> idle (rqs st c) then sched_info_arrive next st else st)"

section \<open>The context switch\<close>

definition prepare_task_switch :: "tid \<Rightarrow> tid \<Rightarrow> kstate \<Rightarrow> kstate" where
  "prepare_task_switch prev next st = sched_info_switch prev next st"

definition mmdrop :: "nat \<Rightarrow> kstate \<Rightarrow> kstate" where
  "mmdrop m st = st\<lparr>mm_count := (mm_count st)(m := mm_count st m - 1)\<rparr>"

definition put_task_struct :: "tid \<Rightarrow> kstate \<Rightarrow> kstate" where
  "put_task_struct p = upd_task p (\<lambda>t. t\<lparr>usage := usage t - 1\<rparr>)"

definition finish_task_switch :: "cpu \<Rightarrow> tid \<Rightarrow> kstate \<Rightarrow> kstate" where
  "finish_task_switch c prev st =
     (let m = prev_mm (rqs st c);
          st = upd_rq c (\<lambda>r. r\<lparr>prev_mm := None\<rparr>) st;
          prev_state = state (tasks st prev);
          st = (case m of None \<Rightarrow> st | Some a \<Rightarrow> mmdrop a st)
      in if prev_state = TASK_DEAD then put_task_struct prev st else st)"

definition mm_get :: "nat option \<Rightarrow> kstate \<Rightarrow> kstate" where
  "mm_get m st = (case m of None \<Rightarrow> st | Some a \<Rightarrow> st\<lparr>mm_count := (mm_count st)(a := mm_count st a + 1)\<rparr>)"

definition context_switch :: "cpu \<Rightarrow> tid \<Rightarrow> tid \<Rightarrow> kstate \<Rightarrow> kstate" where
  "context_switch c prev next st =
     (let st = prepare_task_switch prev next st;
          oldmm = active_mm (tasks st prev);
          st = (if mm (tasks st next) = None
                then mm_get oldmm (upd_task next (\<lambda>t. t\<lparr>active_mm := oldmm\<rparr>) st) else st);
          st = (if mm (tasks st prev) = None
                then upd_rq c (\<lambda>r. r\<lparr>prev_mm := oldmm\<rparr>) (upd_task prev (\<lambda>t. t\<lparr>active_mm := None\<rparr>) st) else st)
      in finish_task_switch c prev st)"

section \<open>One pass of schedule\<close>

definition schedule_debug :: "cpu \<Rightarrow> kstate \<Rightarrow> kstate" where
  "schedule_debug c = upd_rq c (\<lambda>r. r\<lparr>sched_count := u32 (sched_count r + 1)\<rparr>)"

definition set_rq_task :: "cpu \<Rightarrow> tid \<Rightarrow> kstate \<Rightarrow> kstate" where
  "set_rq_task c p st =
     (let t = tasks st p;
          st = upd_task p (\<lambda>t. t\<lparr>last_ran := rq_clock (rqs st c)\<rparr>) st
      in upd_rq c (\<lambda>r. r\<lparr>rq_time_slice := time_slice t, rq_deadline := deadline t, rq_last_ran := rq_clock r,
            rq_policy := policy t, rq_prio := prio t, rq_running := (p \<noteq> idle r)\<rparr>) st)"

definition reset_rq_task :: "cpu \<Rightarrow> tid \<Rightarrow> kstate \<Rightarrow> kstate" where
  "reset_rq_task c p st = upd_rq c (\<lambda>r. r\<lparr>rq_policy := policy (tasks st p), rq_prio := prio (tasks st p)\<rparr>) st"

text \<open>Does the current task block?  The result is the state, \<open>deactivate\<close>, and whether the switch counts as
  voluntary.  \<open>preempt_active\<close> is the bit of the preemption count.\<close>

definition schedule_block :: "cpu \<Rightarrow> tid \<Rightarrow> bool \<Rightarrow> kstate \<Rightarrow> kstate \<times> bool \<times> bool" where
  "schedule_block c prev preempt_active st =
     (if state (tasks st prev) \<noteq> 0 \<and> \<not> preempt_active then
        (if signal_pending_state (state (tasks st prev)) (tasks st prev)
         then (upd_task prev (\<lambda>t. t\<lparr>state := TASK_RUNNING\<rparr>) st, False, True)
         else if flags (tasks st prev) AND PF_WQ_WORKER \<noteq> 0 then
           (case wq_worker_sleeping st prev c of
              None \<Rightarrow> (st, True, True)
            | Some to_wakeup \<Rightarrow>
                if to_wakeup = prev then (st, False, True)
                else (try_to_wake_up_local c to_wakeup st, True, True))
         else (st, True, True))
      else (st, False, False))"

definition schedule_account :: "cpu \<Rightarrow> tid \<Rightarrow> kstate \<Rightarrow> kstate" where
  "schedule_account c prev st =
     (let st = update_clocks c st;
          st = update_cpu_clock c prev False st;
          st = upd_rq c (\<lambda>r. r\<lparr>dither := \<not> u64 (rq_clock r - last_tick r) > HALF_JIFFY_NS\<rparr>) st
      in upd_task prev (\<lambda>t. t\<lparr>tif_need_resched := False\<rparr>) st)"

text \<open>Putting a task other than idle back.  The flag tells the shortcut that runs it again.\<close>

definition schedule_put_prev :: "cpu \<Rightarrow> tid \<Rightarrow> bool \<Rightarrow> kstate \<Rightarrow> kstate \<times> bool" where
  "schedule_put_prev c prev deactivate st =
     (let st = upd_task prev (\<lambda>t. t\<lparr>time_slice := rq_time_slice (rqs st c), deadline := rq_deadline (rqs st c)\<rparr>) st;
          st = check_deadline prev st;
          st = upd_task prev (\<lambda>t. t\<lparr>last_ran := rq_clock (rqs st c)\<rparr>) st
      in if needs_other_cpu (tasks st prev) c
         then (return_task prev deactivate (resched_suitable_idle c prev st), False)
         else if \<not> deactivate then
           (if queued_notrunning st = 0 then (st, True)
            else (return_task prev deactivate (swap_sticky c c prev st), False))
         else (return_task prev deactivate st, False))"

text \<open>The global injection: the set-up on the very first pass, then the count of passes.\<close>

definition schedule_inject :: "kstate \<Rightarrow> (kstate \<times> int) outcome" where
  "schedule_inject st =
     (let injection_value = global_rate (param st);
          r = (if is_init (param st) = 1
               then (case setup_env st of (h, d, g, q) \<Rightarrow>
                       case set_everything_idlepar h d g q ((param st)\<lparr>is_init := 0\<rparr>) of
                         Oops \<Rightarrow> Oops | Returns par \<Rightarrow> Returns (st\<lparr>param := par\<rparr>))
               else Returns st)
      in case r of Oops \<Rightarrow> Oops
         | Returns st \<Rightarrow>
             Returns (st\<lparr>param := (param st)\<lparr>idle_cycles_offset := s32 (idle_cycles_offset (param st) + 1)\<rparr>\<rparr>,
                      injection_value))"

definition schedule_goidle :: "cpu \<Rightarrow> kstate \<Rightarrow> kstate" where
  "schedule_goidle c st = set_cpuidle_map c (upd_rq c (\<lambda>r. r\<lparr>sched_goidle := u32 (sched_goidle r + 1)\<rparr>) st)"

definition schedule_pick :: "cpu \<Rightarrow> int \<Rightarrow> kstate \<Rightarrow> kstate \<times> tid" where
  "schedule_pick c injection_value st =
     (if queued_notrunning st = 0 \<or> idle_cycles_offset (param st) = injection_value
      then (schedule_goidle c (st\<lparr>param := (param st)\<lparr>idle_cycles_offset := 0\<rparr>\<rparr>), idle (rqs st c))
      else (case earliest_deadline_task c st of
              (st, next) \<Rightarrow>
                if next \<noteq> idle (rqs st c)
                then (if prio (tasks st next) \<noteq> PRIO_LIMIT then clear_cpuidle_map c st else set_cpuidle_map c st, next)
                else (schedule_goidle c st, next)))"

definition schedule_switch :: "cpu \<Rightarrow> tid \<Rightarrow> tid \<Rightarrow> bool \<Rightarrow> kstate \<Rightarrow> kstate" where
  "schedule_switch c prev next voluntary st =
     (if prev \<noteq> next then
        (let st = (if rt_task (tasks st next) then unstick_task c prev st else st);
             st = set_rq_task c next st;
             st = upd_grq (\<lambda>g. g\<lparr>nr_switches := u64 (nr_switches g + 1)\<rparr>) st;
             st = upd_task prev (\<lambda>t. t\<lparr>on_cpu := False\<rparr>) st;
             st = upd_task next (\<lambda>t. t\<lparr>on_cpu := True\<rparr>) st;
             st = upd_rq c (\<lambda>r. r\<lparr>curr := next\<rparr>) st;
             st = upd_task prev (\<lambda>t. if voluntary then t\<lparr>nvcsw := u64 (nvcsw t + 1)\<rparr>
                                     else t\<lparr>nivcsw := u64 (nivcsw t + 1)\<rparr>) st
         in context_switch c prev next st)
      else st)"

text \<open>One pass, from label \<open>need_resched\<close> to its next test.  The flag of the result is whether the pass is
  repeated: after flushing the plugged block requests of a blocking task, or because the now current
  task is flagged again.\<close>

definition schedule_pass :: "cpu \<Rightarrow> bool \<Rightarrow> kstate \<Rightarrow> (kstate \<times> bool) outcome" where
  "schedule_pass c preempt_active st =
     (let prev = curr (rqs st c);
          st = schedule_debug c st
      in case schedule_block c prev preempt_active st of
           (st, deactivate, voluntary) \<Rightarrow>
             if deactivate \<and> plugged (tasks st prev)
             then Returns (upd_task prev (\<lambda>t. t\<lparr>plugged := False\<rparr>) st, True)
             else
               let st = schedule_account c prev st;
                   (st, rerun) = (if prev \<noteq> idle (rqs st c) then schedule_put_prev c prev deactivate st else (st, False))
               in if rerun then Returns (st, tif_need_resched (tasks st prev))
                  else (case schedule_inject st of
                          Oops \<Rightarrow> Oops
                        | Returns (st, injection_value) \<Rightarrow>
                            (case schedule_pick c injection_value st of
                               (st, next) \<Rightarrow>
                                 let st = schedule_switch c prev next voluntary st
                                 in Returns (st, tif_need_resched (tasks st (curr (rqs st c)))))))"

section \<open>What the search finds\<close>

text \<open>A deadline is earlier than none.\<close>

fun earlier :: "int option \<Rightarrow> int option \<Rightarrow> bool" where
  "earlier (Some a) (Some b) \<longleftrightarrow> a < b"
| "earlier (Some a) None \<longleftrightarrow> True"
| "earlier None b \<longleftrightarrow> False"

interpretation edf: best_scan earlier
proof (unfold_locales, goal_cases)
  case (1 a)
  then show ?case by (cases a) simp_all
next
  case (2 a b c)
  then show ?case by (cases a; cases b; cases c) simp_all
next
  case (3 a b c)
  then show ?case by (cases a; cases b; cases c) simp_all
qed

lemma earlier_None [simp]: "earlier k None \<longleftrightarrow> k \<noteq> None"
  by (cases k) simp_all

lemma fold_edt_step:
  assumes "idle (rqs st c) \<notin> set xs" and "edt = idle (rqs st c) \<longleftrightarrow> k = None" and "\<forall>e'. k = Some e' \<longrightarrow> e = e'"
  shows "fst (fold (edt_step c st) xs (edt, e)) = fst (scan_best earlier (edt_deadline c st) xs (edt, k))"
  using assms
proof (induction xs arbitrary: edt e k)
  case Nil
  then show ?case by (simp add: scan_best_def)
next
  case (Cons x xs)
  have s: "scan_best earlier (edt_deadline c st) (x # xs) (edt, k) =
      scan_best earlier (edt_deadline c st) xs
        (if earlier (edt_deadline c st x) k then (x, edt_deadline c st x) else (edt, k))"
    by (simp add: scan_best_def)
  show ?case
  proof (cases "edt_deadline c st x")
    case None
    then have "edt_step c st x (edt, e) = (edt, e)" by (simp add: edt_step_def)
    then show ?thesis unfolding s using Cons None by simp
  next
    case (Some d)
    show ?thesis
    proof (cases "earlier (Some d) k")
      case True
      then have "edt_step c st x (edt, e) = (x, d)"
        using Some Cons.prems by (cases k) (auto simp: edt_step_def deadline_before_def)
      then show ?thesis unfolding s using Cons True Some by simp
    next
      case False
      then have "edt_step c st x (edt, e) = (edt, e)"
        using Some Cons.prems by (cases k) (auto simp: edt_step_def deadline_before_def)
      then show ?thesis unfolding s using Cons False Some by simp
    qed
  qed
qed

text \<open>The tasks of level \<open>i\<close> that may run on processor \<open>c\<close>.\<close>

definition candidate :: "cpu \<Rightarrow> kstate \<Rightarrow> nat \<Rightarrow> tid \<Rightarrow> bool" where
  "candidate c st i p \<longleftrightarrow> p \<in> set (queue (grq st) i) \<and>
     (if i < nat MAX_RT_PRIO then \<not> needs_other_cpu (tasks st p) c else edt_deadline c st p \<noteq> None)"

text \<open>Task \<open>p\<close> is the right choice from level \<open>i\<close>: no lower level has a candidate; a realtime task is the first
  candidate of its level, another task has the earliest deadline among the candidates of its level,
  strictly earlier than those queued before it.\<close>

definition edt_choice :: "cpu \<Rightarrow> kstate \<Rightarrow> nat \<Rightarrow> tid \<Rightarrow> bool" where
  "edt_choice c st i p \<longleftrightarrow> i < nat PRIO_LIMIT \<and> candidate c st i p \<and> (\<forall>j<i. \<forall>q. \<not> candidate c st j q) \<and>
     (\<exists>ys zs. queue (grq st) i = ys @ p # zs \<and>
        (if i < nat MAX_RT_PRIO then \<forall>y \<in> set ys. \<not> candidate c st i y
         else (\<forall>y \<in> set ys. earlier (edt_deadline c st p) (edt_deadline c st y)) \<and>
              (\<forall>z \<in> set zs. \<not> earlier (edt_deadline c st z) (edt_deadline c st p))))"

lemma find_first:
  assumes "find P xs = Some p"
  shows "\<exists>ys zs. xs = ys @ p # zs \<and> P p \<and> (\<forall>y \<in> set ys. \<not> P y)"
  using assms
proof (induction xs)
  case (Cons x xs)
  show ?case
  proof (cases "P x")
    case True
    then have "x # xs = [] @ p # xs \<and> P p \<and> (\<forall>y \<in> set []. \<not> P y)" using Cons.prems by simp
    then show ?thesis by blast
  next
    case False
    then obtain ys zs where "xs = ys @ p # zs" "P p" "\<forall>y \<in> set ys. \<not> P y" using Cons by auto
    then have "x # xs = (x # ys) @ p # zs \<and> P p \<and> (\<forall>y \<in> set (x # ys). \<not> P y)" using False by simp
    then show ?thesis by blast
  qed
qed simp

lemma edt_level_normal:
  assumes "\<not> i < nat MAX_RT_PRIO" and "idle (rqs st c) \<notin> set (queue (grq st) i)"
  shows "let e = fst (fold (edt_step c st) (queue (grq st) i) (idle (rqs st c), 0)) in
    if e = idle (rqs st c) then \<forall>q. \<not> candidate c st i q
    else candidate c st i e \<and> (\<exists>ys zs. queue (grq st) i = ys @ e # zs \<and>
        (\<forall>y \<in> set ys. earlier (edt_deadline c st e) (edt_deadline c st y)) \<and>
        (\<forall>z \<in> set zs. \<not> earlier (edt_deadline c st z) (edt_deadline c st e)))"
proof -
  let ?q = "queue (grq st) i" and ?id = "idle (rqs st c)"
  have f: "fst (fold (edt_step c st) ?q (?id, 0)) = fst (scan_best earlier (edt_deadline c st) ?q (?id, None))"
    by (rule fold_edt_step [OF assms(2)]) simp_all
  from edf.scan_outcome [of "edt_deadline c st" ?q ?id None] show ?thesis
  proof (elim disjE conjE exE)
    assume "scan_best earlier (edt_deadline c st) ?q (?id, None) = (?id, None)"
      "\<forall>x \<in> set ?q. \<not> earlier (edt_deadline c st x) None"
    then show ?thesis using assms(1) by (simp add: f candidate_def Let_def)
  next
    fix ys x zs
    assume h: "?q = ys @ x # zs" "scan_best earlier (edt_deadline c st) ?q (?id, None) = (x, edt_deadline c st x)"
      "earlier (edt_deadline c st x) None" "\<forall>y \<in> set ys. earlier (edt_deadline c st x) (edt_deadline c st y)"
      "\<forall>z \<in> set zs. \<not> earlier (edt_deadline c st z) (edt_deadline c st x)"
    have e: "fst (fold (edt_step c st) ?q (?id, 0)) = x" unfolding f h(2) by simp
    have "x \<noteq> ?id" using assms(2) h(1) by auto
    moreover have "candidate c st i x" using h(1,3) assms(1) by (auto simp: candidate_def)
    ultimately show ?thesis unfolding Let_def e using h(1,4,5) by auto
  qed
qed

lemma edt_search_from:
  assumes "bits_ok (prio_bitmap (grq st)) (queue (grq st))" and "\<And>i. idle (rqs st c) \<notin> set (queue (grq st) i)"
    and "\<forall>j<idx. \<forall>q. \<not> candidate c st j q"
  shows "case edt_search c idx st of
      None \<Rightarrow> \<forall>i<nat PRIO_LIMIT. \<forall>q. \<not> candidate c st i q
    | Some (rt, p) \<Rightarrow> \<exists>i. edt_choice c st i p \<and> (rt \<longleftrightarrow> i < nat MAX_RT_PRIO)"
  using assms
proof (induction c idx st rule: edt_search.induct)
  case (1 c idx st)
  let ?n = "find_next_bit (prio_bitmap (grq st)) (nat PRIO_LIMIT) idx"
  have t: "kb.tracks (prio_bitmap (grq st)) (queue (grq st)) (nat PRIO_LIMIT)"
    using "1.prems"(1) by (simp add: bits_ok_def)
  have below: "\<not> candidate c st j q" if "j < ?n" for j q
  proof (cases "j < idx")
    case True
    then show ?thesis using "1.prems"(3) by blast
  next
    case False
    then have "queue (grq st) j = []" using kb.scan_skips_empty [OF t, of idx j] that by simp
    then show ?thesis by (simp add: candidate_def)
  qed
  note unf = edt_search.simps [of c idx st]
  consider (none) "nat PRIO_LIMIT \<le> ?n" | (rt) "?n < nat PRIO_LIMIT" "?n < nat MAX_RT_PRIO"
    | (norm) "?n < nat PRIO_LIMIT" "\<not> ?n < nat MAX_RT_PRIO" by linarith
  then show ?case
  proof cases
    case none
    then show ?thesis using below by (simp add: unf Let_def)
  next
    case rt
    show ?thesis
    proof (cases "find (\<lambda>p. \<not> needs_other_cpu (tasks st p) c) (queue (grq st) ?n)")
      case None
      then have "\<forall>q. \<not> candidate c st ?n q" using rt by (auto simp: find_None_iff candidate_def)
      then have b: "\<forall>j<Suc ?n. \<forall>q. \<not> candidate c st j q" using below less_Suc_eq by auto
      have "edt_search c idx st = edt_search c (Suc ?n) st" using rt None by (simp add: unf Let_def)
      then show ?thesis using "1.IH"(1) [OF refl _ _ None "1.prems"(1,2) b] rt by simp
    next
      case (Some p)
      from find_first [OF Some] obtain ys zs where yz: "queue (grq st) ?n = ys @ p # zs"
        "\<not> needs_other_cpu (tasks st p) c" "\<forall>y \<in> set ys. \<not> \<not> needs_other_cpu (tasks st y) c" by blast
      have "candidate c st ?n p" "\<forall>y \<in> set ys. \<not> candidate c st ?n y"
        using yz rt by (auto simp: candidate_def)
      then have "edt_choice c st ?n p" using rt below yz(1) unfolding edt_choice_def by auto
      then show ?thesis using rt Some by (auto simp: unf Let_def)
    qed
  next
    case norm
    let ?e = "fst (fold (edt_step c st) (queue (grq st) ?n) (idle (rqs st c), 0))"
    note l = edt_level_normal [OF norm(2) "1.prems"(2), unfolded Let_def]
    show ?thesis
    proof (cases "?e = idle (rqs st c)")
      case True
      then have b: "\<forall>j<Suc ?n. \<forall>q. \<not> candidate c st j q" using below less_Suc_eq l by auto
      show ?thesis
      proof (cases "Suc ?n < nat PRIO_LIMIT")
        case s: True
        have "edt_search c idx st = edt_search c (Suc ?n) st" using norm True s by (simp add: unf Let_def)
        then show ?thesis using "1.IH"(2) [OF refl _ _ refl True s "1.prems"(1,2) b] norm by simp
      next
        case False
        then have "edt_search c idx st = None" using norm True by (simp add: unf Let_def)
        moreover have "nat PRIO_LIMIT \<le> Suc ?n" using False by simp
        ultimately show ?thesis using b by auto
      qed
    next
      case False
      then have "edt_choice c st ?n ?e" using norm below l unfolding edt_choice_def by simp
      moreover have "edt_search c idx st = Some (False, ?e)" using norm False by (simp add: unf Let_def)
      ultimately show ?thesis using norm by auto
    qed
  qed
qed

lemma edt_search_spec:
  assumes "qs_ok S st" and "\<And>i. idle (rqs st c) \<notin> set (queue (grq st) i)"
  shows "case edt_search c 0 st of
      None \<Rightarrow> \<forall>i<nat PRIO_LIMIT. \<forall>q. \<not> candidate c st i q
    | Some (rt, p) \<Rightarrow> \<exists>i. edt_choice c st i p \<and> (rt \<longleftrightarrow> i < nat MAX_RT_PRIO)"
  by (rule edt_search_from) (use assms in \<open>auto simp: qs_ok_def\<close>)

end
