(* ===== verification/Sched_System.thy ===== *)
theory Sched_System
  imports Sched_Core
begin

text \<open>
  The invariant of the whole scheduler and its preservation by wakeups, forks, ticks and the passes of
  \<open>schedule()\<close>.  It ties together the queues, the tasks on the processors, the counters and the map
  of idle processors: a task runs on at most one processor, is never queued while it runs, and
  \<open>nr_running\<close> counts exactly the queued and the running tasks.
\<close>

section \<open>The invariant\<close>

definition idle_tasks :: "kstate \<Rightarrow> tid set" where
  "idle_tasks st = (\<lambda>c. idle (rqs st c)) ` cpu_online_map st"

definition busy :: "kstate \<Rightarrow> cpumask \<Rightarrow> nat" where
  "busy st C = card {d \<in> C. curr (rqs st d) \<noteq> idle (rqs st d)}"

definition place_ok :: "kstate \<Rightarrow> bool" where
  "place_ok st \<longleftrightarrow> cpu_online_map st \<subseteq> {..<NR_CPUS} \<and>
     (\<forall>c \<in> cpu_online_map st. on_cpu (tasks st (curr (rqs st c))) \<and> task_cpu (tasks st (curr (rqs st c))) = c) \<and>
     (\<forall>p. on_cpu (tasks st p) \<longrightarrow> task_cpu (tasks st p) \<in> cpu_online_map st \<and>
        curr (rqs st (task_cpu (tasks st p))) = p)"

definition idle_ok :: "kstate \<Rightarrow> bool" where
  "idle_ok st \<longleftrightarrow> idle_map_ok st \<and>
     (\<forall>c \<in> cpu_online_map st. prio (tasks st (idle (rqs st c))) = PRIO_LIMIT \<and>
        task_cpu (tasks st (idle (rqs st c))) = c \<and> state (tasks st (idle (rqs st c))) = TASK_RUNNING)"

definition idle_map_running :: "kstate \<Rightarrow> bool" where
  "idle_map_running st \<longleftrightarrow> (\<forall>c \<in> cpu_idle_map (grq st). curr (rqs st c) = idle (rqs st c))"

definition prio_ok :: "kstate \<Rightarrow> bool" where
  "prio_ok st \<longleftrightarrow> (\<forall>p. p \<notin> idle_tasks st \<longrightarrow> pol_ok (tasks st p)) \<and>
     (\<forall>p. p \<notin> idle_tasks st \<and> (on_cpu (tasks st p) \<or> (\<exists>i. p \<in> set (queue (grq st) i))) \<longrightarrow>
        enq_ok (tasks st p) \<and> 0 \<le> normal_prio (tasks st p) \<and> p < TASK_LIMIT)"

definition count_ok :: "kstate \<Rightarrow> bool" where
  "count_ok st \<longleftrightarrow> nr_running (grq st) = int (qtotal (queue (grq st)) + busy st (cpu_online_map st))"

definition sys_ok :: "kstate \<Rightarrow> bool" where
  "sys_ok st \<longleftrightarrow> queue_ok st \<and> place_ok st \<and> idle_ok st \<and> idle_map_running st \<and> prio_ok st \<and> count_ok st"

lemmas sys_defs = place_ok_def idle_ok_def idle_map_running_def prio_ok_def count_ok_def

lemma pol_ok_cong:
  "prio t = prio u \<Longrightarrow> policy t = policy u \<Longrightarrow> rt_priority t = rt_priority u \<Longrightarrow> pol_ok t = pol_ok u"
  by (simp add: pol_ok_def has_rt_policy_def)

lemma enq_ok_cong:
  "prio t = prio u \<Longrightarrow> policy t = policy u \<Longrightarrow> normal_prio t = normal_prio u \<Longrightarrow> enq_ok t = enq_ok u"
  by (simp add: enq_ok_def idleprio_task_def iso_task_def)

lemma task_coreD:
  assumes "task_core t = task_core u"
  shows "state t = state u" "on_cpu t = on_cpu u" "prio t = prio u" "normal_prio t = normal_prio u"
    "task_cpu t = task_cpu u" "pol_ok t = pol_ok u" "enq_ok t = enq_ok u"
proof -
  have "state t = state u \<and> on_cpu t = on_cpu u \<and> prio t = prio u \<and> normal_prio t = normal_prio u \<and>
    task_cpu t = task_cpu u \<and> policy t = policy u \<and> rt_priority t = rt_priority u"
    using assms by (simp add: task_core_def)
  then show "state t = state u" "on_cpu t = on_cpu u" "prio t = prio u" "normal_prio t = normal_prio u"
    "task_cpu t = task_cpu u" "pol_ok t = pol_ok u" "enq_ok t = enq_ok u"
    by (simp_all add: pol_ok_cong [of t u] enq_ok_cong [of t u])
qed

text \<open>The invariant is a property of the core of a state.\<close>

lemma sys_ok_core:
  assumes "core st' = core st"
  shows "sys_ok st' = sys_ok st"
proof -
  note d = coreD [OF assms]
  have "pol_ok (tasks st' p) = pol_ok (tasks st p)" "enq_ok (tasks st' p) = enq_ok (tasks st p)" for p
    by (rule pol_ok_cong enq_ok_cong; simp only: d)+
  moreover have "idle_tasks st' = idle_tasks st" "busy st' C = busy st C" for C
    by (simp_all add: idle_tasks_def busy_def d)
  moreover have "queue_ok st' = queue_ok st" using queue_ok_core [of st' st] queue_ok_core [of st st'] assms by metis
  ultimately show ?thesis by (simp add: sys_ok_def sys_defs idle_map_ok_def d)
qed

lemma core_derived:
  assumes "core st' = core st"
  shows "idle_tasks st' = idle_tasks st" "busy st' C = busy st C" "task_queued p st' = task_queued p st"
  using coreD [OF assms] by (simp_all add: idle_tasks_def busy_def task_queued_def)

lemma sys_ok_param [simp]: "sys_ok (st\<lparr>param := x\<rparr>) = sys_ok st"
  by (simp add: sys_ok_def sys_defs queue_ok_def idle_tasks_def busy_def idle_map_ok_def)

lemma sys_okD:
  assumes "sys_ok st"
  shows "queue_ok st" "qs_ok {} st" "qnr (grq st) = int (qtotal (queue (grq st)))" "place_ok st" "idle_ok st"
    "idle_map_running st" "prio_ok st" "count_ok st"
  using assms by (simp_all add: sys_ok_def queue_ok_qs)

lemma queued_not_running:
  assumes "sys_ok st" and "p \<in> set (queue (grq st) i)"
  shows "\<not> on_cpu (tasks st p)" "prio (tasks st p) = int i" "i < 104" "p < TASK_LIMIT"
  using qs_okD [OF sys_okD(2) [OF assms(1)] assms(2)] by simp_all

lemma idle_not_queued:
  assumes "sys_ok st" and "p \<in> idle_tasks st"
  shows "p \<notin> set (queue (grq st) i)"
  using assms queued_not_running(2,3) [OF assms(1), of p i] sys_okD(5) [OF assms(1)]
  by (auto simp: idle_tasks_def idle_ok_def)

lemma idle_unique:
  assumes "sys_ok st" and "c \<in> cpu_online_map st" and "d \<in> cpu_online_map st" and "idle (rqs st c) = idle (rqs st d)"
  shows "c = d"
proof -
  have "task_cpu (tasks st (idle (rqs st e))) = e" if "e \<in> cpu_online_map st" for e
    using sys_okD(5) [OF assms(1)] that by (simp add: idle_ok_def)
  from this [OF assms(2)] this [OF assms(3)] show ?thesis unfolding assms(4) by (rule trans [OF sym])
qed

text \<open>The current task of a processor is its own idle task or no idle task at all.\<close>

lemma curr_idle:
  assumes "sys_ok st" and "c \<in> cpu_online_map st" and "curr (rqs st c) \<noteq> idle (rqs st c)"
  shows "curr (rqs st c) \<notin> idle_tasks st"
proof
  assume "curr (rqs st c) \<in> idle_tasks st"
  then obtain d where d: "d \<in> cpu_online_map st" "curr (rqs st c) = idle (rqs st d)" by (auto simp: idle_tasks_def)
  have "task_cpu (tasks st (curr (rqs st c))) = c" using sys_okD(4) [OF assms(1)] assms(2) by (simp add: place_ok_def)
  then have "d = c" using d sys_okD(5) [OF assms(1)] by (simp add: idle_ok_def)
  with d(2) assms(3) show False by simp
qed

lemma online_finite: "place_ok st \<Longrightarrow> finite (cpu_online_map st)"
  by (auto simp: place_ok_def intro: finite_subset)

lemma busy_le: "C \<subseteq> {..<NR_CPUS} \<Longrightarrow> busy st C \<le> 64"
  using card_mono [of "{..<64}" "{d \<in> C. curr (rqs st d) \<noteq> idle (rqs st d)}"]
  by (auto simp: busy_def NR_CPUS_def)

lemma nr_running_small:
  assumes "sys_ok st"
  shows "0 \<le> nr_running (grq st)" "nr_running (grq st) < 2 ^ 32"
proof -
  have "qtotal (queue (grq st)) \<le> TASK_LIMIT"
    using qtotal_limit sys_okD(1) [OF assms] by (auto simp: queue_ok_def)
  moreover have "busy st (cpu_online_map st) \<le> 64"
    using sys_okD(4) [OF assms] by (intro busy_le) (simp add: place_ok_def)
  ultimately show "0 \<le> nr_running (grq st)" "nr_running (grq st) < 2 ^ 32"
    using sys_okD(8) [OF assms] by (simp_all add: count_ok_def TASK_LIMIT_def NR_CPUS_def)
qed

section \<open>Waking\<close>

lemma sys_ok_set_state:
  assumes "sys_ok st" and "p \<notin> idle_tasks st \<or> x = TASK_RUNNING"
  shows "sys_ok (upd_task p (\<lambda>t. t\<lparr>state := x\<rparr>) st)"
proof -
  have "queue_ok (upd_task p (\<lambda>t. t\<lparr>state := x\<rparr>) st)" by (rule set_state_queue_ok [OF sys_okD(1) [OF assms(1)]])
  moreover have "pol_ok (t\<lparr>state := x\<rparr>) = pol_ok t" "enq_ok (t\<lparr>state := x\<rparr>) = enq_ok t" for t
    by (rule pol_ok_cong enq_ok_cong; simp)+
  ultimately show ?thesis
    using assms by (auto simp: sys_ok_def sys_defs idle_tasks_def busy_def idle_map_ok_def)
qed

lemma info_queued_ok [simp]: "pol_ok (info_queued k t) = pol_ok t" "enq_ok (info_queued k t) = enq_ok t"
  by (rule pol_ok_cong enq_ok_cong; simp)+

lemma enqueued_ok:
  assumes "enq_ok t" and "pol_ok t"
  shows "enq_ok (t\<lparr>prio := enqueue_prio t st\<rparr>)" "pol_ok (t\<lparr>prio := enqueue_prio t st\<rparr>)"
  using enqueue_prio_range [OF assms(1), of st] assms
  by (simp_all add: enq_ok_def pol_ok_def idleprio_task_def iso_task_def has_rt_policy_def)

lemma activated_ok: "pol_ok (tasks st p) \<Longrightarrow> enq_ok (activated st c p) \<and> pol_ok (activated st c p)"
proof -
  assume p: "pol_ok (tasks st p)"
  have e: "enq_ok (set_effective_prio (tasks st p))" by (rule set_effective_prio_enq_ok [OF p])
  have "pol_ok (set_effective_prio (tasks st p))"
    using p normal_prio_of_range [OF p] by (simp add: pol_ok_def set_effective_prio_prio has_rt_policy_def)
  then show ?thesis using enqueued_ok [OF e] by (simp add: activated_def)
qed

lemma sys_ok_activate:
  assumes "sys_ok st" and "\<not> task_queued p st" and "\<not> on_cpu (tasks st p)" and "p < TASK_LIMIT"
    and "p \<notin> idle_tasks st"
  shows "sys_ok (activate_task p c st)"
proof -
  let ?a = "activate_task p c st"
  note inv = sys_okD [OF assms(1)]
  have pol: "pol_ok (tasks st p)" using inv(7) assms(5) by (simp add: prio_ok_def)
  note a = activate_task_queue_ok [OF inv(1) assms(2-4) pol, of c]
  have t: "tasks ?a = (tasks st)(p := activated st c p)" by (rule activate_task_tasks)
  have r: "curr (rqs ?a d) = curr (rqs st d)" "idle (rqs ?a d) = idle (rqs st d)" for d by simp_all
  have i: "idle_tasks ?a = idle_tasks st" by (simp add: idle_tasks_def)
  have b: "busy ?a C = busy st C" for C by (simp add: busy_def)
  have q: "set (queue (grq ?a) j) \<subseteq> insert p (set (queue (grq st) j))" for j
    by (auto simp: activate_task_queue Let_def)
  have "idle (rqs st d) \<noteq> p" if "d \<in> cpu_online_map st" for d using that assms(5) by (auto simp: idle_tasks_def)
  then have "idle_ok ?a" using inv(5) by (auto simp: idle_ok_def idle_map_ok_def t)
  moreover have "place_ok ?a" using inv(4) assms(3) by (auto simp: place_ok_def t)
  moreover have "prio_ok ?a"
    using inv(7) activated_ok [OF pol, of c] normal_prio_of_range [OF pol] assms(4) q unfolding prio_ok_def i t
    by (auto; blast)
  moreover have "count_ok ?a"
    using inv(8) a(3) nr_running_small [OF assms(1)] by (simp add: count_ok_def b u64_id in_u64_def)
  moreover have "idle_map_running ?a" using inv(6) by (simp add: idle_map_running_def)
  ultimately show ?thesis using a(1) by (simp add: sys_ok_def)
qed

lemma sys_ok_wakeup:
  assumes "sys_ok st" and "p < TASK_LIMIT"
  shows "sys_ok (fst (try_to_wake_up this p s wfl st))"
proof -
  have idle: "u32 (state (tasks st p)) AND s = 0" if "p \<in> idle_tasks st"
    using that sys_okD(5) [OF assms(1)] by (auto simp: idle_tasks_def idle_ok_def u32_def)
  have "sys_ok (upd_task p (\<lambda>t. t\<lparr>state := TASK_RUNNING\<rparr>) st)" by (rule sys_ok_set_state [OF assms(1)]) simp
  moreover have "sys_ok (upd_task p (\<lambda>t. t\<lparr>state := TASK_RUNNING\<rparr>) (activate_task p (task_cpu (tasks st p)) st))"
    if "\<not> task_queued p st" "\<not> task_running p st" "p \<notin> idle_tasks st"
    using that assms by (intro sys_ok_set_state sys_ok_activate) (simp_all add: task_running_def)
  ultimately show ?thesis
    using idle try_to_wake_up_core [of this p s wfl st] sys_ok_core [of "fst (try_to_wake_up this p s wfl st)"] assms(1)
    by (metis (no_types, lifting))
qed

lemma core_post_activation:
  "core (ttwu_post_activation p c b st) = core (upd_task p (\<lambda>t. t\<lparr>state := TASK_RUNNING\<rparr>) st)"
  by (intro coreI) (auto simp: ttwu_post_activation_tasks task_core_def grq_core_def)

lemma sys_ok_wakeup_local:
  assumes "sys_ok st" and "p < TASK_LIMIT" and "\<not> on_cpu (tasks st p)"
  shows "sys_ok (try_to_wake_up_local this p st)"
proof -
  let ?c = "task_cpu (tasks st p)"
  let ?s = "upd_rq ?c (\<lambda>r. r\<lparr>ttwu_count := u32 (ttwu_count r + 1), ttwu_local := u32 (ttwu_local r + 1)\<rparr>) st"
  have s: "core ?s = core st" by (simp add: core_upd_rq)
  have "core (ttwu_stat this this (ttwu_activate this p ?c False ?s)) = core (activate_task p ?c ?s)"
    by (simp add: core_ttwu_activate)
  then have e: "core (ttwu_post_activation p ?c True (ttwu_stat this this (ttwu_activate this p ?c False ?s))) =
      core (upd_task p (\<lambda>t. t\<lparr>state := TASK_RUNNING\<rparr>) (activate_task p ?c ?s))"
    unfolding core_post_activation by (rule core_set_state)
  have "sys_ok (upd_task p (\<lambda>t. t\<lparr>state := TASK_RUNNING\<rparr>) (activate_task p ?c ?s))"
    if "\<not> task_queued p st" "p \<notin> idle_tasks st"
    using that assms sys_ok_core [OF s] core_derived [OF s]
    by (intro sys_ok_set_state sys_ok_activate) simp_all
  then have a: "sys_ok (ttwu_post_activation p ?c True (ttwu_stat this this (ttwu_activate this p ?c False ?s)))"
    if "\<not> task_queued p st" "p \<notin> idle_tasks st"
    using that sys_ok_core [OF e] by simp
  have b: "sys_ok (ttwu_post_activation p ?c False st)"
    using sys_ok_core [OF core_post_activation, of p ?c False st] sys_ok_set_state [OF assms(1)] by simp
  have "state (tasks st p) AND TASK_NORMAL = 0" if "p \<in> idle_tasks st"
    using that sys_okD(5) [OF assms(1)] by (auto simp: idle_tasks_def idle_ok_def)
  then show ?thesis
    using a b assms(1,3) by (auto simp: try_to_wake_up_local_def Let_def task_running_def)
qed

section \<open>Fork\<close>

text \<open>A task that is neither queued nor running may be prepared in any way that keeps its parameters valid.\<close>

lemma sys_ok_fresh:
  assumes "sys_ok st" and "\<not> on_cpu (tasks st p)" and "\<not> task_queued p st" and "p \<notin> idle_tasks st"
    and "\<And>q. q \<noteq> p \<Longrightarrow> task_core (tasks st' q) = task_core (tasks st q)" and "\<not> on_cpu (tasks st' p)"
    and "pol_ok (tasks st' p)" and "grq_core (grq st') = grq_core (grq st)" and "cpu_online_map st' = cpu_online_map st"
    and "\<And>c. curr (rqs st' c) = curr (rqs st c) \<and> idle (rqs st' c) = idle (rqs st c)"
  shows "sys_ok st'"
proof -
  note inv = sys_okD [OF assms(1)]
  have nq: "p \<notin> set (queue (grq st) i)" for i using assms(3) qs_ok_queued [OF inv(2)] by blast
  have g: "queue (grq st') = queue (grq st)" "prio_bitmap (grq st') = prio_bitmap (grq st)" "qnr (grq st') = qnr (grq st)"
    "nr_running (grq st') = nr_running (grq st)" "cpu_idle_map (grq st') = cpu_idle_map (grq st)"
    "idle_cpus (grq st') = idle_cpus (grq st)"
    using assms(8) by (simp_all add: grq_core_def)
  have t: "state (tasks st' q) = state (tasks st q)" "on_cpu (tasks st' q) = on_cpu (tasks st q)"
    "prio (tasks st' q) = prio (tasks st q)" "normal_prio (tasks st' q) = normal_prio (tasks st q)"
    "task_cpu (tasks st' q) = task_cpu (tasks st q)" "pol_ok (tasks st' q) = pol_ok (tasks st q)"
    "enq_ok (tasks st' q) = enq_ok (tasks st q)" if "q \<noteq> p" for q
    using task_coreD [OF assms(5) [OF that]] by blast+
  have i: "idle_tasks st' = idle_tasks st" "busy st' C = busy st C" for C
    using assms(9,10) by (simp_all add: idle_tasks_def busy_def)
  have cp: "curr (rqs st c) \<noteq> p" "idle (rqs st c) \<noteq> p" if "c \<in> cpu_online_map st" for c
    using that inv(4) assms(2,4) by (auto simp: place_ok_def idle_tasks_def)
  have "queue_ok st'"
    by (rule queue_ok_cong [OF inv(1) g(1-3)]) (metis nq t(2,3))
  moreover have "place_ok st'"
    unfolding place_ok_def assms(9)
  proof (intro conjI ballI allI impI)
    show "cpu_online_map st \<subseteq> {..<NR_CPUS}" using inv(4) by (simp add: place_ok_def)
  next
    fix c assume c: "c \<in> cpu_online_map st"
    show "on_cpu (tasks st' (curr (rqs st' c)))" "task_cpu (tasks st' (curr (rqs st' c))) = c"
      using c inv(4) t(2,5) [OF cp(1) [OF c]] assms(10) by (simp_all add: place_ok_def)
  next
    fix q assume q: "on_cpu (tasks st' q)"
    then have "q \<noteq> p" using assms(6) by auto
    then show "task_cpu (tasks st' q) \<in> cpu_online_map st" "curr (rqs st' (task_cpu (tasks st' q))) = q"
      using q inv(4) t(2,5) [of q] assms(10) by (simp_all add: place_ok_def)
  qed
  moreover have "idle_ok st'"
    using inv(5) cp(2) t(1,3,5) assms(9,10) by (simp add: idle_ok_def idle_map_ok_def g)
  moreover have "idle_map_running st'" using inv(6) assms(10) by (simp add: idle_map_running_def g)
  moreover have "prio_ok st'"
    unfolding prio_ok_def i(1) g(1)
  proof (intro conjI allI impI)
    fix q assume "q \<notin> idle_tasks st"
    then show "pol_ok (tasks st' q)" using inv(7) t(6) [of q] assms(7) by (cases "q = p") (simp_all add: prio_ok_def)
  next
    fix q assume q: "q \<notin> idle_tasks st \<and> (on_cpu (tasks st' q) \<or> (\<exists>i. q \<in> set (queue (grq st) i)))"
    then have "q \<noteq> p" using assms(6) nq by auto
    then show "enq_ok (tasks st' q)" "0 \<le> normal_prio (tasks st' q)" "q < TASK_LIMIT"
      using q inv(7) t(2,4,7) [of q] by (auto simp: prio_ok_def)
  qed
  moreover have "count_ok st'" using inv(8) by (simp add: count_ok_def g i assms(9))
  ultimately show ?thesis by (simp add: sys_ok_def)
qed

lemma sched_fork_others:
  "q \<noteq> p \<Longrightarrow> task_core (tasks (sched_fork this p st) q) = task_core (tasks st q)"
  by (simp add: sched_fork_def Let_def set_task_cpu_def clear_sticky_def time_slice_expired_def task_core_def)

lemma sched_fork_frame [frame, simp]:
  "grq (sched_fork this p st) = grq st" "cpu_online_map (sched_fork this p st) = cpu_online_map st"
  "param (sched_fork this p st) = param st"
  "curr (rqs (sched_fork this p st) c) = curr (rqs st c)" "idle (rqs (sched_fork this p st) c) = idle (rqs st c)"
  by (simp_all add: sched_fork_def Let_def set_task_cpu_def clear_sticky_def time_slice_expired_def)

lemma sys_ok_fork:
  assumes "sys_ok st" and "\<not> on_cpu (tasks st p)" and "\<not> task_queued p st" and "p \<notin> idle_tasks st"
    and "this \<in> cpu_online_map st" and "curr (rqs st this) \<noteq> idle (rqs st this)"
  shows "sys_ok (sched_fork this p st)"
proof (rule sys_ok_fresh [OF assms(1-4) sched_fork_others])
  let ?f = "sched_fork this p st" and ?cur = "curr (rqs st this)"
  note inv = sys_okD [OF assms(1)]
  have cur: "on_cpu (tasks st ?cur)" using inv(4) assms(5) by (simp add: place_ok_def)
  then have ne: "p \<noteq> ?cur" using assms(2) by auto
  have "0 \<le> normal_prio (tasks st ?cur)"
    using inv(7) cur curr_idle [OF assms(1,5,6)] by (simp add: prio_ok_def)
  moreover have "pol_ok (tasks st p)" using inv(7) assms(4) by (simp add: prio_ok_def)
  moreover have "policy (reset_on_fork (tasks st p)) \<in> {policy (tasks st p), SCHED_NORMAL}"
    by (simp add: reset_on_fork_def Let_def)
  ultimately show "pol_ok (tasks ?f p)"
    using sched_fork_task [OF ne]
    by (auto simp: pol_ok_def has_rt_policy_def is_rt_policy_def)
  show "\<not> on_cpu (tasks ?f p)" by (rule sched_fork_task(3) [OF ne])
qed simp_all

lemma sys_ok_wake_new:
  assumes "sys_ok st" and "\<not> on_cpu (tasks st p)" and "\<not> task_queued p st" and "p \<notin> idle_tasks st" and "p < TASK_LIMIT"
  shows "sys_ok (wake_up_new_task this p st)"
proof -
  let ?u = "upd_task p (\<lambda>t. t\<lparr>state := TASK_RUNNING\<rparr>) st"
  let ?g = "set_task_cpu p (task_cpu (tasks ?u (parent (tasks ?u p)))) ?u"
  have c: "core (wake_up_new_task this p st) = core (activate_task p (task_cpu (tasks st p)) ?g)"
    by (simp add: wake_up_new_task_def Let_def)
  have pol: "pol_ok (tasks st p)" using sys_okD(7) [OF assms(1)] assms(4) by (simp add: prio_ok_def)
  have "sys_ok ?g"
    by (rule sys_ok_fresh [OF assms(1-4)])
      (use assms(2) pol in \<open>simp_all add: set_task_cpu_def pol_ok_def has_rt_policy_def\<close>)
  then have "sys_ok (activate_task p (task_cpu (tasks st p)) ?g)"
    by (rule sys_ok_activate) (use assms(2-5) in \<open>simp_all add: set_task_cpu_def task_queued_def idle_tasks_def\<close>)
  then show ?thesis using sys_ok_core [OF c] by simp
qed

lemma sys_ok_tick: "sys_ok st \<Longrightarrow> sys_ok (scheduler_tick c st)"
  using sys_ok_core [OF core_scheduler_tick] by simp

end
