(* ===== verification/Sched_Pass.thy ===== *)
theory Sched_Pass
  imports Sched_System
begin

text \<open>
  A pass of \<open>schedule()\<close> keeps the invariant of the scheduler.  Between putting the previous task back
  and switching, the previous task is still marked as running; two intermediate invariants describe
  the states there.
\<close>

section \<open>Parts of the pass that leave the core alone\<close>

lemma core_schedule_debug [simp]: "core (schedule_debug c st) = core st"
  by (simp add: schedule_debug_def core_upd_rq)

lemma core_schedule_account [simp]: "core (schedule_account c prev st) = core st"
  by (simp add: schedule_account_def Let_def core_upd_rq core_upd_task task_core_def)

lemma core_time_slice_expired [simp]: "core (time_slice_expired p st) = core st"
  by (simp add: time_slice_expired_def core_upd_task task_core_def)

lemma core_check_deadline [simp]: "core (check_deadline p st) = core st"
  by (simp add: check_deadline_def)

lemma core_sched_info [simp]:
  "core (sched_info_depart p st) = core st" "core (sched_info_arrive p st) = core st"
  "core (sched_info_dequeued p st) = core st"
  by (simp_all add: sched_info_depart_def sched_info_arrive_def sched_info_dequeued_def rq_sched_info_depart_def
      rq_sched_info_arrive_def rq_sched_info_dequeued_def sched_info_reset_dequeued_def Let_def core_upd_rq
      core_upd_task task_core_def)

lemma core_sched_info_switch [simp]: "core (sched_info_switch prev nxt st) = core st"
  by (simp add: sched_info_switch_def Let_def)

lemma core_mm [simp]:
  "core (mm_get m st) = core st" "core (mmdrop a st) = core st" "core (put_task_struct p st) = core st"
  by (auto intro!: coreI core_upd_task simp: mm_get_def mmdrop_def put_task_struct_def task_core_def split: option.split)

lemma core_finish_task_switch [simp]: "core (finish_task_switch c prev st) = core st"
  by (simp add: finish_task_switch_def Let_def core_upd_rq split: option.split)

lemma core_context_switch [simp]: "core (context_switch c prev nxt st) = core st"
  by (simp add: context_switch_def prepare_task_switch_def Let_def core_upd_rq core_upd_task task_core_def)

lemma core_set_rq_task [simp]: "core (set_rq_task c p st) = core st"
  by (simp add: set_rq_task_def Let_def core_upd_rq core_upd_task task_core_def)

section \<open>Putting the previous task back\<close>

text \<open>The state after the previous task of processor \<open>c\<close> was put back: it is still the current one.\<close>

definition mid_ok :: "cpu \<Rightarrow> tid \<Rightarrow> kstate \<Rightarrow> bool" where
  "mid_ok c prev st \<longleftrightarrow> qs_ok {prev} st \<and> qnr (grq st) = int (qtotal (queue (grq st))) \<and> place_ok st \<and> idle_ok st \<and>
     (\<forall>d \<in> cpu_idle_map (grq st) - {c}. curr (rqs st d) = idle (rqs st d)) \<and> prio_ok st \<and>
     nr_running (grq st) = int (qtotal (queue (grq st)) + busy st (cpu_online_map st - {c})) \<and>
     c \<in> cpu_online_map st \<and> curr (rqs st c) = prev"

lemma mid_okD:
  assumes "mid_ok c prev st"
  shows "qs_ok {prev} st" "qnr (grq st) = int (qtotal (queue (grq st)))" "place_ok st" "idle_ok st"
    "\<forall>d \<in> cpu_idle_map (grq st) - {c}. curr (rqs st d) = idle (rqs st d)" "prio_ok st"
    "nr_running (grq st) = int (qtotal (queue (grq st)) + busy st (cpu_online_map st - {c}))"
    "c \<in> cpu_online_map st" "curr (rqs st c) = prev"
  using assms by (simp_all add: mid_ok_def)

lemma mid_ok_param [simp]: "mid_ok c prev (st\<lparr>param := x\<rparr>) = mid_ok c prev st"
  by (simp add: mid_ok_def qs_ok_def sys_defs idle_tasks_def busy_def idle_map_ok_def)

lemma busy_split:
  assumes "place_ok st" and "c \<in> cpu_online_map st"
  shows "busy st (cpu_online_map st) =
    busy st (cpu_online_map st - {c}) + (if curr (rqs st c) \<noteq> idle (rqs st c) then 1 else 0)"
proof -
  let ?B = "\<lambda>C. {d \<in> C. curr (rqs st d) \<noteq> idle (rqs st d)}"
  have f: "finite (?B (cpu_online_map st - {c}))" using online_finite [OF assms(1)] by simp
  have "?B (cpu_online_map st) = (if curr (rqs st c) \<noteq> idle (rqs st c) then insert c (?B (cpu_online_map st - {c}))
      else ?B (cpu_online_map st - {c}))" using assms(2) by auto
  then show ?thesis unfolding busy_def using f by simp
qed

lemma sys_ok_running_unqueued:
  assumes "sys_ok st" and "c \<in> cpu_online_map st"
  shows "curr (rqs st c) \<notin> set (queue (grq st) i)"
proof
  assume "curr (rqs st c) \<in> set (queue (grq st) i)"
  then have "\<not> on_cpu (tasks st (curr (rqs st c)))" by (rule queued_not_running(1) [OF assms(1)])
  then show False using sys_okD(4) [OF assms(1)] assms(2) by (simp add: place_ok_def)
qed

lemma sys_qs_ok:
  assumes "sys_ok st" and "c \<in> cpu_online_map st"
  shows "qs_ok {curr (rqs st c)} st"
  by (rule qs_ok_cong [OF sys_okD(2) [OF assms(1)]])
    (use sys_ok_running_unqueued [OF assms] in auto)

lemma mid_ok_idle:
  assumes "sys_ok st" and "c \<in> cpu_online_map st" and "curr (rqs st c) = idle (rqs st c)"
  shows "mid_ok c (curr (rqs st c)) st"
  using sys_okD [OF assms(1)] sys_qs_ok [OF assms(1,2)] busy_split [of st c] assms(2,3)
  by (simp add: mid_ok_def idle_map_running_def count_ok_def)

lemma return_task_task:
  "tasks (return_task p d st) = (tasks st)(p := if d then (tasks st p)\<lparr>sticky := False\<rparr>
     else info_queued (rq_clock (rqs st (task_cpu (tasks st p)))) ((tasks st p)\<lparr>prio := enqueue_prio (tasks st p) st\<rparr>))"
proof -
  have "enqueue_prio t (inc_qnr st) = enqueue_prio t st" for t
    by (simp add: enqueue_prio_def isoprio_suitable_def)
  then show ?thesis by (auto simp: return_task_def deactivate_task_tasks enqueue_task_tasks)
qed

lemma return_task_queue: "set (queue (grq (return_task p d st)) j) \<subseteq> insert p (set (queue (grq st) j))"
  by (auto simp: return_task_def enqueue_task_grq Let_def)

lemma mid_ok_return:
  assumes "sys_ok st" and "c \<in> cpu_online_map st" and "curr (rqs st c) \<noteq> idle (rqs st c)"
  shows "mid_ok c (curr (rqs st c)) (return_task (curr (rqs st c)) d st)"
proof -
  let ?p = "curr (rqs st c)"
  let ?r = "return_task ?p d st"
  note inv = sys_okD [OF assms(1)]
  have p: "on_cpu (tasks st ?p)" "?p \<notin> idle_tasks st"
    using inv(4) assms(2) curr_idle [OF assms] by (simp_all add: place_ok_def)
  then have ok: "enq_ok (tasks st ?p)" "pol_ok (tasks st ?p)" "0 \<le> normal_prio (tasks st ?p)" "?p < TASK_LIMIT"
    using inv(7) by (simp_all add: prio_ok_def)
  note r = return_task_ok [OF sys_qs_ok [OF assms(1,2)] inv(3) sys_ok_running_unqueued [OF assms(1,2)] insertI1 ok(4,1), of d]
  have t: "on_cpu (tasks ?r q) = on_cpu (tasks st q)" "task_cpu (tasks ?r q) = task_cpu (tasks st q)"
    "state (tasks ?r q) = state (tasks st q)" "q \<noteq> ?p \<Longrightarrow> tasks ?r q = tasks st q" for q
    by (simp_all add: return_task_task)
  have i: "idle_tasks ?r = idle_tasks st" "busy ?r C = busy st C" for C by (simp_all add: idle_tasks_def busy_def)
  have pp: "enq_ok (tasks ?r ?p)" "pol_ok (tasks ?r ?p)" "normal_prio (tasks ?r ?p) = normal_prio (tasks st ?p)"
    using enqueued_ok [OF ok(1,2), of st] enq_ok_cong [of "(tasks st ?p)\<lparr>sticky := False\<rparr>" "tasks st ?p"]
      pol_ok_cong [of "(tasks st ?p)\<lparr>sticky := False\<rparr>" "tasks st ?p"] ok(1,2)
    by (simp_all add: return_task_task)
  have "place_ok ?r" using inv(4) by (simp add: place_ok_def t)
  moreover have "idle_ok ?r"
  proof -
    have "idle (rqs st d) \<noteq> ?p" if "d \<in> cpu_online_map st" for d using that p(2) unfolding idle_tasks_def by (metis image_eqI)
    then show ?thesis using inv(5) t(2-4) by (simp add: idle_ok_def idle_map_ok_def)
  qed
  moreover have "prio_ok ?r"
  proof -
    have "q = ?p \<or> tasks ?r q = tasks st q \<and> ((\<exists>i. q \<in> set (queue (grq ?r) i)) \<longrightarrow> (\<exists>i. q \<in> set (queue (grq st) i)))" for q
      using t(4) return_task_queue [of ?p d st] by blast
    then show ?thesis using inv(7) pp ok(3,4) t(1) unfolding prio_ok_def i(1) by metis
  qed
  moreover have "nr_running (grq ?r) = int (qtotal (queue (grq ?r)) + busy ?r (cpu_online_map ?r - {c}))"
  proof -
    have "nr_running (grq st) = int (qtotal (queue (grq st)) + busy st (cpu_online_map st - {c}) + 1)"
      using inv(8) busy_split [OF inv(4) assms(2)] assms(3) by (simp add: count_ok_def)
    moreover from this have "u64 (nr_running (grq st) - 1) = nr_running (grq st) - 1"
      using nr_running_small [OF assms(1)] by (intro u64_id) (simp add: in_u64_def)
    ultimately show ?thesis using r(3) by (simp add: i(2))
  qed
  ultimately show ?thesis
    using r(1,2) inv(6) assms(2) by (simp add: mid_ok_def idle_map_running_def)
qed

section \<open>Picking the next task\<close>

text \<open>The state after the choice of \<open>nxt\<close>, which has been taken off its queue unless it is the idle task.\<close>

definition picked_ok :: "cpu \<Rightarrow> tid \<Rightarrow> tid \<Rightarrow> kstate \<Rightarrow> bool" where
  "picked_ok c prev nxt st \<longleftrightarrow> qs_ok {prev} st \<and> qnr (grq st) = int (qtotal (queue (grq st))) \<and> place_ok st \<and> idle_ok st \<and>
     (\<forall>d \<in> cpu_idle_map (grq st) - {c}. curr (rqs st d) = idle (rqs st d)) \<and> prio_ok st \<and>
     nr_running (grq st) = int (qtotal (queue (grq st)) + busy st (cpu_online_map st - {c}) +
       (if nxt = idle (rqs st c) then 0 else 1)) \<and>
     c \<in> cpu_online_map st \<and> curr (rqs st c) = prev \<and> (\<forall>i. nxt \<notin> set (queue (grq st) i)) \<and> task_cpu (tasks st nxt) = c \<and>
     (on_cpu (tasks st nxt) \<longrightarrow> nxt = prev) \<and> (c \<in> cpu_idle_map (grq st) \<longrightarrow> nxt = idle (rqs st c)) \<and>
     (nxt \<noteq> idle (rqs st c) \<longrightarrow> nxt \<notin> idle_tasks st \<and> enq_ok (tasks st nxt) \<and> 0 \<le> normal_prio (tasks st nxt) \<and> nxt < TASK_LIMIT)"

lemma mid_idle_unqueued:
  assumes "mid_ok c prev st" and "p \<in> idle_tasks st"
  shows "p \<notin> set (queue (grq st) i)"
  using assms(2) qs_okD(1,2) [OF mid_okD(1) [OF assms(1)], of p i] mid_okD(4) [OF assms(1)]
  by (auto simp: idle_tasks_def idle_ok_def)

lemma idle_in_idle_tasks: "c \<in> cpu_online_map st \<Longrightarrow> idle (rqs st c) \<in> idle_tasks st"
  by (simp add: idle_tasks_def)

lemma idle_placed:
  assumes "place_ok st" and "idle_ok st" and "c \<in> cpu_online_map st"
  shows "task_cpu (tasks st (idle (rqs st c))) = c"
    and "on_cpu (tasks st (idle (rqs st c))) \<Longrightarrow> idle (rqs st c) = curr (rqs st c)"
  using assms by (auto simp: place_ok_def idle_ok_def)

lemma picked_idle:
  assumes "mid_ok c prev st"
  shows "picked_ok c prev (idle (rqs st c)) (schedule_goidle c st)"
proof -
  note m = mid_okD [OF assms]
  let ?g = "schedule_goidle c st"
  have g: "tasks ?g = tasks st" "queue (grq ?g) = queue (grq st)" "prio_bitmap (grq ?g) = prio_bitmap (grq st)"
    "qnr (grq ?g) = qnr (grq st)" "nr_running (grq ?g) = nr_running (grq st)" "cpu_online_map ?g = cpu_online_map st"
    "curr (rqs ?g d) = curr (rqs st d)" "idle (rqs ?g d) = idle (rqs st d)"
    "cpu_idle_map (grq ?g) = insert c (cpu_idle_map (grq st))" for d
    using m(8) by (simp_all add: schedule_goidle_def)
  have i: "idle_tasks ?g = idle_tasks st" "busy ?g C = busy st C" for C by (simp_all add: idle_tasks_def busy_def g)
  have "idle_map_ok ?g"
  proof -
    have "idle_map_ok (upd_rq c (\<lambda>r. r\<lparr>sched_goidle := u32 (sched_goidle r + 1)\<rparr>) st)"
      using m(4) by (simp add: idle_ok_def idle_map_ok_def)
    then show ?thesis unfolding schedule_goidle_def by (rule idle_map_ok_set)
  qed
  then show ?thesis
    using m idle_placed [OF m(3,4,8)] mid_idle_unqueued [OF assms idle_in_idle_tasks [OF m(8)]]
    unfolding picked_ok_def qs_ok_def place_ok_def idle_ok_def prio_ok_def i g by auto
qed

lemma picked_taken:
  assumes "mid_ok c prev st" and "p \<in> set (queue (grq st) i)"
  shows "picked_ok c prev p (clear_cpuidle_map c (take_task c p st))"
    and "prio (tasks (take_task c p st) p) \<noteq> PRIO_LIMIT" and "p \<noteq> idle (rqs st c)"
proof -
  note m = mid_okD [OF assms(1)]
  let ?k = "take_task c p st"
  let ?g = "clear_cpuidle_map c ?k"
  note q = qs_okD [OF m(1) assms(2)] and tk = take_task_ok [OF m(1,2) assms(2), of c]
  have pi: "p \<notin> idle_tasks st" using mid_idle_unqueued [OF assms(1)] assms(2) by blast
  then show ne: "p \<noteq> idle (rqs st c)" using idle_in_idle_tasks [OF m(8)] by auto
  have t: "tasks ?g = (tasks st)(p := (tasks st p)\<lparr>task_cpu := c, sticky := False\<rparr>)" by (simp add: take_task_tasks)
  show "prio (tasks ?k p) \<noteq> PRIO_LIMIT" using q(1,2) by (simp add: take_task_tasks)
  have pr: "enq_ok (tasks st p)" "0 \<le> normal_prio (tasks st p)" "p < TASK_LIMIT" using m(6) pi assms(2) by (auto simp: prio_ok_def)
  have cp: "enq_ok (t\<lparr>task_cpu := c, sticky := False\<rparr>) = enq_ok t" "pol_ok (t\<lparr>task_cpu := c, sticky := False\<rparr>) = pol_ok t" for t
    by (rule enq_ok_cong pol_ok_cong; simp)+
  have on: "on_cpu (tasks st p) \<longrightarrow> p = prev" using q(3) by auto
  then have cpu: "on_cpu (tasks st p) \<longrightarrow> task_cpu (tasks st p) = c" using m(3,8,9) by (auto simp: place_ok_def)
  have g: "queue (grq ?g) = queue (grq ?k)" "prio_bitmap (grq ?g) = prio_bitmap (grq ?k)" "qnr (grq ?g) = qnr (grq ?k)"
    "nr_running (grq ?g) = nr_running (grq st)" "cpu_online_map ?g = cpu_online_map st" "rqs ?g = rqs st"
    "cpu_idle_map (grq ?g) = cpu_idle_map (grq st) - {c}"
    by simp_all
  have i: "idle_tasks ?g = idle_tasks st" "busy ?g C = busy st C" for C by (simp_all add: idle_tasks_def busy_def)
  have qs: "qs_ok {prev} ?g" using tk(1) by (simp add: qs_ok_def)
  have im: "idle_map_ok ?g"
    using m(4) by (intro idle_map_ok_clear) (simp add: idle_ok_def idle_map_ok_def)
  have "idle_ok ?g"
  proof -
    have "idle (rqs st d) \<noteq> p" if "d \<in> cpu_online_map st" for d using that pi unfolding idle_tasks_def by (metis image_eqI)
    then show ?thesis using im m(4) unfolding idle_ok_def g t by simp
  qed
  moreover have "place_ok ?g" using m(3) cpu unfolding place_ok_def g t by auto
  moreover have "prio_ok ?g"
  proof -
    have "set (queue (grq ?k) j) \<subseteq> set (queue (grq st) j)" for j by (simp add: set_remove1_subset)
    then show ?thesis using m(6) pr unfolding prio_ok_def i(1) t g(1) by (auto simp: cp; blast)
  qed
  moreover have "nr_running (grq st) = int (qtotal (queue (grq ?k)) + busy st (cpu_online_map st - {c}) + 1)"
    using m(7) tk(4) by simp
  ultimately show "picked_ok c prev p ?g"
    using qs tk(2,3) m(5,8,9) on pi pr ne unfolding picked_ok_def g i
    by (simp add: take_task_tasks cp)
qed

lemma edt_outcome:
  assumes "qs_ok S st" and "\<And>i. idle (rqs st c) \<notin> set (queue (grq st) i)"
  obtains (none) par where "earliest_deadline_task c st = (st\<lparr>param := par\<rparr>, idle (rqs st c))"
  | (some) p i par where "earliest_deadline_task c st = (take_task c p (st\<lparr>param := par\<rparr>), p)" and "p \<in> set (queue (grq st) i)"
proof -
  note s = edt_search_spec [OF assms]
  show ?thesis
  proof (cases "edt_search c 0 st")
    case None
    then have "earliest_deadline_task c st = (st\<lparr>param := param st\<rparr>, idle (rqs st c))"
      by (simp add: earliest_deadline_task_def)
    then show ?thesis by (rule none)
  next
    case (Some r)
    obtain rt p where r: "r = (rt, p)" by (cases r)
    from s Some r obtain i where "edt_choice c st i p" by auto
    then have p: "p \<in> set (queue (grq st) i)" by (simp add: edt_choice_def candidate_def)
    show ?thesis
    proof (cases rt)
      case True
      then have "earliest_deadline_task c st = (take_task c p (st\<lparr>param := param st\<rparr>), p)"
        using Some r by (simp add: earliest_deadline_task_def)
      then show ?thesis using p by (rule some)
    next
      case False
      obtain par hit where ih: "inject_check (tgid (tasks st p)) (pid (tasks st p)) (param st) = (par, hit)"
        by (cases "inject_check (tgid (tasks st p)) (pid (tasks st p)) (param st)")
      then show ?thesis
        using Some r False p none [of par] some [of p par i]
        by (cases hit) (simp_all add: earliest_deadline_task_def Let_def)
    qed
  qed
qed

lemma schedule_pick_ok:
  assumes "mid_ok c prev st"
  shows "picked_ok c prev (snd (schedule_pick c v st)) (fst (schedule_pick c v st))"
proof (cases "queued_notrunning st = 0 \<or> idle_cycles_offset (param st) = v")
  case True
  then show ?thesis using picked_idle [of c prev "st\<lparr>param := (param st)\<lparr>idle_cycles_offset := 0\<rparr>\<rparr>"] assms
    by (simp add: schedule_pick_def)
next
  case False
  note m = mid_okD [OF assms]
  have nq: "idle (rqs st c) \<notin> set (queue (grq st) i)" for i
    by (rule mid_idle_unqueued [OF assms idle_in_idle_tasks [OF m(8)]])
  show ?thesis
  proof (rule edt_outcome [OF m(1) nq])
    fix par assume "earliest_deadline_task c st = (st\<lparr>param := par\<rparr>, idle (rqs st c))"
    then show ?thesis using False picked_idle [of c prev "st\<lparr>param := par\<rparr>"] assms by (simp add: schedule_pick_def)
  next
    fix p i par assume e: "earliest_deadline_task c st = (take_task c p (st\<lparr>param := par\<rparr>), p)" and p: "p \<in> set (queue (grq st) i)"
    have "mid_ok c prev (st\<lparr>param := par\<rparr>)" using assms by simp
    from picked_taken [OF this, of p i] p e False show ?thesis by (simp add: schedule_pick_def)
  qed
qed

section \<open>Switching\<close>

definition swap_running :: "cpu \<Rightarrow> tid \<Rightarrow> tid \<Rightarrow> kstate \<Rightarrow> kstate" where
  "swap_running c prev nxt st = upd_rq c (\<lambda>r. r\<lparr>curr := nxt\<rparr>)
     (upd_task nxt (\<lambda>t. t\<lparr>on_cpu := True\<rparr>) (upd_task prev (\<lambda>t. t\<lparr>on_cpu := False\<rparr>) st))"

lemma core_swap_running: "core s1 = core s2 \<Longrightarrow> core (swap_running c prev nxt s1) = core (swap_running c prev nxt s2)"
  using coreD [of s1 s2] by (intro coreI) (auto simp: swap_running_def task_core_def grq_core_def)

lemma core_schedule_switch:
  "core (schedule_switch c prev nxt v st) = (if prev = nxt then core st else core (swap_running c prev nxt st))"
proof (cases "prev = nxt")
  case False
  let ?a = "upd_grq (\<lambda>g. g\<lparr>nr_switches := u64 (nr_switches g + 1)\<rparr>)
    (set_rq_task c nxt (if rt_task (tasks st nxt) then unstick_task c prev st else st))"
  have a: "core ?a = core st" by (simp add: core_upd_grq grq_core_def)
  have "core (schedule_switch c prev nxt v st) = core (swap_running c prev nxt ?a)"
    using False by (simp add: schedule_switch_def Let_def swap_running_def core_upd_task task_core_def)
  with core_swap_running [OF a] False show ?thesis by simp
qed (simp add: schedule_switch_def)

lemma picked_okD:
  assumes "picked_ok c prev nxt st"
  shows "qs_ok {prev} st" "qnr (grq st) = int (qtotal (queue (grq st)))" "place_ok st" "idle_ok st"
    "\<forall>d \<in> cpu_idle_map (grq st) - {c}. curr (rqs st d) = idle (rqs st d)" "prio_ok st"
    "nr_running (grq st) = int (qtotal (queue (grq st)) + busy st (cpu_online_map st - {c}) +
       (if nxt = idle (rqs st c) then 0 else 1))"
    "c \<in> cpu_online_map st" "curr (rqs st c) = prev" "nxt \<notin> set (queue (grq st) i)" "task_cpu (tasks st nxt) = c"
    "on_cpu (tasks st nxt) \<Longrightarrow> nxt = prev" "c \<in> cpu_idle_map (grq st) \<Longrightarrow> nxt = idle (rqs st c)"
    "nxt \<noteq> idle (rqs st c) \<Longrightarrow> nxt \<notin> idle_tasks st \<and> enq_ok (tasks st nxt) \<and> 0 \<le> normal_prio (tasks st nxt) \<and> nxt < TASK_LIMIT"
  using assms unfolding picked_ok_def by blast+

lemma picked_same:
  assumes "picked_ok c prev prev st"
  shows "sys_ok st"
proof -
  note k = picked_okD [OF assms]
  have "qs_ok {} st" by (rule qs_ok_cong [OF k(1)]) (use k(10) in auto)
  then have "queue_ok st" using k(2) by (simp add: queue_ok_qs)
  moreover have "idle_map_running st" using k(5,9,13) by (auto simp: idle_map_running_def)
  moreover have "count_ok st" using k(7,9) busy_split [OF k(3,8)] by (simp add: count_ok_def)
  ultimately show ?thesis using k(3,4,6) by (simp add: sys_ok_def)
qed

lemma picked_switched:
  assumes "picked_ok c prev nxt st" and "prev \<noteq> nxt"
  shows "sys_ok (swap_running c prev nxt st)"
proof -
  note k = picked_okD [OF assms(1)]
  let ?s = "swap_running c prev nxt st"
  have on: "on_cpu (tasks ?s q) \<longleftrightarrow> q = nxt \<or> q \<noteq> prev \<and> on_cpu (tasks st q)" for q
    using assms(2) by (auto simp: swap_running_def)
  have t: "prio (tasks ?s q) = prio (tasks st q)" "task_cpu (tasks ?s q) = task_cpu (tasks st q)"
    "state (tasks ?s q) = state (tasks st q)" "normal_prio (tasks ?s q) = normal_prio (tasks st q)"
    "policy (tasks ?s q) = policy (tasks st q)" "rt_priority (tasks ?s q) = rt_priority (tasks st q)" for q
    by (simp_all add: swap_running_def)
  have e: "pol_ok (tasks ?s q) = pol_ok (tasks st q)" "enq_ok (tasks ?s q) = enq_ok (tasks st q)" for q
    by (rule pol_ok_cong enq_ok_cong; simp add: t)+
  have r: "curr (rqs ?s d) = (if d = c then nxt else curr (rqs st d))" "idle (rqs ?s d) = idle (rqs st d)" for d
    by (simp_all add: swap_running_def)
  have g: "grq ?s = grq st" "cpu_online_map ?s = cpu_online_map st" by (simp_all add: swap_running_def)
  have i: "idle_tasks ?s = idle_tasks st" by (simp add: idle_tasks_def r g)
  have pc: "on_cpu (tasks st prev)" "task_cpu (tasks st prev) = c" using k(3,8,9) by (auto simp: place_ok_def)
  have "qs_ok {} ?s"
    by (rule qs_ok_cong [OF k(1)]) (use k(10) in \<open>auto simp: g on t\<close>)
  then have "queue_ok ?s" using k(2) by (simp add: queue_ok_qs g)
  moreover have p: "place_ok ?s"
    unfolding place_ok_def g
  proof (intro conjI ballI allI impI)
    show "cpu_online_map st \<subseteq> {..<NR_CPUS}" using k(3) by (simp add: place_ok_def)
  next
    fix d assume d: "d \<in> cpu_online_map st"
    have o: "on_cpu (tasks st (curr (rqs st d)))" "task_cpu (tasks st (curr (rqs st d))) = d"
      using k(3) d by (simp_all add: place_ok_def)
    show "on_cpu (tasks ?s (curr (rqs ?s d)))" using o pc(2) by (auto simp: r on)
    show "task_cpu (tasks ?s (curr (rqs ?s d))) = d" using o(2) k(11) by (simp add: r t)
  next
    fix q assume q: "on_cpu (tasks ?s q)"
    have "q = nxt \<or> q \<noteq> prev \<and> task_cpu (tasks st q) \<in> cpu_online_map st \<and> curr (rqs st (task_cpu (tasks st q))) = q"
      using q k(3) by (auto simp: on place_ok_def)
    then show "task_cpu (tasks ?s q) \<in> cpu_online_map st" "curr (rqs ?s (task_cpu (tasks ?s q))) = q"
      using k(8,9,11) by (auto simp: r t)
  qed
  moreover have "idle_ok ?s" using k(4) by (simp add: idle_ok_def idle_map_ok_def g r t)
  moreover have "idle_map_running ?s" using k(5,13) by (auto simp: idle_map_running_def g r)
  moreover have "prio_ok ?s"
  proof -
    have "nxt \<notin> idle_tasks st \<Longrightarrow> enq_ok (tasks st nxt) \<and> 0 \<le> normal_prio (tasks st nxt) \<and> nxt < TASK_LIMIT"
      using k(14) idle_in_idle_tasks [OF k(8)] by auto
    then show ?thesis using k(6) unfolding prio_ok_def i g e t on by blast
  qed
  moreover have "count_ok ?s"
  proof -
    have "busy ?s (cpu_online_map st - {c}) = busy st (cpu_online_map st - {c})"
      unfolding busy_def by (rule arg_cong [where f = card]) (auto simp: r)
    then show ?thesis using k(7) busy_split [OF p, of c] k(8) by (simp add: count_ok_def g r)
  qed
  ultimately show ?thesis by (simp add: sys_ok_def)
qed

lemma schedule_switch_ok:
  assumes "picked_ok c prev nxt st"
  shows "sys_ok (schedule_switch c prev nxt v st)"
proof (cases "prev = nxt")
  case True
  then show ?thesis using assms picked_same by (simp add: schedule_switch_def)
next
  case False
  then have "core (schedule_switch c prev nxt v st) = core (swap_running c prev nxt st)"
    by (simp add: core_schedule_switch)
  then show ?thesis using sys_ok_core picked_switched [OF assms False] by blast
qed

section \<open>The whole pass\<close>

text \<open>What the workqueue code promises: the worker it asks to wake is asleep.\<close>

definition wq_ok :: "kstate \<Rightarrow> bool" where
  "wq_ok st \<longleftrightarrow> (\<forall>p c q. wq_worker_sleeping st p c = Some q \<and> q \<noteq> p \<longrightarrow> \<not> on_cpu (tasks st q) \<and> q < TASK_LIMIT)"

lemma wq_frame [frame, simp]: "wq_worker_sleeping (schedule_debug c st) = wq_worker_sleeping st"
  by (simp add: schedule_debug_def)

lemma schedule_block_ok:
  assumes "sys_ok st" and "wq_ok st"
  shows "sys_ok (fst (schedule_block c prev pa st))"
proof -
  have "sys_ok (try_to_wake_up_local c q st)" if "wq_worker_sleeping st prev c = Some q" "q \<noteq> prev" for q
    using that assms(2) by (intro sys_ok_wakeup_local [OF assms(1)]) (auto simp: wq_ok_def)
  moreover have "sys_ok (upd_task prev (\<lambda>t. t\<lparr>state := TASK_RUNNING\<rparr>) st)"
    by (rule sys_ok_set_state [OF assms(1)]) simp
  ultimately show ?thesis using assms(1) by (auto simp: schedule_block_def split: option.split)
qed

lemma ttwu_activate_place [frame, simp]:
  "curr (rqs (ttwu_activate this p c is_sync st) d) = curr (rqs st d)"
  "idle (rqs (ttwu_activate this p c is_sync st) d) = idle (rqs st d)"
  "cpu_online_map (ttwu_activate this p c is_sync st) = cpu_online_map st"
  using coreD(10,11,18) [OF core_ttwu_activate [of this p c is_sync st]] by simp_all

lemma schedule_block_curr:
  "curr (rqs (fst (schedule_block c prev pa st)) d) = curr (rqs st d)"
    "idle (rqs (fst (schedule_block c prev pa st)) d) = idle (rqs st d)"
    "cpu_online_map (fst (schedule_block c prev pa st)) = cpu_online_map st"
    "fst (snd (schedule_block c prev pa st)) \<Longrightarrow> state (tasks st prev) \<noteq> 0"
proof -
  have "curr (rqs (try_to_wake_up_local c q st) d) = curr (rqs st d) \<and>
    idle (rqs (try_to_wake_up_local c q st) d) = idle (rqs st d) \<and>
    cpu_online_map (try_to_wake_up_local c q st) = cpu_online_map st" for q
    by (simp add: try_to_wake_up_local_def Let_def ttwu_stat_def)
  then show "curr (rqs (fst (schedule_block c prev pa st)) d) = curr (rqs st d)"
    "idle (rqs (fst (schedule_block c prev pa st)) d) = idle (rqs st d)"
    "cpu_online_map (fst (schedule_block c prev pa st)) = cpu_online_map st"
    "fst (snd (schedule_block c prev pa st)) \<Longrightarrow> state (tasks st prev) \<noteq> 0"
    by (auto simp: schedule_block_def split: option.split if_splits)
qed

lemma schedule_put_prev_ok:
  assumes "sys_ok st" and "c \<in> cpu_online_map st" and "curr (rqs st c) \<noteq> idle (rqs st c)"
    and "schedule_put_prev c (curr (rqs st c)) d st = (st', rerun)"
  shows "if rerun then sys_ok st' \<and> core st' = core st else mid_ok c (curr (rqs st c)) st'"
proof -
  let ?p = "curr (rqs st c)"
  define s where "s = upd_task ?p (\<lambda>t. t\<lparr>last_ran := rq_clock (rqs st c)\<rparr>) (check_deadline ?p
    (upd_task ?p (\<lambda>t. t\<lparr>time_slice := rq_time_slice (rqs st c), deadline := rq_deadline (rqs st c)\<rparr>) st))"
  have r: "rqs (check_deadline ?p s0) = rqs s0" for s0 by (simp add: check_deadline_def time_slice_expired_def)
  have s: "core s = core st" by (simp add: s_def core_upd_task task_core_def)
  have m: "mid_ok c ?p (return_task ?p d s')" if "core s' = core st" for s'
  proof -
    have "sys_ok s'" using sys_ok_core [OF that] assms(1) by simp
    moreover have "curr (rqs s' c) = ?p" "idle (rqs s' c) = idle (rqs st c)" "cpu_online_map s' = cpu_online_map st"
      using coreD [OF that] by simp_all
    ultimately show ?thesis using mid_ok_return [of s' c d] assms(2,3) by simp
  qed
  have "(st', rerun) = (if needs_other_cpu (tasks s ?p) c
         then (return_task ?p d (resched_suitable_idle c ?p s), False)
         else if \<not> d then
           (if queued_notrunning s = 0 then (s, True)
            else (return_task ?p d (swap_sticky c c ?p s), False))
         else (return_task ?p d s, False))"
    unfolding assms(4) [symmetric] schedule_put_prev_def Let_def s_def by (simp add: r)
  moreover have "core (resched_suitable_idle c ?p s) = core st" "core (swap_sticky c c ?p s) = core st"
    using s by simp_all
  ultimately show ?thesis using m s sys_ok_core [OF s] assms(1) by (auto split: if_splits)
qed

text \<open>What a pass that is carried through does, in terms of its parts.\<close>

lemma schedule_pass_cases:
  assumes "schedule_pass c pa st = Returns (st', again)"
  obtains (flush) s d v where "schedule_block c (curr (rqs st c)) pa (schedule_debug c st) = (s, d, v)"
      and "st' = upd_task (curr (rqs st c)) (\<lambda>t. t\<lparr>plugged := False\<rparr>) s" and "again"
      and "plugged (tasks s (curr (rqs st c)))"
  | (rerun) s d v where "schedule_block c (curr (rqs st c)) pa (schedule_debug c st) = (s, d, v)"
      and "schedule_put_prev c (curr (rqs st c)) d (schedule_account c (curr (rqs st c)) s) = (st', True)"
      and "curr (rqs st c) \<noteq> idle (rqs (schedule_account c (curr (rqs st c)) s) c)"
      and "again = tif_need_resched (tasks st' (curr (rqs st c)))"
  | (switch) s d v m i s2 nxt s3 where "schedule_block c (curr (rqs st c)) pa (schedule_debug c st) = (s, d, v)"
      and "if curr (rqs st c) \<noteq> idle (rqs (schedule_account c (curr (rqs st c)) s) c)
           then schedule_put_prev c (curr (rqs st c)) d (schedule_account c (curr (rqs st c)) s) = (m, False)
           else m = schedule_account c (curr (rqs st c)) s"
      and "schedule_inject m = Returns (s2, i)" and "schedule_pick c i s2 = (s3, nxt)"
      and "st' = schedule_switch c (curr (rqs st c)) nxt v s3"
      and "again = tif_need_resched (tasks st' (curr (rqs st' c)))"
proof -
  let ?p = "curr (rqs st c)"
  obtain s d v where b: "schedule_block c ?p pa (schedule_debug c st) = (s, d, v)" by (cases "schedule_block c ?p pa (schedule_debug c st)")
  let ?a = "schedule_account c ?p s"
  obtain m r where m: "(if ?p \<noteq> idle (rqs ?a c) then schedule_put_prev c ?p d ?a else (?a, False)) = (m, r)"
    by (cases "if ?p \<noteq> idle (rqs ?a c) then schedule_put_prev c ?p d ?a else (?a, False)")
  note unf = assms [unfolded schedule_pass_def Let_def b prod.case]
  consider "d \<and> plugged (tasks s ?p)" | "\<not> (d \<and> plugged (tasks s ?p))" r | "\<not> (d \<and> plugged (tasks s ?p))" "\<not> r" by blast
  then show ?thesis
  proof cases
    case 1
    then show ?thesis using flush [OF b] unf by auto
  next
    case 2
    then have "st' = m" using unf m by (simp split: if_splits)
    moreover have "?p \<noteq> idle (rqs ?a c)" using m 2(2) by (auto split: if_splits)
    moreover have "again = tif_need_resched (tasks st' ?p)" using unf m 2 by (auto split: if_splits)
    ultimately show ?thesis using rerun [OF b] m 2(2) by (simp split: if_splits)
  next
    case 3
    then have m': "if ?p \<noteq> idle (rqs ?a c) then schedule_put_prev c ?p d ?a = (m, False) else m = ?a"
      using m by (auto split: if_splits)
    have e: "(case schedule_inject m of Oops \<Rightarrow> Oops | Returns (st, injection_value) \<Rightarrow>
          (case schedule_pick c injection_value st of (st, next) \<Rightarrow>
             Returns (schedule_switch c ?p next v st, tif_need_resched (tasks (schedule_switch c ?p next v st)
               (curr (rqs (schedule_switch c ?p next v st) c)))))) = Returns (st', again)"
      using unf m 3 by (simp add: Let_def)
    then obtain s2 i where j: "schedule_inject m = Returns (s2, i)" by (cases "schedule_inject m") auto
    obtain s3 nxt where k: "schedule_pick c i s2 = (s3, nxt)" by (cases "schedule_pick c i s2")
    show ?thesis by (rule switch [OF b m' j k]) (use e j k in auto)
  qed
qed

lemma schedule_inject_param:
  assumes "schedule_inject st = Returns (s2, i)"
  obtains par where "s2 = st\<lparr>param := par\<rparr>"
proof -
  obtain h d g q where "setup_env st = (h, d, g, q)" by (cases "setup_env st")
  then show ?thesis
    using assms that by (auto simp: schedule_inject_def Let_def split: if_splits outcome.splits)
qed

end
