(* ===== verification/Sched_Run.thy ===== *)
theory Sched_Run
  imports Sched_Pass
begin

text \<open>
  The loop of \<open>schedule()\<close> and what a run of it achieves.  Reschedule flags sit on current tasks only;
  this makes the loop end after at most two passes with a running task that is not flagged.  The
  choice of the next task, both kinds of injection and the reference counts of the address spaces
  are characterised here as well.
\<close>

section \<open>The loop\<close>

text \<open>\<open>pa p\<close> tells whether task \<open>p\<close> entered \<open>schedule()\<close> with \<open>PREEMPT_ACTIVE\<close> set.  After a switch the loop
  goes on as the new current task.\<close>

partial_function (option) schedule :: "(tid \<Rightarrow> bool) \<Rightarrow> cpu \<Rightarrow> kstate \<Rightarrow> kstate outcome option" where
  "schedule pa c st =
     (case schedule_pass c (pa (curr (rqs st c))) st of
        Oops \<Rightarrow> Some Oops
      | Returns r \<Rightarrow> if snd r then schedule pa c (fst r) else Some (Returns (fst r)))"

section \<open>Where the reschedule flags are\<close>

definition flags_in :: "tid set \<Rightarrow> kstate \<Rightarrow> bool" where
  "flags_in X st \<longleftrightarrow> (\<forall>p. tif_need_resched (tasks st p) \<longrightarrow> p \<in> X)"

definition currents :: "kstate \<Rightarrow> cpu set \<Rightarrow> tid set" where
  "currents st C = (\<lambda>d. curr (rqs st d)) ` C"

abbreviation parked :: "kstate \<Rightarrow> tid set" where
  "parked st \<equiv> currents st (- cpu_online_map st)"

text \<open>A flagged task is the current task of some processor, and the current task of a processor that is
  not online is parked: not queued, not running, in no sleep.\<close>

definition flags_ok :: "kstate \<Rightarrow> bool" where
  "flags_ok st \<longleftrightarrow> flags_in (currents st UNIV) st"

definition parked_ok :: "kstate \<Rightarrow> bool" where
  "parked_ok st \<longleftrightarrow> (\<forall>p \<in> parked st. p \<notin> idle_tasks st \<and> state (tasks st p) = TASK_RUNNING \<and>
     \<not> on_cpu (tasks st p) \<and> (\<forall>i. p \<notin> set (queue (grq st) i)))"

lemma flags_inD: "flags_in X st \<Longrightarrow> p \<notin> X \<Longrightarrow> \<not> tif_need_resched (tasks st p)"
  by (auto simp: flags_in_def)

lemma flags_in_mono: "flags_in X st \<Longrightarrow> X \<subseteq> Y \<Longrightarrow> flags_in Y st"
  by (auto simp: flags_in_def)

lemma flags_in_cong:
  "(\<And>p. tif_need_resched (tasks st' p) = tif_need_resched (tasks st p)) \<Longrightarrow> flags_in X st' = flags_in X st"
  by (simp add: flags_in_def)

lemma flags_in_upd [simp]:
  "flags_in X (upd_rq c g st) = flags_in X st" "flags_in X (upd_grq h st) = flags_in X st"
  "flags_in X (st\<lparr>param := y\<rparr>) = flags_in X st"
  by (simp_all add: flags_in_def)

lemma flags_in_upd_task:
  "(\<And>t. tif_need_resched (f t) = tif_need_resched t) \<Longrightarrow> flags_in X (upd_task p f st) = flags_in X st"
  by (auto simp: flags_in_def)

lemma flags_in_clear_sticky [simp]: "flags_in X (clear_sticky p st) = flags_in X st"
  by (simp add: clear_sticky_def flags_in_upd_task)

lemma clear_sticky_frame [frame, simp]:
  "rqs (clear_sticky p st) = rqs st" "grq (clear_sticky p st) = grq st"
  by (simp_all add: clear_sticky_def)

lemma currents_clear_sticky [simp]: "currents (clear_sticky p st) C = currents st C"
  by (simp add: currents_def)

lemma flags_in_resched: "flags_in X st \<Longrightarrow> p \<in> X \<Longrightarrow> flags_in X (resched_task this p st)"
  by (simp add: flags_in_def resched_task_tasks)

lemma flags_in_best_idle:
  assumes "flags_in X st" and "currents st UNIV \<subseteq> X"
  shows "flags_in X (resched_best_idle this p st)"
  using assms by (auto simp: resched_best_idle_def resched_best_mask_def Let_def currents_def intro!: flags_in_resched)

lemma flags_in_best_mask:
  assumes "flags_in X st" and "m \<noteq> {}" and "m \<subseteq> {..<NR_CPUS}" and "currents st m \<subseteq> X"
  shows "flags_in X (resched_best_mask this best c m st)"
proof -
  obtain d where "d \<in> m" "resched_best_mask this best c m st = resched_task this (curr (rqs st d)) st"
    using resched_best_mask_chosen [OF assms(2,3)] by blast
  then show ?thesis using assms(1,4) by (auto simp: currents_def intro!: flags_in_resched)
qed

lemma flags_in_try_preempt:
  assumes "flags_in X st" and "currents st UNIV \<subseteq> X"
  shows "flags_in X (try_preempt this p c st)"
proof -
  let ?s = "clear_sticky p st"
  have s: "flags_in X ?s" "currents ?s UNIV \<subseteq> X" using assms by simp_all
  have "curr (rqs ?s d) \<in> X" for d using s(2) by (auto simp: currents_def)
  then show ?thesis
    using s flags_in_best_idle [OF s] flags_in_resched [OF s(1)]
    by (simp add: try_preempt_def Let_def case_prod_beta)
qed

lemma flags_in_closest:
  assumes "flags_in X st" and "cpu_idle_map (grq st) \<subseteq> {..<NR_CPUS}" and "currents st (- {c}) \<subseteq> X"
  shows "flags_in X (resched_closest_idle this c p st)"
proof -
  let ?m = "cpus_allowed (tasks st p) \<inter> cpu_idle_map (grq st) - {c}"
  have "flags_in X (resched_best_mask this c c ?m st)" if "?m \<noteq> {}"
    by (rule flags_in_best_mask [OF assms(1) that]) (use assms(2,3) in \<open>auto simp: currents_def\<close>)
  then show ?thesis using assms(1) by (simp add: resched_closest_idle_def Let_def)
qed

lemma flags_in_swap_sticky:
  assumes "flags_in X st" and "cpu_idle_map (grq st) \<subseteq> {..<NR_CPUS}" and "currents st (- {c}) \<subseteq> X"
  shows "flags_in X (swap_sticky this c p st)"
proof -
  let ?s = "case sticky_task (rqs st c) of None \<Rightarrow> st
    | Some q \<Rightarrow> if task_sticky q st then resched_closest_idle this c q (clear_sticky q st) else st"
  have r: "resched_frame st ?s"
    by (auto split: option.split intro: resched_frame_trans resched_frame_clear_sticky resched_closest_idle_frame)
  have f: "flags_in X ?s" using assms by (auto simp: currents_def intro!: flags_in_closest split: option.split)
  have "flags_in X (resched_closest_idle this c p ?s)"
    using f by (rule flags_in_closest) (use assms(2,3) resched_frameD [OF r] in \<open>auto simp: currents_def\<close>)
  then show ?thesis
    using f assms(1) by (simp add: swap_sticky_def Let_def flags_in_upd_task)
qed

lemma flags_in_suitable_idle:
  assumes "flags_in X st" and "idle_map_ok st" and "cpu_idle_map (grq st) \<subseteq> {..<NR_CPUS}"
    and "currents st (cpu_idle_map (grq st)) \<subseteq> X"
  shows "flags_in X (resched_suitable_idle this p st)"
proof (cases "suitable_idle_cpus p st")
  case True
  let ?m = "cpus_allowed (tasks st p) \<inter> cpu_idle_map (grq st)"
  have "flags_in X (resched_best_mask this (task_cpu (tasks st p)) (task_cpu (tasks st p)) ?m st)"
    by (rule flags_in_best_mask [OF assms(1)])
      (use True assms(3,4) suitable_idle_cpus_iff [OF assms(2), of p] in \<open>auto simp: currents_def\<close>)
  then show ?thesis using True by (simp add: resched_suitable_idle_def resched_best_idle_def)
qed (use assms(1) in \<open>simp add: resched_suitable_idle_def\<close>)

lemma flags_in_unstick [simp]: "flags_in X (unstick_task c p st) = flags_in X st"
  by (simp add: unstick_task_def)

section \<open>Waking, forking and ticks\<close>

lemma flags_in_activate [simp]: "flags_in X (activate_task p c st) = flags_in X st"
  by (rule flags_in_cong) (simp add: activate_task_tasks)

lemma currents_activate [simp]: "currents (activate_task p c st) C = currents st C"
  by (simp add: currents_def)

lemma currents_upd_task [simp]: "currents (upd_task p f st) C = currents st C"
  by (simp add: currents_def)

lemma flags_in_ttwu_activate:
  assumes "flags_in X st" and "currents st UNIV \<subseteq> X"
  shows "flags_in X (ttwu_activate this p c b st)"
  using assms by (simp add: ttwu_activate_def Let_def flags_in_try_preempt)

lemma flags_in_ttwu [simp]:
  "flags_in X (ttwu_post_activation p c b st) = flags_in X st" "flags_in X (ttwu_stat this c st) = flags_in X st"
  by (auto simp: flags_in_def ttwu_post_activation_tasks)

lemma flags_in_wakeup:
  assumes "flags_in X st" and "currents st UNIV \<subseteq> X"
  shows "flags_in X (fst (try_to_wake_up this p s wfl st))"
  using assms by (simp add: try_to_wake_up_def Let_def flags_in_ttwu_activate)

lemma flags_in_wakeup_local:
  assumes "flags_in X st" and "currents st UNIV \<subseteq> X"
  shows "flags_in X (try_to_wake_up_local this p st)"
proof -
  have "currents (upd_rq c (\<lambda>r. r\<lparr>ttwu_count := a r, ttwu_local := b r\<rparr>) st) UNIV \<subseteq> X" for c a b
    using assms(2) by (auto simp: currents_def)
  then show ?thesis using assms by (simp add: try_to_wake_up_local_def Let_def flags_in_ttwu_activate)
qed

lemma flags_in_wake_new:
  assumes "flags_in X st" and "currents st UNIV \<subseteq> X"
  shows "flags_in X (wake_up_new_task this p st)"
proof -
  define a where "a = (\<lambda>e. activate_task p (task_cpu (tasks st p))
    (set_task_cpu p e (upd_task p (\<lambda>t. t\<lparr>state := TASK_RUNNING\<rparr>) st)))"
  have f: "flags_in X (a e)" "currents (a e) UNIV \<subseteq> X" for e
    using assms unfolding a_def by (simp_all add: set_task_cpu_def flags_in_upd_task)
  have g: "flags_in X (if curr (rqs (a e) d) = q \<and> b then resched_task this q (a e) else try_preempt this p d (a e))" for d e q b
    using f(2) [of e] by (auto simp: currents_def intro!: flags_in_try_preempt flags_in_resched f)
  show ?thesis unfolding wake_up_new_task_def Let_def by (rule g [unfolded a_def])
qed

lemma flags_in_set:
  "flags_in X st \<Longrightarrow> p \<in> X \<Longrightarrow> flags_in X (upd_task p (\<lambda>t. t\<lparr>tif_need_resched := True\<rparr>) st)"
  by (simp add: flags_in_def)

lemma reset_on_fork_flag [simp]: "tif_need_resched (reset_on_fork t) = tif_need_resched t"
  by (simp add: reset_on_fork_def Let_def)

lemma flags_in_fork:
  assumes "flags_in X st" and "curr (rqs st this) \<in> X"
  shows "flags_in X (sched_fork this p st)"
  using assms
  by (simp add: sched_fork_def Let_def set_task_cpu_def time_slice_expired_def flags_in_upd_task flags_in_set)

lemma flags_in_tick:
  assumes "flags_in X st" and "curr (rqs st c) \<in> X"
  shows "flags_in X (scheduler_tick c st)"
  using assms by (auto simp: flags_in_def scheduler_tick_resched)

lemma currents_core: "core st' = core st \<Longrightarrow> currents st' C = currents st C"
  using coreD(10) [of st' st] by (simp add: currents_def)

section \<open>Parked tasks\<close>

lemma parked_ok_step:
  assumes "parked_ok st" and "parked st' = parked st" and "idle_tasks st' = idle_tasks st"
    and "\<And>p. p \<in> parked st \<Longrightarrow> state (tasks st p) = TASK_RUNNING \<Longrightarrow> \<not> on_cpu (tasks st p) \<Longrightarrow>
      (\<And>i. p \<notin> set (queue (grq st) i)) \<Longrightarrow> p \<notin> idle_tasks st \<Longrightarrow>
      state (tasks st' p) = TASK_RUNNING \<and> \<not> on_cpu (tasks st' p) \<and> (\<forall>i. p \<notin> set (queue (grq st') i))"
  shows "parked_ok st'"
  using assms unfolding parked_ok_def by simp

lemma parked_ok_core:
  assumes "core st' = core st"
  shows "parked_ok st' = parked_ok st"
  using coreD [OF assms] core_derived(1) [OF assms] by (simp add: parked_ok_def currents_def)

lemma parked_ok_cong:
  assumes "\<And>d. curr (rqs st' d) = curr (rqs st d)" and "\<And>d. idle (rqs st' d) = idle (rqs st d)" and "tasks st' = tasks st"
    and "queue (grq st') = queue (grq st)" and "cpu_online_map st' = cpu_online_map st"
  shows "parked_ok st' = parked_ok st" and "currents st' C = currents st C"
  by (simp_all add: parked_ok_def currents_def idle_tasks_def assms)

lemma parked_ok_param [simp]: "parked_ok (st\<lparr>param := x\<rparr>) = parked_ok st"
  by (simp add: parked_ok_def currents_def idle_tasks_def)

lemma parked_ok_set_state:
  "parked_ok st \<Longrightarrow> p \<notin> parked st \<or> x = TASK_RUNNING \<Longrightarrow> parked_ok (upd_task p (\<lambda>t. t\<lparr>state := x\<rparr>) st)"
  by (erule parked_ok_step) (auto simp: idle_tasks_def)

lemma parked_ok_activate:
  assumes "parked_ok st" and "p \<notin> parked st"
  shows "parked_ok (activate_task p c st)"
proof (rule parked_ok_step [OF assms(1)])
  fix q assume "q \<in> parked st" "state (tasks st q) = TASK_RUNNING" "\<not> on_cpu (tasks st q)" "\<And>i. q \<notin> set (queue (grq st) i)"
  then show "state (tasks (activate_task p c st) q) = TASK_RUNNING \<and> \<not> on_cpu (tasks (activate_task p c st) q) \<and>
      (\<forall>i. q \<notin> set (queue (grq (activate_task p c st)) i))"
    using assms(2) by (auto simp: activate_task_tasks activate_task_queue Let_def)
qed (simp_all add: idle_tasks_def)

lemma parked_ok_wakeup:
  assumes "parked_ok st"
  shows "parked_ok (fst (try_to_wake_up this p s wfl st))"
proof -
  have "p \<notin> parked st" if "u32 (state (tasks st p)) AND s \<noteq> 0"
    using that assms by (auto simp: parked_ok_def u32_def)
  then have "parked_ok (upd_task p (\<lambda>t. t\<lparr>state := TASK_RUNNING\<rparr>) (activate_task p (task_cpu (tasks st p)) st))"
    if "u32 (state (tasks st p)) AND s \<noteq> 0"
    using that assms by (intro parked_ok_set_state parked_ok_activate) auto
  moreover have "parked_ok (upd_task p (\<lambda>t. t\<lparr>state := TASK_RUNNING\<rparr>) st)"
    by (rule parked_ok_set_state [OF assms]) simp
  ultimately show ?thesis
    using try_to_wake_up_core [of this p s wfl st] parked_ok_core [of "fst (try_to_wake_up this p s wfl st)"] assms
    by (metis (no_types, lifting))
qed

lemma core_wakeup_local:
  "core (try_to_wake_up_local this p st) =
     (if state (tasks st p) AND TASK_NORMAL = 0 then core st
      else if \<not> task_queued p st
      then core (upd_task p (\<lambda>t. t\<lparr>state := TASK_RUNNING\<rparr>) (activate_task p (task_cpu (tasks st p))
        (if \<not> task_running p st
         then upd_rq (task_cpu (tasks st p)) (\<lambda>r. r\<lparr>ttwu_count := u32 (ttwu_count r + 1), ttwu_local := u32 (ttwu_local r + 1)\<rparr>) st
         else st)))
      else core (upd_task p (\<lambda>t. t\<lparr>state := TASK_RUNNING\<rparr>) st))"
  by (simp add: try_to_wake_up_local_def Let_def core_post_activation core_set_state [OF core_ttwu_activate]
      core_set_state [of "ttwu_stat a b s" s for a b s])

lemma parked_ok_wakeup_local:
  assumes "parked_ok st"
  shows "parked_ok (try_to_wake_up_local this p st)"
proof -
  let ?s = "if \<not> task_running p st
         then upd_rq (task_cpu (tasks st p)) (\<lambda>r. r\<lparr>ttwu_count := u32 (ttwu_count r + 1), ttwu_local := u32 (ttwu_local r + 1)\<rparr>) st
         else st"
  have c: "core ?s = core st" by (simp add: core_upd_rq)
  have "p \<notin> parked st" if "state (tasks st p) AND TASK_NORMAL \<noteq> 0"
    using that assms by (auto simp: parked_ok_def)
  then have "parked_ok (upd_task p (\<lambda>t. t\<lparr>state := TASK_RUNNING\<rparr>) (activate_task p (task_cpu (tasks st p)) ?s))"
    if "state (tasks st p) AND TASK_NORMAL \<noteq> 0"
    using that assms parked_ok_core [OF c] currents_core [OF c] coreD(18) [OF c]
    by (intro parked_ok_set_state parked_ok_activate) simp_all
  moreover have "parked_ok (upd_task p (\<lambda>t. t\<lparr>state := TASK_RUNNING\<rparr>) st)"
    by (rule parked_ok_set_state [OF assms]) simp
  ultimately show ?thesis
    using core_wakeup_local [of this p st] parked_ok_core [of "try_to_wake_up_local this p st"] assms
    by (metis (no_types, lifting))
qed

section \<open>Flags during a pass\<close>

lemma flags_in_same [simp]:
  "flags_in X (update_clocks c st) = flags_in X st" "flags_in X (update_cpu_clock c p b st) = flags_in X st"
  "flags_in X (time_slice_expired p st) = flags_in X st" "flags_in X (check_deadline p st) = flags_in X st"
  "flags_in X (return_task p d st) = flags_in X st" "flags_in X (take_task c p st) = flags_in X st"
  "flags_in X (set_cpuidle_map c st) = flags_in X st" "flags_in X (clear_cpuidle_map c st) = flags_in X st"
  "flags_in X (set_rq_task c p st) = flags_in X st" "flags_in X (sched_info_queued p st) = flags_in X st"
  by (rule flags_in_cong; simp add: time_slice_expired_def check_deadline_def return_task_task take_task_tasks set_rq_task_def Let_def
      sched_info_queued_eq)+

lemma flags_in_switch_parts [simp]:
  "flags_in X (sched_info_switch prev nxt st) = flags_in X st" "flags_in X (mm_get m st) = flags_in X st"
  "flags_in X (finish_task_switch c prev st) = flags_in X st"
proof -
  have "flags_in X (mmdrop a s) = flags_in X s" for a s by (rule flags_in_cong) (simp add: mmdrop_def)
  moreover have m: "flags_in X (mm_get m s) = flags_in X s" for s
    by (rule flags_in_cong) (simp add: mm_get_def split: option.split)
  moreover have "flags_in X (sched_info_arrive p s) = flags_in X s" "flags_in X (sched_info_depart p s) = flags_in X s" for p s
    by (simp_all add: sched_info_arrive_def sched_info_depart_def rq_sched_info_arrive_def rq_sched_info_depart_def
        sched_info_reset_dequeued_def Let_def flags_in_upd_task)
  ultimately show "flags_in X (sched_info_switch prev nxt st) = flags_in X st" "flags_in X (mm_get m st) = flags_in X st"
    "flags_in X (finish_task_switch c prev st) = flags_in X st"
    by (simp_all add: sched_info_switch_def finish_task_switch_def put_task_struct_def Let_def flags_in_upd_task
        split: option.split)
qed

lemma flags_in_schedule_switch [simp]: "flags_in X (schedule_switch c prev nxt v st) = flags_in X st"
  by (simp add: schedule_switch_def context_switch_def prepare_task_switch_def Let_def flags_in_upd_task)

lemma flags_in_pick [simp]: "flags_in X (fst (schedule_pick c v st)) = flags_in X st"
proof -
  have "flags_in X (fst (earliest_deadline_task c st)) = flags_in X st"
    by (simp add: earliest_deadline_task_def Let_def case_prod_beta split: option.split bool.split)
  then show ?thesis by (simp add: schedule_pick_def schedule_goidle_def case_prod_beta)
qed

lemma flags_account:
  assumes "flags_in (currents st UNIV) st"
  shows "flags_in (currents st (- {c})) (schedule_account c (curr (rqs st c)) st)"
  using assms by (auto simp: schedule_account_def Let_def flags_in_def currents_def)

lemma idle_map_limit: "sys_ok st \<Longrightarrow> cpu_idle_map (grq st) \<subseteq> {..<NR_CPUS}"
  using sys_okD(4,5) [of st] by (auto simp: place_ok_def idle_ok_def idle_map_ok_def)

lemma flags_put_prev:
  assumes "sys_ok st" and "c \<in> cpu_online_map st" and "curr (rqs st c) \<noteq> idle (rqs st c)"
    and "flags_in (currents st (- {c})) st"
  shows "flags_in (currents st (- {c})) (fst (schedule_put_prev c (curr (rqs st c)) d st))"
proof -
  let ?X = "currents st (- {c})" and ?p = "curr (rqs st c)"
  define s where "s = upd_task ?p (\<lambda>t. t\<lparr>last_ran := rq_clock (rqs st c)\<rparr>) (check_deadline ?p
    (upd_task ?p (\<lambda>t. t\<lparr>time_slice := rq_time_slice (rqs st c), deadline := rq_deadline (rqs st c)\<rparr>) st))"
  have r: "rqs (check_deadline ?p s0) = rqs s0" for s0 by (simp add: check_deadline_def time_slice_expired_def)
  have s: "core s = core st" by (simp add: s_def core_upd_task task_core_def)
  have ok: "sys_ok s" using sys_ok_core [OF s] assms(1) by simp
  have c: "c \<notin> cpu_idle_map (grq s)"
    using sys_okD(6) [OF ok] assms(3) coreD(10,11) [OF s] by (auto simp: idle_map_running_def)
  have f: "flags_in ?X s" using assms(4) by (simp add: s_def flags_in_upd_task)
  have X: "currents s C = currents st C" for C by (rule currents_core [OF s])
  have "currents s (cpu_idle_map (grq s)) \<subseteq> ?X" unfolding X using c by (auto simp: currents_def)
  then have "flags_in ?X (resched_suitable_idle c ?p s)"
    using f sys_okD(5) [OF ok] idle_map_limit [OF ok] by (intro flags_in_suitable_idle) (simp_all add: idle_ok_def)
  moreover have "flags_in ?X (swap_sticky c c ?p s)"
    using f idle_map_limit [OF ok] by (intro flags_in_swap_sticky) (simp_all add: X)
  moreover have "schedule_put_prev c ?p d st = (if needs_other_cpu (tasks s ?p) c
         then (return_task ?p d (resched_suitable_idle c ?p s), False)
         else if \<not> d then
           (if queued_notrunning s = 0 then (s, True)
            else (return_task ?p d (swap_sticky c c ?p s), False))
         else (return_task ?p d s, False))"
    unfolding schedule_put_prev_def Let_def s_def by (simp add: r)
  ultimately show ?thesis using f by simp
qed

text \<open>The task a pass switches to is not flagged.\<close>

lemma picked_unflagged:
  assumes "picked_ok c prev nxt st" and "flags_in (currents st (- {c})) st"
    and "\<And>p. p \<in> parked st \<Longrightarrow> p \<noteq> nxt"
  shows "\<not> tif_need_resched (tasks st nxt)"
proof
  assume "tif_need_resched (tasks st nxt)"
  then obtain d where d: "d \<noteq> c" "curr (rqs st d) = nxt" using assms(2) by (auto simp: flags_in_def currents_def)
  note k = picked_okD [OF assms(1)]
  show False
  proof (cases "d \<in> cpu_online_map st")
    case True
    then have "on_cpu (tasks st nxt)" "task_cpu (tasks st nxt) = d" using k(3) d(2) by (auto simp: place_ok_def)
    then show False using k(11) d(1) by simp
  next
    case False
    then show False using assms(3) d(2) by (auto simp: currents_def)
  qed
qed

section \<open>Parked tasks during a pass\<close>

lemma running_not_parked:
  assumes "parked_ok st" and "on_cpu (tasks st p)"
  shows "p \<notin> parked st"
  using assms by (auto simp: parked_ok_def)

lemma parked_ok_return:
  assumes "parked_ok st" and "p \<notin> parked st"
  shows "parked_ok (return_task p d st)"
proof (rule parked_ok_step [OF assms(1)])
  fix q assume q: "q \<in> parked st" "state (tasks st q) = TASK_RUNNING" "\<not> on_cpu (tasks st q)" "\<And>i. q \<notin> set (queue (grq st) i)"
  then have "q \<noteq> p" using assms(2) by auto
  then show "state (tasks (return_task p d st) q) = TASK_RUNNING \<and> \<not> on_cpu (tasks (return_task p d st) q) \<and>
      (\<forall>i. q \<notin> set (queue (grq (return_task p d st)) i))"
    using q(2-4) return_task_queue [of p d st] by (auto simp: return_task_task)
qed (simp_all add: idle_tasks_def currents_def)

lemma currents_put_prev:
  assumes "schedule_put_prev c p d st = (st', r)"
  shows "currents st' C = currents st C" and "cpu_online_map st' = cpu_online_map st"
    and "parked_ok st \<Longrightarrow> p \<notin> parked st \<Longrightarrow> parked_ok st'"
proof -
  define s where "s = upd_task p (\<lambda>t. t\<lparr>last_ran := rq_clock (rqs st c)\<rparr>) (check_deadline p
    (upd_task p (\<lambda>t. t\<lparr>time_slice := rq_time_slice (rqs st c), deadline := rq_deadline (rqs st c)\<rparr>) st))"
  have k: "rqs (check_deadline p s0) = rqs s0" for s0 by (simp add: check_deadline_def time_slice_expired_def)
  have s: "core s = core st" by (simp add: s_def core_upd_task task_core_def)
  have "(st', r) = (if needs_other_cpu (tasks s p) c
         then (return_task p d (resched_suitable_idle c p s), False)
         else if \<not> d then
           (if queued_notrunning s = 0 then (s, True)
            else (return_task p d (swap_sticky c c p s), False))
         else (return_task p d s, False))"
    unfolding assms [symmetric] schedule_put_prev_def Let_def s_def by (simp add: k)
  then have "\<exists>s' \<in> {s, resched_suitable_idle c p s, swap_sticky c c p s}. st' = return_task p d s' \<or> st' = s'"
    by (auto split: if_splits)
  then obtain s' where "s' \<in> {s, resched_suitable_idle c p s, swap_sticky c c p s}" and
    s': "st' = return_task p d s' \<or> st' = s'" by blast
  then have e: "core s' = core st" using s by auto
  have r: "currents (return_task p d s') C = currents s' C" by (simp add: currents_def)
  show "currents st' C = currents st C" "cpu_online_map st' = cpu_online_map st"
    using s' r currents_core [OF e] coreD(18) [OF e] by auto
  show "parked_ok st'" if "parked_ok st" "p \<notin> parked st"
    using s' that parked_ok_core [OF e] currents_core [OF e] coreD(18) [OF e] parked_ok_return [of s' p d] by auto
qed

lemma parked_ok_pick:
  assumes "mid_ok c prev st" and "parked_ok st" and "schedule_pick c v st = (st', nxt)"
  shows "parked_ok st'" and "nxt \<notin> parked st" and "currents st' C = currents st C"
    and "cpu_online_map st' = cpu_online_map st"
proof -
  note m = mid_okD [OF assms(1)]
  have nq: "idle (rqs st c) \<notin> set (queue (grq st) i)" for i
    by (rule mid_idle_unqueued [OF assms(1) idle_in_idle_tasks [OF m(8)]])
  have idle: "idle (rqs st c) \<notin> parked st" using assms(2) idle_in_idle_tasks [OF m(8)] by (auto simp: parked_ok_def)
  have g: "parked_ok (schedule_goidle c s) = parked_ok s" "currents (schedule_goidle c s) C = currents s C"
    "cpu_online_map (schedule_goidle c s) = cpu_online_map s" for s
    by ((rule parked_ok_cong; simp add: schedule_goidle_def)+, simp add: schedule_goidle_def)
  have h: "parked_ok (clear_cpuidle_map c s) = parked_ok s" "parked_ok (set_cpuidle_map c s) = parked_ok s"
    "currents (clear_cpuidle_map c s) C = currents s C" "currents (set_cpuidle_map c s) C = currents s C" for s
    by (rule parked_ok_cong; simp)+
  have t: "parked_ok (take_task c p s)" "currents (take_task c p s) C = currents s C" if "parked_ok s" "p \<notin> parked s" for p s
  proof -
    have "state (tasks (take_task c p s) q) = state (tasks s q)" "on_cpu (tasks (take_task c p s) q) = on_cpu (tasks s q)" for q
      by (simp_all add: take_task_tasks)
    then show "parked_ok (take_task c p s)"
      by (intro parked_ok_step [OF that(1)]) (simp_all add: idle_tasks_def currents_def notin_set_remove1)
    show "currents (take_task c p s) C = currents s C" by (simp add: currents_def)
  qed
  have "parked_ok st' \<and> nxt \<notin> parked st \<and> currents st' C = currents st C \<and> cpu_online_map st' = cpu_online_map st"
  proof (cases "queued_notrunning st = 0 \<or> idle_cycles_offset (param st) = v")
    case True
    then have "st' = schedule_goidle c (st\<lparr>param := (param st)\<lparr>idle_cycles_offset := 0\<rparr>\<rparr>)" "nxt = idle (rqs st c)"
      using assms(3) by (simp_all add: schedule_pick_def)
    then show ?thesis using g idle assms(2) by (simp add: currents_def)
  next
    case False
    show ?thesis
    proof (rule edt_outcome [OF m(1) nq])
      fix par assume "earliest_deadline_task c st = (st\<lparr>param := par\<rparr>, idle (rqs st c))"
      then have "st' = schedule_goidle c (st\<lparr>param := par\<rparr>)" "nxt = idle (rqs st c)"
        using assms(3) False by (simp_all add: schedule_pick_def)
      then show ?thesis using g idle assms(2) by (simp add: currents_def)
    next
      fix p i par
      assume e: "earliest_deadline_task c st = (take_task c p (st\<lparr>param := par\<rparr>), p)" and p: "p \<in> set (queue (grq st) i)"
      have np: "p \<notin> parked st" using p assms(2) by (auto simp: parked_ok_def)
      have "p \<noteq> idle (rqs st c)" using p nq by auto
      then have "st' \<in> {clear_cpuidle_map c (take_task c p (st\<lparr>param := par\<rparr>)), set_cpuidle_map c (take_task c p (st\<lparr>param := par\<rparr>))}"
        "nxt = p" using assms(3) False e by (auto simp: schedule_pick_def)
      then show ?thesis using h t [of "st\<lparr>param := par\<rparr>" p] np assms(2) by (auto simp: currents_def)
    qed
  qed
  then show "parked_ok st'" "nxt \<notin> parked st" "currents st' C = currents st C" "cpu_online_map st' = cpu_online_map st"
    by blast+
qed

lemma parked_ok_switch:
  assumes "parked_ok st" and "c \<in> cpu_online_map st" and "nxt \<notin> parked st"
  shows "parked_ok (schedule_switch c prev nxt v st)"
proof (cases "prev = nxt")
  case False
  have "parked_ok (swap_running c prev nxt st)"
    by (rule parked_ok_step [OF assms(1)])
      (use assms(2,3) in \<open>auto simp: swap_running_def currents_def idle_tasks_def\<close>)
  then show ?thesis
    using parked_ok_core [of "schedule_switch c prev nxt v st" "swap_running c prev nxt st"] False
    by (simp add: core_schedule_switch)
qed (use assms(1) in \<open>simp add: schedule_switch_def\<close>)

section \<open>A pass and the loop\<close>

definition run_ok :: "kstate \<Rightarrow> bool" where
  "run_ok st \<longleftrightarrow> sys_ok st \<and> flags_ok st \<and> parked_ok st"

lemma run_okD: "run_ok st \<Longrightarrow> sys_ok st" "run_ok st \<Longrightarrow> flags_ok st" "run_ok st \<Longrightarrow> parked_ok st"
  by (simp_all add: run_ok_def)

lemma run_ok_core:
  assumes "core st' = core st" and "\<And>p. tif_need_resched (tasks st' p) = tif_need_resched (tasks st p)"
  shows "run_ok st' = run_ok st"
  using sys_ok_core [OF assms(1)] parked_ok_core [OF assms(1)] currents_core [OF assms(1)] assms(2)
  by (simp add: run_ok_def flags_ok_def flags_in_def)

lemma curr_placed:
  assumes "sys_ok st" and "c \<in> cpu_online_map st"
  shows "on_cpu (tasks st (curr (rqs st c)))" and "task_cpu (tasks st (curr (rqs st c))) = c"
  using sys_okD(4) [OF assms(1)] assms(2) by (simp_all add: place_ok_def)

lemma curr_not_elsewhere:
  assumes "run_ok st" and "c \<in> cpu_online_map st"
  shows "curr (rqs st c) \<notin> currents st (- {c})"
proof
  assume "curr (rqs st c) \<in> currents st (- {c})"
  then obtain d where d: "curr (rqs st c) = curr (rqs st d)" "d \<in> - {c}" unfolding currents_def by (rule imageE)
  show False
  proof (cases "d \<in> cpu_online_map st")
    case True
    then show False
      using curr_placed(2) [OF run_okD(1) [OF assms(1)] assms(2)] curr_placed(2) [OF run_okD(1) [OF assms(1)] True] d(2)
      unfolding d(1) by simp
  next
    case False
    then have "curr (rqs st c) \<in> parked st" unfolding currents_def d(1) by simp
    then show False
      using running_not_parked [OF run_okD(3) [OF assms(1)] curr_placed(1) [OF run_okD(1) [OF assms(1)] assms(2)]] by simp
  qed
qed

lemma schedule_block_run:
  assumes "run_ok st" and "wq_ok st"
  shows "run_ok (fst (schedule_block c prev pa st))"
proof -
  have f: "flags_in (currents st UNIV) st" using run_okD(2) [OF assms(1)] by (simp add: flags_ok_def)
  have e: "currents (fst (schedule_block c prev pa st)) UNIV = currents st UNIV"
    by (simp add: currents_def schedule_block_curr(1))
  have "flags_in (currents st UNIV) (fst (schedule_block c prev pa st))"
    using f flags_in_wakeup_local [OF f] by (auto simp: schedule_block_def flags_in_upd_task split: option.split)
  moreover have "parked_ok (fst (schedule_block c prev pa st))"
    using run_okD(3) [OF assms(1)] parked_ok_wakeup_local parked_ok_set_state [of st prev TASK_RUNNING]
    by (auto simp: schedule_block_def split: option.split)
  ultimately show ?thesis
    using schedule_block_ok [OF run_okD(1) [OF assms(1)] assms(2)] by (simp add: run_ok_def flags_ok_def e)
qed

lemma schedule_account_flags:
  assumes "run_ok st"
  shows "flags_in (currents st (- {c})) (schedule_account c (curr (rqs st c)) st)" and "run_ok (schedule_account c (curr (rqs st c)) st)"
proof -
  let ?a = "schedule_account c (curr (rqs st c)) st"
  have e: "currents ?a C = currents st C" for C by (rule currents_core) simp
  show f: "flags_in (currents st (- {c})) ?a" using flags_account run_okD(2) [OF assms] by (simp add: flags_ok_def)
  then have "flags_ok ?a" unfolding flags_ok_def e by (rule flags_in_mono) (auto simp: currents_def)
  then show "run_ok ?a"
    using run_okD [OF assms] sys_ok_core [of ?a st] parked_ok_core [of ?a st] by (simp add: run_ok_def)
qed

text \<open>From the previous task put back to the end of the pass.\<close>

lemma run_ok_choose:
  assumes "mid_ok c p m" and "parked_ok m" and "flags_in (currents m (- {c})) m"
    and "schedule_inject m = Returns (s2, i)" and "schedule_pick c i s2 = (s3, nxt)"
    and "st' = schedule_switch c p nxt v s3"
  shows "run_ok st'" and "curr (rqs st' c) = nxt" and "\<not> tif_need_resched (tasks st' nxt)"
proof -
  obtain par where "s2 = m\<lparr>param := par\<rparr>" by (rule schedule_inject_param [OF assms(4)])
  then have m2: "mid_ok c p s2" "parked_ok s2" "flags_in (currents s2 (- {c})) s2"
    using assms(1-3) by (simp_all add: currents_def)
  note k = parked_ok_pick [OF m2(1,2) assms(5)]
  have pk: "picked_ok c p nxt s3" using schedule_pick_ok [OF m2(1), of i] assms(5) by simp
  have f3: "flags_in (currents s3 (- {c})) s3" using flags_in_pick [of "currents s2 (- {c})" c i s2] m2(3) assms(5) k(3) by simp
  have np3: "nxt \<notin> parked s3" using k(2,3,4) by simp
  have nf: "\<not> tif_need_resched (tasks s3 nxt)" by (rule picked_unflagged [OF pk f3]) (use np3 in auto)
  have c': "curr (rqs st' d) = (if d = c then nxt else curr (rqs s3 d))" for d
    using core_schedule_switch [of c p nxt v s3] coreD(10) [of st' s3 d] coreD(10) [of st' "swap_running c p nxt s3" d]
      picked_okD(9) [OF pk] unfolding assms(6) by (auto simp: swap_running_def split: if_splits)
  then show "curr (rqs st' c) = nxt" by simp
  have f': "flags_in (currents s3 (- {c})) st'" using f3 unfolding assms(6) by simp
  have "currents s3 (- {c}) \<subseteq> currents st' UNIV" by (auto simp: currents_def c')
  then have "flags_ok st'" unfolding flags_ok_def by (rule flags_in_mono [OF f'])
  moreover have "sys_ok st'" unfolding assms(6) by (rule schedule_switch_ok [OF pk])
  moreover have "parked_ok st'" unfolding assms(6)
    by (rule parked_ok_switch [OF k(1) picked_okD(8) [OF pk] np3])
  ultimately show "run_ok st'" by (simp add: run_ok_def)
  have "flags_in (- {nxt}) s3" using nf by (auto simp: flags_in_def)
  then have "flags_in (- {nxt}) st'" unfolding assms(6) by simp
  then show "\<not> tif_need_resched (tasks st' nxt)" by (auto simp: flags_in_def)
qed

text \<open>The state the next task is chosen in.\<close>

lemma run_ok_put:
  assumes "run_ok a" and "flags_in (currents a (- {c})) a" and "c \<in> cpu_online_map a"
    and "if curr (rqs a c) \<noteq> idle (rqs a c) then schedule_put_prev c (curr (rqs a c)) d a = (m, False) else m = a"
  shows "mid_ok c (curr (rqs a c)) m" and "parked_ok m" and "flags_in (currents m (- {c})) m"
proof -
  let ?p = "curr (rqs a c)"
  note ok = run_okD [OF assms(1)]
  have np: "?p \<notin> parked a" by (rule running_not_parked [OF ok(3) curr_placed(1) [OF ok(1) assms(3)]])
  have "mid_ok c ?p m \<and> parked_ok m \<and> flags_in (currents m (- {c})) m"
  proof (cases "?p \<noteq> idle (rqs a c)")
    case True
    then have pp: "schedule_put_prev c ?p d a = (m, False)" using assms(4) by simp
    show ?thesis
      using schedule_put_prev_ok [OF ok(1) assms(3) True pp] flags_put_prev [OF ok(1) assms(3) True assms(2), of d]
        currents_put_prev [OF pp] ok(3) np pp by simp
  next
    case False
    then show ?thesis using mid_ok_idle [OF ok(1) assms(3)] ok(3) assms(2,4) by simp
  qed
  then show "mid_ok c ?p m" "parked_ok m" "flags_in (currents m (- {c})) m" by blast+
qed

text \<open>The state after the accounting of a pass.\<close>

lemma pass_accounted:
  assumes "run_ok st" and "wq_ok st" and "c \<in> cpu_online_map st"
    and "schedule_block c (curr (rqs st c)) pa (schedule_debug c st) = (s, d, v)"
  defines "a \<equiv> schedule_account c (curr (rqs st c)) s"
  shows "run_ok a" and "flags_in (currents a (- {c})) a" and "curr (rqs a c) = curr (rqs st c)"
    and "c \<in> cpu_online_map a" and "idle (rqs a e) = idle (rqs st e)" and "run_ok s"
proof -
  let ?p = "curr (rqs st c)" and ?d = "schedule_debug c st"
  have d: "core ?d = core st" by simp
  have dr: "run_ok ?d" using run_ok_core [OF d] assms(1) by (simp add: schedule_debug_def)
  have dw: "wq_ok ?d" using assms(2) coreD(2) [OF d] by (simp add: wq_ok_def)
  have b: "run_ok s" "curr (rqs s c) = ?p" "idle (rqs s e) = idle (rqs st e)" "cpu_online_map s = cpu_online_map st" for e
    using schedule_block_run [OF dr dw, of c ?p pa] schedule_block_curr(1-3) [where st = ?d and c = c and prev = ?p and pa = pa]
      assms(4) coreD(10,11,18) [OF d] by (metis fst_conv)+
  have acc: "core a = core s" by (simp add: a_def)
  show "run_ok a" "flags_in (currents a (- {c})) a"
    using schedule_account_flags [OF b(1), of c] b(2) currents_core [OF acc] by (simp_all add: a_def)
  show "curr (rqs a c) = ?p" "c \<in> cpu_online_map a" "idle (rqs a e) = idle (rqs st e)" "run_ok s"
    using b coreD(10,11,18) [OF acc] assms(3) by simp_all
qed

text \<open>A pass keeps the invariant.  It asks to be repeated only after it has flushed the block requests of a
  blocking task; otherwise it ends with a current task that is not flagged.\<close>

lemma run_ok_pass:
  assumes "run_ok st" and "wq_ok st" and "c \<in> cpu_online_map st" and "schedule_pass c pa st = Returns (st', again)"
  shows "run_ok st' \<and> (if again then \<exists>s d v. schedule_block c (curr (rqs st c)) pa (schedule_debug c st) = (s, d, v) \<and>
      plugged (tasks s (curr (rqs st c))) \<and> st' = upd_task (curr (rqs st c)) (\<lambda>t. t\<lparr>plugged := False\<rparr>) s
    else \<not> tif_need_resched (tasks st' (curr (rqs st' c))))"
proof -
  let ?p = "curr (rqs st c)"
  note acc = pass_accounted [OF assms(1-3)]
  from assms(4) show ?thesis
  proof (cases rule: schedule_pass_cases)
    case (flush s dd v)
    have "run_ok st'" unfolding flush(2)
      using acc(6) [OF flush(1)] run_ok_core [of "upd_task ?p (\<lambda>t. t\<lparr>plugged := False\<rparr>) s" s]
      by (simp add: core_upd_task task_core_def)
    then show ?thesis using flush by auto
  next
    case (rerun s dd v)
    let ?a = "schedule_account c ?p s"
    note a = acc(1-5) [OF rerun(1)]
    have ne: "curr (rqs ?a c) \<noteq> idle (rqs ?a c)" using a(3) rerun(3) by simp
    have e: "core st' = core ?a"
      using schedule_put_prev_ok [OF run_okD(1) [OF a(1)] a(4) ne, of dd st' True] rerun(2) a(3) by simp
    have f: "flags_in (currents ?a (- {c})) st'"
      using flags_put_prev [OF run_okD(1) [OF a(1)] a(4) ne a(2), of dd] rerun(2) a(3) by simp
    have "flags_ok st'" unfolding flags_ok_def currents_core [OF e] using f by (rule flags_in_mono) (auto simp: currents_def)
    then have "run_ok st'" using sys_ok_core [OF e] parked_ok_core [OF e] run_okD [OF a(1)] by (simp add: run_ok_def)
    moreover have "\<not> tif_need_resched (tasks st' ?p)"
      using flags_inD [OF f] curr_not_elsewhere [OF a(1,4)] a(3) by simp
    ultimately show ?thesis using rerun(4) coreD(10) [OF e, of c] a(3) by simp
  next
    case (switch s dd v m i s2 nxt s3)
    note a = acc(1-5) [OF switch(1)]
    have m: "mid_ok c ?p m" "parked_ok m" "flags_in (currents m (- {c})) m"
      using run_ok_put [OF a(1,2,4), of dd m] a(3) switch(2) by simp_all
    show ?thesis using run_ok_choose [OF m switch(3,4,5)] switch(6) by simp
  qed
qed

section \<open>The loop ends\<close>

text \<open>The answers of the environment do not change during a pass.\<close>

lemma resched_env:
  assumes "resched_frame st st'"
  shows "setup_env st' = setup_env st" and "wq_worker_sleeping st' = wq_worker_sleeping st"
    and "plugged (tasks st' p) = plugged (tasks st p)"
  using assms by (auto simp: resched_frame_def)

lemma clocks_env [frame, simp]:
  "setup_env (update_clocks c st) = setup_env st" "wq_worker_sleeping (update_clocks c st) = wq_worker_sleeping st"
  by (simp_all add: update_clocks_def update_rq_clock_def update_rq_clock_task_def Let_def)

lemma rq_pc_add_env [frame, simp]:
  "setup_env (rq_pc_add get put add c pc st) = setup_env st"
  "wq_worker_sleeping (rq_pc_add get put add c pc st) = wq_worker_sleeping st"
  by (simp_all add: rq_pc_add_def Let_def split: prod.split)

lemma update_cpu_clock_env [frame, simp]:
  "setup_env (update_cpu_clock c p b st) = setup_env st" "wq_worker_sleeping (update_cpu_clock c p b st) = wq_worker_sleeping st"
proof -
  have "setup_env (pc_idle_time c pc s) = setup_env s" "setup_env (pc_user_time c q pc ns s) = setup_env s"
    "setup_env (pc_system_time c q hoff pc ns s) = setup_env s"
    "wq_worker_sleeping (pc_idle_time c pc s) = wq_worker_sleeping s"
    "wq_worker_sleeping (pc_user_time c q pc ns s) = wq_worker_sleeping s"
    "wq_worker_sleeping (pc_system_time c q hoff pc ns s) = wq_worker_sleeping s" for q pc ns hoff s
    by (simp_all add: pc_idle_time_def pc_user_time_def pc_system_time_def Let_def split: prod.split)
  then show "setup_env (update_cpu_clock c p b st) = setup_env st"
    "wq_worker_sleeping (update_cpu_clock c p b st) = wq_worker_sleeping st"
    by (simp_all add: update_cpu_clock_def charge_time_def Let_def)
qed

lemma queue_env [frame, simp]:
  "setup_env (activate_task p c st) = setup_env st" "wq_worker_sleeping (activate_task p c st) = wq_worker_sleeping st"
  "setup_env (return_task p d st) = setup_env st" "wq_worker_sleeping (return_task p d st) = wq_worker_sleeping st"
  by (simp_all add: activate_task_def return_task_def deactivate_task_def clear_sticky_def enqueue_task_def
      sched_info_queued_def inc_qnr_def Let_def)

lemma wakeup_local_env [frame, simp]:
  "setup_env (try_to_wake_up_local this p st) = setup_env st"
  "wq_worker_sleeping (try_to_wake_up_local this p st) = wq_worker_sleeping st"
proof -
  note e = resched_env(1,2) [OF try_preempt_frame]
  have "setup_env (ttwu_activate this p c b s) = setup_env s" "wq_worker_sleeping (ttwu_activate this p c b s) = wq_worker_sleeping s"
    for c b s by (simp_all add: ttwu_activate_def Let_def e)
  then show "setup_env (try_to_wake_up_local this p st) = setup_env st"
    "wq_worker_sleeping (try_to_wake_up_local this p st) = wq_worker_sleeping st"
    by (simp_all add: try_to_wake_up_local_def ttwu_stat_def ttwu_post_activation_def Let_def)
qed

lemma wakeup_local_other:
  assumes "q \<noteq> p"
  shows "plugged (tasks (try_to_wake_up_local this p st) q) = plugged (tasks st q)"
proof -
  have "plugged (tasks (ttwu_activate this p c b s) q) = plugged (tasks s q)" for c b s
    using assms resched_env(3) [OF try_preempt_frame] by (simp add: ttwu_activate_def Let_def activate_task_tasks)
  then show ?thesis using assms by (simp add: try_to_wake_up_local_def Let_def ttwu_post_activation_tasks)
qed

lemma wakeup_local_param [frame, simp]: "param (try_to_wake_up_local this p st) = param st"
  using coreD(19) [OF core_ttwu_activate] by (simp add: try_to_wake_up_local_def Let_def)

lemma wakeup_local_on_cpu [simp]: "on_cpu (tasks (try_to_wake_up_local this p st) q) = on_cpu (tasks st q)"
  using coreD(2) [OF core_ttwu_activate]
  by (simp add: try_to_wake_up_local_def Let_def ttwu_post_activation_tasks activate_task_tasks)

lemma schedule_block_on_cpu: "on_cpu (tasks (fst (schedule_block c prev pa st)) q) = on_cpu (tasks st q)"
  by (simp add: schedule_block_def split: option.split)

lemma schedule_block_env:
  "param (fst (schedule_block c prev pa st)) = param st" "setup_env (fst (schedule_block c prev pa st)) = setup_env st"
  "wq_worker_sleeping (fst (schedule_block c prev pa st)) = wq_worker_sleeping st"
  "plugged (tasks (fst (schedule_block c prev pa st)) prev) = plugged (tasks st prev)"
  by (simp_all add: schedule_block_def wakeup_local_other split: option.split)

lemma schedule_put_prev_env:
  "param (fst (schedule_put_prev c prev d st)) = param st"
  "setup_env (fst (schedule_put_prev c prev d st)) = setup_env st"
  by (simp_all add: schedule_put_prev_def Let_def check_deadline_def time_slice_expired_def
      resched_frameD(2) [OF resched_suitable_idle_frame] resched_frameD(2) [OF swap_sticky_frame]
      resched_env(1) [OF resched_suitable_idle_frame] resched_env(1) [OF swap_sticky_frame])

lemma schedule_account_env:
  "param (schedule_account c prev st) = param st" "setup_env (schedule_account c prev st) = setup_env st"
  using coreD(19) [OF core_schedule_account] by (simp_all add: schedule_account_def Let_def)

text \<open>The only way a pass can fail is the allocation in the set-up of the injection.\<close>

definition setup_ok :: "kstate \<Rightarrow> bool" where
  "setup_ok st \<longleftrightarrow> (is_init (param st) = 1 \<longrightarrow> fst (setup_env st) \<noteq> None)"

lemma schedule_inject_returns: "setup_ok st \<Longrightarrow> \<exists>r. schedule_inject st = Returns r"
  by (cases "setup_env st") (auto simp: schedule_inject_def setup_ok_def set_everything_idlepar_def Let_def)

lemma schedule_pass_returns:
  assumes "setup_ok st"
  shows "\<exists>r. schedule_pass c pa st = Returns r"
proof -
  let ?p = "curr (rqs st c)"
  obtain s d v where b: "schedule_block c ?p pa (schedule_debug c st) = (s, d, v)"
    by (cases "schedule_block c ?p pa (schedule_debug c st)")
  let ?a = "schedule_account c ?p s"
  obtain m r where m: "(if ?p \<noteq> idle (rqs ?a c) then schedule_put_prev c ?p d ?a else (?a, False)) = (m, r)"
    by (cases "if ?p \<noteq> idle (rqs ?a c) then schedule_put_prev c ?p d ?a else (?a, False)")
  have "param s = param st" "setup_env s = setup_env st"
    using schedule_block_env(1,2) [of c ?p pa "schedule_debug c st"] b by (simp_all add: schedule_debug_def)
  moreover have "m = fst (if ?p \<noteq> idle (rqs ?a c) then schedule_put_prev c ?p d ?a else (?a, False))" unfolding m by simp
  ultimately have "param m = param st" "setup_env m = setup_env st"
    by (simp_all add: schedule_put_prev_env schedule_account_env)
  then have "setup_ok m" using assms by (simp add: setup_ok_def)
  then obtain s2 i where "schedule_inject m = Returns (s2, i)" using schedule_inject_returns [of m] by auto
  then show ?thesis using b m by (auto simp: schedule_pass_def Let_def split: prod.split)
qed

lemma schedule_ends:
  assumes "run_ok st" and "wq_ok st" and "c \<in> cpu_online_map st" and "setup_ok st"
  shows "\<exists>st'. schedule pa c st = Some (Returns st') \<and> run_ok st' \<and> \<not> tif_need_resched (tasks st' (curr (rqs st' c)))"
proof -
  let ?p = "curr (rqs st c)"
  obtain st1 again where p1: "schedule_pass c (pa ?p) st = Returns (st1, again)"
    using schedule_pass_returns [OF assms(4), of c "pa ?p"] by auto
  note r1 = run_ok_pass [OF assms(1-3) p1]
  show ?thesis
  proof (cases again)
    case False
    then show ?thesis using r1 p1 by (subst schedule.simps) simp
  next
    case True
    then obtain s d v where b: "schedule_block c ?p (pa ?p) (schedule_debug c st) = (s, d, v)"
      and st1: "st1 = upd_task ?p (\<lambda>t. t\<lparr>plugged := False\<rparr>) s" using r1 by auto
    have d: "core (schedule_debug c st) = core st" by simp
    have e: "param st1 = param st" "setup_env st1 = setup_env st" "wq_worker_sleeping st1 = wq_worker_sleeping st"
      "curr (rqs st1 c) = ?p" "cpu_online_map st1 = cpu_online_map st" "\<not> plugged (tasks st1 ?p)"
      using schedule_block_env(1-3) [of c ?p "pa ?p" "schedule_debug c st"] b coreD(10,18) [OF d]
        schedule_block_curr(1,3) [where st = "schedule_debug c st" and c = c and prev = ?p and pa = "pa ?p"]
      by (simp_all add: st1 schedule_debug_def)
    have w: "wq_ok st1"
    proof -
      have "on_cpu (tasks st1 q) = on_cpu (tasks st q)" for q
        using schedule_block_on_cpu [of c ?p "pa ?p" "schedule_debug c st" q] b coreD(2) [OF d] by (auto simp: st1)
      then show ?thesis using assms(2) by (simp add: wq_ok_def e(3))
    qed
    have s1: "setup_ok st1" using assms(4) by (simp add: setup_ok_def e)
    obtain st2 again2 where p2: "schedule_pass c (pa ?p) st1 = Returns (st2, again2)"
      using schedule_pass_returns [OF s1, of c "pa ?p"] by auto
    note r2 = run_ok_pass [OF conjunct1 [OF r1] w _ p2] 
    have "\<not> again2"
    proof
      assume again2
      then obtain s' d' v' where "schedule_block c ?p (pa ?p) (schedule_debug c st1) = (s', d', v')" "plugged (tasks s' ?p)"
        using r2 assms(3) by (auto simp: e)
      then show False
        using schedule_block_env(4) [of c ?p "pa ?p" "schedule_debug c st1"] e(6) by (simp add: schedule_debug_def)
    qed
    then have "schedule pa c st1 = Some (Returns st2)" using p2 by (subst schedule.simps) (simp add: e)
    then have "schedule pa c st = Some (Returns st2)" using p1 True by (subst schedule.simps) simp
    then show ?thesis using r2 \<open>\<not> again2\<close> assms(3) e(5) by simp
  qed
qed

section \<open>A running system\<close>

text \<open>A system with one processor that runs its idle task 0, after the set-up of the injection; number 1 is
  the current task of the processors that never came up, all other numbers are free.\<close>

definition one_cpu :: kstate where
  "one_cpu = zero_kstate\<lparr>cpu_online_map := {0}, param := param_ready,
     tasks := (\<lambda>t. zero_task\<lparr>cpus_allowed := {0}, on_cpu := (t = 0), static_prio := 121, normal_prio := 102,
       prio := if t = 0 then 104 else 102\<rparr>),
     rqs := (\<lambda>c. zero_rq\<lparr>curr := if c = 0 then 0 else 1, idle := if c = 0 then 0 else 1, rq_prio := 104\<rparr>),
     grq := zero_grq\<lparr>prio_bitmap := set_bit_na (nat PRIO_LIMIT) (\<lambda>_. 0), cpu_idle_map := {0}, idle_cpus := True, noc := 1\<rparr>\<rparr>"

lemma one_cpu_simps [simp]:
  "cpu_online_map one_cpu = {0}" "param one_cpu = param_ready" "queue (grq one_cpu) = (\<lambda>_. [])"
  "prio_bitmap (grq one_cpu) = set_bit_na (nat PRIO_LIMIT) (\<lambda>_. 0)" "cpu_idle_map (grq one_cpu) = {0}"
  "idle_cpus (grq one_cpu)" "nr_running (grq one_cpu) = 0" "qnr (grq one_cpu) = 0" "wq_worker_sleeping one_cpu = (\<lambda>_ _. None)"
  "tasks one_cpu t = zero_task\<lparr>cpus_allowed := {0}, on_cpu := (t = 0), static_prio := 121, normal_prio := 102,
       prio := if t = 0 then 104 else 102\<rparr>"
  "rqs one_cpu c = zero_rq\<lparr>curr := if c = 0 then 0 else 1, idle := if c = 0 then 0 else 1, rq_prio := 104\<rparr>"
  "setup_env one_cpu = (Some 1, True, True, True)"
  by (simp_all add: one_cpu_def zero_kstate_def zero_grq_def)

lemma one_cpu_ok: "run_ok one_cpu" "wq_ok one_cpu" "setup_ok one_cpu"
proof -
  have "qs_ok {} one_cpu" by (rule qs_ok_empty) simp_all
  then have "queue_ok one_cpu" by (simp add: queue_ok_qs qtotal_def)
  moreover have "place_ok one_cpu" by (simp add: place_ok_def NR_CPUS_def zero_task_def)
  moreover have "idle_ok one_cpu" by (simp add: idle_ok_def idle_map_ok_def zero_task_def)
  moreover have "idle_map_running one_cpu" by (simp add: idle_map_running_def)
  moreover have "prio_ok one_cpu"
    by (simp add: prio_ok_def idle_tasks_def pol_ok_def has_rt_policy_def is_rt_policy_def zero_task_def)
  moreover have "count_ok one_cpu" by (simp add: count_ok_def busy_def qtotal_def)
  ultimately have "sys_ok one_cpu" by (simp add: sys_ok_def)
  moreover have "flags_ok one_cpu" by (simp add: flags_ok_def flags_in_def zero_task_def)
  moreover have "parked_ok one_cpu"
    by (auto simp: parked_ok_def currents_def idle_tasks_def zero_task_def)
  ultimately show "run_ok one_cpu" by (simp add: run_ok_def)
  show "wq_ok one_cpu" by (simp add: wq_ok_def)
  show "setup_ok one_cpu" by (simp add: setup_ok_def)
qed

text \<open>C4. \<open>schedule()\<close> returns: on an online processor of a consistent system its loop ends (after at most two
  passes), leaves the system consistent, and the processor runs a task that is not flagged for
  rescheduling.  The set-up of the injection on the very first pass must find memory, and the worker
  the workqueue code asks to wake must be asleep.\<close>
theorem schedule_returns:
  assumes "run_ok st" and "wq_ok st" and "c \<in> cpu_online_map st" and "setup_ok st"
  shows "\<exists>st'. schedule pa c st = Some (Returns st') \<and> run_ok st' \<and> \<not> tif_need_resched (tasks st' (curr (rqs st' c)))"
  using assms by (rule schedule_ends)

theorem schedule_returns_witness:
  "\<exists>st'. schedule (\<lambda>_. False) 0 one_cpu = Some (Returns st') \<and> run_ok st' \<and> \<not> tif_need_resched (tasks st' (curr (rqs st' 0)))"
  by (rule schedule_returns [OF one_cpu_ok(1,2) _ one_cpu_ok(3)]) simp

section \<open>The choice of the next task\<close>

text \<open>C3. The search for the next task: when no queued task may run on the processor, the idle task is chosen
  and nothing changes.  Otherwise the choice falls on the first admissible task of the lowest
  realtime level, or on the admissible task with the earliest deadline of the lowest other level.  A
  realtime task is taken off its queue and runs; another one runs unless the injection replaces it by
  the idle task, in which case it stays queued and only the injection counters change.\<close>
theorem earliest_deadline_task_spec:
  assumes "run_ok st" and "c \<in> cpu_online_map st"
  shows "(\<forall>i<nat PRIO_LIMIT. \<forall>q. \<not> candidate c st i q) \<and> earliest_deadline_task c st = (st, idle (rqs st c)) \<or>
    (\<exists>i p. edt_choice c st i p \<and>
       (if i < nat MAX_RT_PRIO then earliest_deadline_task c st = (take_task c p st, p)
        else let chk = inject_check (tgid (tasks st p)) (pid (tasks st p)) (param st) in
          if snd chk then earliest_deadline_task c st = (st\<lparr>param := fst chk\<rparr>, idle (rqs st c))
          else earliest_deadline_task c st = (take_task c p (st\<lparr>param := fst chk\<rparr>), p)))"
proof -
  have ok: "sys_ok st" by (rule run_okD(1) [OF assms(1)])
  have "idle (rqs st c) \<notin> set (queue (grq st) i)" for i
    by (rule idle_not_queued [OF ok idle_in_idle_tasks [OF assms(2)]])
  note spec = edt_search_spec [OF sys_okD(2) [OF ok] this]
  from spec show ?thesis
  proof (cases "edt_search c 0 st")
    case (Some r)
    obtain rt p where r: "r = (rt, p)" by (cases r)
    with spec Some obtain i where i: "edt_choice c st i p" "rt \<longleftrightarrow> i < nat MAX_RT_PRIO" by auto
    then show ?thesis
      using Some r by (cases rt) (auto simp: earliest_deadline_task_def Let_def case_prod_beta)
  qed (simp add: earliest_deadline_task_def)
qed

theorem earliest_deadline_task_spec_witness:
  "run_ok one_cpu \<and> 0 \<in> cpu_online_map one_cpu \<and> earliest_deadline_task 0 one_cpu = (one_cpu, 0)"
  using one_cpu_ok(1) earliest_deadline_task_spec [OF one_cpu_ok(1), of 0] by (auto simp: edt_choice_def candidate_def)

section \<open>The global injection\<close>

lemma earliest_deadline_task_param:
  assumes "inject_inv (param st)"
  shows "inject_inv (param (fst (earliest_deadline_task c st)))"
    and "global_rate (param (fst (earliest_deadline_task c st))) = global_rate (param st)"
    and "idle_cycles_offset (param (fst (earliest_deadline_task c st))) = idle_cycles_offset (param st)"
  using assms inject_check_refines(3) [OF assms]
  by (auto simp: earliest_deadline_task_def Let_def case_prod_beta inject_check_frame split: option.split bool.split)

lemma inject_inv_offset:
  "inject_inv par \<Longrightarrow> 0 \<le> k \<Longrightarrow> k < global_rate par \<Longrightarrow> inject_inv (par\<lparr>idle_cycles_offset := k\<rparr>)"
  by (simp add: inject_inv_def links_ok_def pid_table_def pid_entries_def)

lemma schedule_inject_ready:
  assumes "inject_inv (param st)"
  shows "schedule_inject st = Returns (st\<lparr>param := (param st)\<lparr>idle_cycles_offset := idle_cycles_offset (param st) + 1\<rparr>\<rparr>,
    global_rate (param st))"
proof -
  have "s32 (idle_cycles_offset (param st) + 1) = idle_cycles_offset (param st) + 1"
    using assms by (intro s32_id) (auto simp: inject_inv_def in_s32_def)
  then show ?thesis using assms by (simp add: schedule_inject_def Let_def inject_inv_def)
qed

lemma pick_param [simp]:
  "param (set_cpuidle_map c st) = param st" "param (clear_cpuidle_map c st) = param st"
  "param (schedule_goidle c st) = param st"
  by (simp_all add: set_cpuidle_map_def clear_cpuidle_map_def schedule_goidle_def Let_def)

text \<open>The count of passes and the choice, with the queues not empty.\<close>

lemma global_injection_step:
  assumes "inject_inv (param st)" and "queued_notrunning st \<noteq> 0"
    and "schedule_inject st = Returns (s, v)" and "schedule_pick c v s = (s', nxt)"
  shows "inject_inv (param s')" and "global_rate (param s') = global_rate (param st)"
    and "idle_cycles_offset (param s') = (idle_cycles_offset (param st) + 1) mod global_rate (param st)"
    and "idle_cycles_offset (param s') = 0 \<Longrightarrow> nxt = idle (rqs st c) \<and> queue (grq s') = queue (grq st)"
    and "idle_cycles_offset (param s') \<noteq> 0 \<Longrightarrow> nxt = snd (earliest_deadline_task c s)"
proof -
  let ?k = "idle_cycles_offset (param st) + 1" and ?r = "global_rate (param st)"
  let ?par = "(param st)\<lparr>idle_cycles_offset := ?k\<rparr>"
  have s: "s = st\<lparr>param := ?par\<rparr>" "v = ?r" using schedule_inject_ready [OF assms(1)] assms(3) by auto
  have b: "0 < ?k" "?k \<le> ?r" using assms(1) by (auto simp: inject_inv_def)
  have q: "queued_notrunning s \<noteq> 0" using assms(2) by (simp add: s queued_notrunning_def)
  have "inject_inv (param s') \<and> global_rate (param s') = ?r \<and> idle_cycles_offset (param s') = ?k mod ?r \<and>
    (idle_cycles_offset (param s') = 0 \<longrightarrow> nxt = idle (rqs st c) \<and> queue (grq s') = queue (grq st)) \<and>
    (idle_cycles_offset (param s') \<noteq> 0 \<longrightarrow> nxt = snd (earliest_deadline_task c s))"
  proof (cases "?k = ?r")
    case True
    then have e: "s' = schedule_goidle c (st\<lparr>param := (param st)\<lparr>idle_cycles_offset := 0\<rparr>\<rparr>)" "nxt = idle (rqs st c)"
      using assms(4) by (auto simp: s schedule_pick_def)
    moreover have "queue (grq s') = queue (grq st)" by (simp add: e(1) schedule_goidle_def)
    ultimately show ?thesis using inject_inv_offset [OF assms(1), of 0] b True by simp
  next
    case False
    then have k: "?k < ?r" using b by simp
    then have "inject_inv (param s)" using inject_inv_offset [OF assms(1), of ?k] b by (simp add: s)
    note p = earliest_deadline_task_param [OF this, of c]
    have "param s' = param (fst (earliest_deadline_task c s))" "nxt = snd (earliest_deadline_task c s)"
      using assms(4) False q by (auto simp: schedule_pick_def s case_prod_beta split: if_splits)
    then show ?thesis using p b k by (simp add: s)
  qed
  then show "inject_inv (param s')" "global_rate (param s') = ?r" "idle_cycles_offset (param s') = ?k mod ?r"
    "idle_cycles_offset (param s') = 0 \<Longrightarrow> nxt = idle (rqs st c) \<and> queue (grq s') = queue (grq st)"
    "idle_cycles_offset (param s') \<noteq> 0 \<Longrightarrow> nxt = snd (earliest_deadline_task c s)" by blast+
qed

lemma global_injection_count:
  assumes "inject_inv (param (S 0))"
    and "\<And>k. k < n \<Longrightarrow> queued_notrunning (S k) \<noteq> 0 \<and> schedule_inject (S k) = Returns (J k, v k) \<and>
      schedule_pick (cs k) (v k) (J k) = (P k, nxt k) \<and> param (S (Suc k)) = param (P k)"
    and "k \<le> n"
  shows "inject_inv (param (S k)) \<and> global_rate (param (S k)) = global_rate (param (S 0)) \<and>
    idle_cycles_offset (param (S k)) = (idle_cycles_offset (param (S 0)) + int k) mod global_rate (param (S 0))"
  using assms(3)
proof (induction k)
  case 0
  then show ?case using assms(1) by (simp add: inject_inv_def)
next
  case (Suc k)
  then have h: "k < n" "inject_inv (param (S k))" "global_rate (param (S k)) = global_rate (param (S 0))"
    "idle_cycles_offset (param (S k)) = (idle_cycles_offset (param (S 0)) + int k) mod global_rate (param (S 0))" by simp_all
  from assms(2) [OF h(1)] have "param (S (Suc k)) = param (P k)" by simp
  with global_injection_step [OF h(2), of "J k" "v k" "cs k" "P k" "nxt k"] assms(2) [OF h(1)] h(3,4) show ?case
    by (simp add: mod_add_right_eq ac_simps)
qed

text \<open>C5. The global injection: take the passes of \<open>schedule()\<close>, on whatever processors, that come to the choice of the
  next task while tasks are queued.  Exactly every \<open>global_rate\<close>-th of these is cut short: the pass
  whose number, counted on from the current offset, is a multiple of \<open>global_rate\<close> takes the idle task
  and leaves every queued task where it is; every other one searches the queues.\<close>
theorem global_injection_period:
  assumes "inject_inv (param (S 0))"
    and "\<forall>k<n. queued_notrunning (S k) \<noteq> 0 \<and> schedule_inject (S k) = Returns (J k, v k) \<and>
      schedule_pick (cs k) (v k) (J k) = (P k, nxt k) \<and> param (S (Suc k)) = param (P k)"
    and "k < n"
  shows "if global_rate (param (S 0)) dvd idle_cycles_offset (param (S 0)) + int k + 1
    then nxt k = idle (rqs (S k) (cs k)) \<and> queue (grq (P k)) = queue (grq (S k))
    else nxt k = snd (earliest_deadline_task (cs k) (J k))"
proof -
  have c: "inject_inv (param (S k)) \<and> global_rate (param (S k)) = global_rate (param (S 0)) \<and>
    idle_cycles_offset (param (S k)) = (idle_cycles_offset (param (S 0)) + int k) mod global_rate (param (S 0))"
    using global_injection_count [where S = S and n = n and J = J and v = v and cs = cs and P = P and nxt = nxt and k = k] assms
    by simp
  have h: "queued_notrunning (S k) \<noteq> 0" "schedule_inject (S k) = Returns (J k, v k)" "schedule_pick (cs k) (v k) (J k) = (P k, nxt k)"
    using assms(2,3) by auto
  note s = global_injection_step [OF _ h]
  have "idle_cycles_offset (param (P k)) = (idle_cycles_offset (param (S 0)) + int k + 1) mod global_rate (param (S 0))"
    using s(3) c by (simp add: mod_add_left_eq)
  then have "idle_cycles_offset (param (P k)) = 0 \<longleftrightarrow> global_rate (param (S 0)) dvd idle_cycles_offset (param (S 0)) + int k + 1"
    by (simp add: dvd_eq_mod_eq_0)
  then show ?thesis using s(4,5) c by simp
qed

theorem global_injection_period_witness:
  "let st = one_cpu\<lparr>grq := (grq one_cpu)\<lparr>qnr := 1\<rparr>, param := param_ready\<lparr>idle_cycles_offset := 1999\<rparr>\<rparr>;
       J = st\<lparr>param := param_ready\<lparr>idle_cycles_offset := 2000\<rparr>\<rparr>
   in snd (schedule_pick 0 2000 J) = 0"
proof -
  define st where "st = one_cpu\<lparr>grq := (grq one_cpu)\<lparr>qnr := 1\<rparr>, param := param_ready\<lparr>idle_cycles_offset := 1999\<rparr>\<rparr>"
  let ?J = "st\<lparr>param := param_ready\<lparr>idle_cycles_offset := 2000\<rparr>\<rparr>"
  have r: "global_rate param_ready = 2000"
    by (simp add: param_ready_def set_everything_idlepar_def Let_def INJECTION_IDLE_CYCLE_EACH_TIME_def)
  have i: "inject_inv (param st)" using inject_inv_offset [OF param_ready_inv(1), of 1999] r by (simp add: st_def)
  have j: "schedule_inject st = Returns (?J, 2000)" using schedule_inject_ready [OF i] r by (simp add: st_def)
  have q: "queued_notrunning st \<noteq> 0" by (simp add: st_def queued_notrunning_def s32_def)
  have "idle (rqs st 0) = 0" by (simp add: st_def)
  with global_injection_period [of "\<lambda>k. if k = 0 then st else fst (schedule_pick 0 2000 ?J)" 1 "\<lambda>_. ?J" "\<lambda>_. 2000" "\<lambda>_. 0"
      "\<lambda>_. fst (schedule_pick 0 2000 ?J)" "\<lambda>_. snd (schedule_pick 0 2000 ?J)" 0] i j q r
  show ?thesis by (simp add: Let_def st_def)
qed

section \<open>How an idle period ends\<close>

lemma context_switch_rq_prio [simp]: "rq_prio (rqs (context_switch c prev nxt st) d) = rq_prio (rqs st d)"
proof -
  have "rq_prio (rqs (sched_info_switch prev nxt s) e) = rq_prio (rqs s e)" for e s
    by (simp add: sched_info_switch_def sched_info_depart_def sched_info_arrive_def rq_sched_info_arrive_def
        rq_sched_info_depart_def sched_info_queued_def Let_def)
  moreover have "rq_prio (rqs (mm_get m s) e) = rq_prio (rqs s e)" for e m s by (simp add: mm_get_def split: option.split)
  moreover have "rq_prio (rqs (finish_task_switch c prev s) e) = rq_prio (rqs s e)" for e s
    by (simp add: finish_task_switch_def mmdrop_def put_task_struct_def Let_def split: option.split)
  ultimately show ?thesis by (simp add: context_switch_def prepare_task_switch_def Let_def)
qed

lemma schedule_switch_rq_prio:
  "prev \<noteq> nxt \<Longrightarrow> rq_prio (rqs (schedule_switch c prev nxt v st) c) = prio (tasks st nxt)"
  using resched_frameD(12) [OF unstick_task_frame] by (simp add: schedule_switch_def set_rq_task_def Let_def)

lemma put_prev_idle: "idle (rqs (fst (schedule_put_prev c p d st)) e) = idle (rqs st e)"
proof -
  have "idle (rqs (resched_suitable_idle c p s) e) = idle (rqs s e)" "idle (rqs (swap_sticky c c p s) e) = idle (rqs s e)" for s
    by (rule coreD(11); simp)+
  then show ?thesis by (simp add: schedule_put_prev_def Let_def check_deadline_def time_slice_expired_def)
qed

lemma pick_idle: "idle (rqs (fst (schedule_pick c v st)) e) = idle (rqs st e)"
proof -
  have "idle (rqs (fst (earliest_deadline_task c st)) f) = idle (rqs st f)" for f
    by (simp add: earliest_deadline_task_def Let_def case_prod_beta split: option.split bool.split)
  then show ?thesis by (simp add: schedule_pick_def schedule_goidle_def case_prod_beta)
qed

text \<open>A pass that takes a processor from a task to its idle task leaves the run queue marked idle.\<close>

lemma pass_to_idle:
  assumes "run_ok st" and "wq_ok st" and "c \<in> cpu_online_map st" and "schedule_pass c pa st = Returns (st', False)"
    and "curr (rqs st c) \<noteq> idle (rqs st c)" and "curr (rqs st' c) = idle (rqs st' c)"
  shows "rq_idle (rqs st' c)"
  using assms(4)
proof (cases rule: schedule_pass_cases)
  case (rerun s d v)
  note a = pass_accounted [OF assms(1-3) rerun(1)]
  have "core st' = core (schedule_account c (curr (rqs st c)) s)"
    using schedule_put_prev_ok [OF run_okD(1) [OF a(1)] a(4), of d st' True] rerun(2) a(3,5) assms(5) by simp
  from coreD(10) [OF this, of c] coreD(11) [OF this, of c] have False using a(3,5) assms(5,6) by simp
  then show ?thesis ..
next
  case (switch s d v m i s2 nxt s3)
  let ?p = "curr (rqs st c)"
  note a = pass_accounted [OF assms(1-3) switch(1)]
  have "mid_ok c ?p m" using run_ok_put(1) [OF a(1,2,4), of d m] a(3) switch(2) by simp
  moreover obtain par where par: "s2 = m\<lparr>param := par\<rparr>" by (rule schedule_inject_param [OF switch(3)])
  ultimately have "mid_ok c ?p s2" by simp
  from schedule_pick_ok [OF this, of i] switch(4) have pk: "picked_ok c ?p nxt s3" by simp
  have e: "curr (rqs st' c) = nxt" "idle (rqs st' c) = idle (rqs s3 c)"
    using core_schedule_switch [of c ?p nxt v s3] coreD(10,11) [of st' s3 c] coreD(10,11) [of st' "swap_running c ?p nxt s3" c]
      picked_okD(9) [OF pk] unfolding switch(5) by (auto simp: swap_running_def split: if_splits)
  then have n: "nxt = idle (rqs s3 c)" using assms(6) by simp
  moreover have "prio (tasks s3 (idle (rqs s3 c))) = PRIO_LIMIT" using picked_okD(4,8) [OF pk] by (simp add: idle_ok_def)
  moreover have "?p \<noteq> nxt"
  proof -
    have "idle (rqs m c) = idle (rqs st c)"
      using switch(2) put_prev_idle [of c ?p d "schedule_account c ?p s" c] a(5) by (auto split: if_splits)
    then have "idle (rqs s3 c) = idle (rqs st c)" using pick_idle [of c i s2 c] par switch(4) by simp
    then show ?thesis using n assms(5) by simp
  qed
  ultimately show ?thesis using schedule_switch_rq_prio [of ?p nxt c v s3] by (simp add: rq_idle_def switch(5))
qed simp

text \<open>A blocking task that leaves no queued task behind hands the processor to the idle task.\<close>

lemma pass_blocks_to_idle:
  assumes "run_ok st" and "wq_ok st" and "c \<in> cpu_online_map st" and "schedule_pass c pa st = Returns (st', again)"
    and "curr (rqs st c) \<noteq> idle (rqs st c)"
    and "schedule_block c (curr (rqs st c)) pa (schedule_debug c st) = (s0, True, w)" and "queued_notrunning s0 = 0"
    and "\<not> plugged (tasks st (curr (rqs st c)))"
  shows "curr (rqs st' c) = idle (rqs st' c)" and "\<not> again"
proof -
  let ?p = "curr (rqs st c)" and ?a = "schedule_account c (curr (rqs st c)) s0"
  have np: "\<not> plugged (tasks s0 ?p)"
    using schedule_block_env(4) [of c ?p pa "schedule_debug c st"] assms(6,8) by (simp add: schedule_debug_def)
  have q: "queued_notrunning ?a = 0"
    using coreD(14) [OF core_schedule_account, of c ?p s0] assms(7) by (simp add: queued_notrunning_def)
  have put: "\<not> snd (schedule_put_prev c ?p True ?a)" "queued_notrunning (fst (schedule_put_prev c ?p True ?a)) = 0"
    using q coreD(14) [OF core_resched(3)]
    by (simp_all add: schedule_put_prev_def Let_def queued_notrunning_def check_deadline_def time_slice_expired_def return_task_def)
  from assms(4) have "curr (rqs st' c) = idle (rqs st' c) \<and> \<not> again"
  proof (cases rule: schedule_pass_cases)
    case (flush s d v)
    then show ?thesis using np assms(6) by simp
  next
    case (rerun s d v)
    then show ?thesis using put(1) assms(6) by simp
  next
    case (switch s d v m i s2 nxt s3)
    have e: "s = s0" "d" using switch(1) assms(6) by simp_all
    note a = pass_accounted [OF assms(1-3) switch(1)]
    have m: "mid_ok c ?p m" "parked_ok m" "flags_in (currents m (- {c})) m"
      using run_ok_put [OF a(1,2,4), of d m] a(3) switch(2) by simp_all
    obtain par where "s2 = m\<lparr>param := par\<rparr>" by (rule schedule_inject_param [OF switch(3)])
    moreover have "queued_notrunning m = 0" using put(2) switch(2) assms(5) a(5) by (simp add: e)
    ultimately have "nxt = idle (rqs s3 c)" using switch(4) pick_idle [of c i s2 c] by (simp add: schedule_pick_def queued_notrunning_def)
    moreover have "idle (rqs st' c) = idle (rqs s3 c)"
      using core_schedule_switch [of c ?p nxt v s3] coreD(11) [of st' s3 c] coreD(11) [of st' "swap_running c ?p nxt s3" c]
      unfolding switch(5) by (auto simp: swap_running_def split: if_splits)
    ultimately show ?thesis using run_ok_choose(2,3) [OF m switch(3,4,5)] switch(6) by simp
  qed
  then show "curr (rqs st' c) = idle (rqs st' c)" "\<not> again" by simp_all
qed

text \<open>C23. An idle period is not ended by the timer.  After a pass took a processor from a task and gave it to the idle
  task, by injection or not, any number of ticks on this processor leaves the queues, the running
  tasks and the injection state as they are and flags nothing, even when tasks wait in the queues.\<close>
theorem idle_survives_ticks:
  assumes "run_ok st" and "wq_ok st" and "c \<in> cpu_online_map st" and "schedule_pass c pa st = Returns (st', False)"
    and "curr (rqs st c) \<noteq> idle (rqs st c)" and "curr (rqs st' c) = idle (rqs st' c)"
  shows "core ((scheduler_tick c ^^ n) st') = core st' \<and>
    \<not> tif_need_resched (tasks ((scheduler_tick c ^^ n) st') (curr (rqs st' c)))"
proof -
  have "\<not> tif_need_resched (tasks st' (curr (rqs st' c)))" using run_ok_pass [OF assms(1-4)] by simp
  then show ?thesis using ticks_idle [OF pass_to_idle [OF assms]] by simp
qed

text \<open>The one processor runs task 5, which is about to sleep.\<close>

definition busy_cpu :: kstate where
  "busy_cpu = one_cpu\<lparr>tasks := (\<lambda>t. zero_task\<lparr>cpus_allowed := {0}, on_cpu := (t = 5), static_prio := 121, normal_prio := 102,
       prio := (if t = 0 then 104 else 102), state := (if t = 5 then 1 else 0)\<rparr>),
     rqs := (\<lambda>c. zero_rq\<lparr>curr := if c = 0 then 5 else 1, idle := if c = 0 then 0 else 1, rq_prio := 102\<rparr>),
     grq := (grq one_cpu)\<lparr>nr_running := 1, cpu_idle_map := {}, idle_cpus := False\<rparr>\<rparr>"

lemma busy_cpu_simps [simp]:
  "cpu_online_map busy_cpu = {0}" "param busy_cpu = param_ready" "queue (grq busy_cpu) = (\<lambda>_. [])"
  "prio_bitmap (grq busy_cpu) = set_bit_na (nat PRIO_LIMIT) (\<lambda>_. 0)" "cpu_idle_map (grq busy_cpu) = {}"
  "\<not> idle_cpus (grq busy_cpu)" "nr_running (grq busy_cpu) = 1" "qnr (grq busy_cpu) = 0" "wq_worker_sleeping busy_cpu = (\<lambda>_ _. None)"
  "tasks busy_cpu t = zero_task\<lparr>cpus_allowed := {0}, on_cpu := (t = 5), static_prio := 121, normal_prio := 102,
       prio := (if t = 0 then 104 else 102), state := (if t = 5 then 1 else 0)\<rparr>"
  "rqs busy_cpu c = zero_rq\<lparr>curr := if c = 0 then 5 else 1, idle := if c = 0 then 0 else 1, rq_prio := 102\<rparr>"
  "setup_env busy_cpu = (Some 1, True, True, True)"
  by (simp_all add: busy_cpu_def)

lemma busy_cpu_ok: "run_ok busy_cpu" "wq_ok busy_cpu" "setup_ok busy_cpu"
proof -
  have "qs_ok {} busy_cpu" by (rule qs_ok_empty) simp_all
  then have "queue_ok busy_cpu" by (simp add: queue_ok_qs qtotal_def)
  moreover have "place_ok busy_cpu" by (simp add: place_ok_def NR_CPUS_def zero_task_def)
  moreover have "idle_ok busy_cpu" by (simp add: idle_ok_def idle_map_ok_def zero_task_def)
  moreover have "idle_map_running busy_cpu" by (simp add: idle_map_running_def)
  moreover have "prio_ok busy_cpu"
    by (simp add: prio_ok_def idle_tasks_def pol_ok_def enq_ok_def idleprio_task_def iso_task_def has_rt_policy_def
        is_rt_policy_def zero_task_def TASK_LIMIT_def)
  moreover have "{d. d = 0 \<and> (if d = 0 then 5 else 1) \<noteq> (if d = 0 then 0 else (1 :: nat))} = {0 :: nat}" by auto
  then have "count_ok busy_cpu" by (simp add: count_ok_def busy_def qtotal_def)
  ultimately have "sys_ok busy_cpu" by (simp add: sys_ok_def)
  moreover have "flags_ok busy_cpu" by (simp add: flags_ok_def flags_in_def zero_task_def)
  moreover have "parked_ok busy_cpu" by (auto simp: parked_ok_def currents_def idle_tasks_def zero_task_def)
  ultimately show "run_ok busy_cpu" by (simp add: run_ok_def)
  show "wq_ok busy_cpu" by (simp add: wq_ok_def)
  show "setup_ok busy_cpu" by (simp add: setup_ok_def)
qed

theorem idle_survives_ticks_witness:
  "\<exists>st'. schedule_pass 0 False busy_cpu = Returns (st', False) \<and> core ((scheduler_tick 0 ^^ 1000) st') = core st' \<and>
    \<not> tif_need_resched (tasks ((scheduler_tick 0 ^^ 1000) st') (curr (rqs st' 0)))"
proof -
  obtain st' again where p: "schedule_pass 0 False busy_cpu = Returns (st', again)"
    using schedule_pass_returns [OF busy_cpu_ok(3), of 0 False] by auto
  have b: "schedule_block 0 (curr (rqs busy_cpu 0)) False (schedule_debug 0 busy_cpu) = (schedule_debug 0 busy_cpu, True, True)"
    by (simp add: schedule_block_def schedule_debug_def signal_pending_state_def zero_task_def)
  have c: "0 \<in> cpu_online_map busy_cpu" "curr (rqs busy_cpu 0) \<noteq> idle (rqs busy_cpu 0)"
    "queued_notrunning (schedule_debug 0 busy_cpu) = 0" "\<not> plugged (tasks busy_cpu (curr (rqs busy_cpu 0)))"
    by (simp_all add: schedule_debug_def queued_notrunning_def s32_def zero_task_def)
  note i = pass_blocks_to_idle [OF busy_cpu_ok(1,2) c(1) p c(2) b c(3,4)]
  from p i(2) have q: "schedule_pass 0 False busy_cpu = Returns (st', False)" by simp
  from idle_survives_ticks [OF busy_cpu_ok(1,2) c(1) q c(2) i(1), of 1000] q show ?thesis by blast
qed

section \<open>Address spaces\<close>

text \<open>The tasks that borrow address space \<open>a\<close>: they have none of their own and run on the one of their predecessor.\<close>

definition borrowers :: "nat \<Rightarrow> kstate \<Rightarrow> tid set" where
  "borrowers a st = {p. mm (tasks st p) = None \<and> active_mm (tasks st p) = Some a}"

lemma sched_info_mm [simp]:
  "mm (tasks (sched_info_switch prev nxt st) p) = mm (tasks st p)"
  "active_mm (tasks (sched_info_switch prev nxt st) p) = active_mm (tasks st p)"
  "mm_count (sched_info_switch prev nxt st) = mm_count st"
  "prev_mm (rqs (sched_info_switch prev nxt st) c) = prev_mm (rqs st c)"
proof -
  have "mm (tasks (sched_info_depart prev s) q) = mm (tasks s q)" "active_mm (tasks (sched_info_depart prev s) q) = active_mm (tasks s q)"
    "mm_count (sched_info_depart prev s) = mm_count s" "prev_mm (rqs (sched_info_depart prev s) d) = prev_mm (rqs s d)" for q d s
    by (simp_all add: sched_info_depart_def rq_sched_info_depart_def sched_info_queued_def Let_def)
  moreover have "mm (tasks (sched_info_arrive nxt s) q) = mm (tasks s q)" "active_mm (tasks (sched_info_arrive nxt s) q) = active_mm (tasks s q)"
    "mm_count (sched_info_arrive nxt s) = mm_count s" "prev_mm (rqs (sched_info_arrive nxt s) d) = prev_mm (rqs s d)" for q d s
    by (simp_all add: sched_info_arrive_def rq_sched_info_arrive_def sched_info_reset_dequeued_def Let_def)
  ultimately show "mm (tasks (sched_info_switch prev nxt st) p) = mm (tasks st p)"
    "active_mm (tasks (sched_info_switch prev nxt st) p) = active_mm (tasks st p)"
    "mm_count (sched_info_switch prev nxt st) = mm_count st"
    "prev_mm (rqs (sched_info_switch prev nxt st) c) = prev_mm (rqs st c)"
    by (simp_all add: sched_info_switch_def Let_def)
qed

lemma context_switch_mm:
  assumes "prev \<noteq> nxt" and "active_mm (tasks st prev) = Some om" and "prev_mm (rqs st c) = None"
  shows "mm_count (context_switch c prev nxt st) a = mm_count st a +
      (if a = om \<and> mm (tasks st nxt) = None then 1 else 0) - (if a = om \<and> mm (tasks st prev) = None then 1 else 0)"
    and "mm (tasks (context_switch c prev nxt st) p) = mm (tasks st p)"
    and "active_mm (tasks (context_switch c prev nxt st) p) =
      (if p = nxt \<and> mm (tasks st nxt) = None then Some om
       else if p = prev \<and> mm (tasks st prev) = None then None else active_mm (tasks st p))"
    and "prev_mm (rqs (context_switch c prev nxt st) c) = None"
  using assms
  by (auto simp: context_switch_def prepare_task_switch_def finish_task_switch_def mm_get_def mmdrop_def put_task_struct_def Let_def)

text \<open>C24. A context switch loses and leaks no reference to an address space: the number of references minus the
  number of tasks that borrow the address space stays the same for each of them, and nothing is left
  to be dropped on the run queue.\<close>
theorem context_switch_mm_conserved:
  assumes "prev \<noteq> nxt" and "active_mm (tasks st prev) = Some om" and "prev_mm (rqs st c) = None"
    and "mm (tasks st nxt) = None \<Longrightarrow> active_mm (tasks st nxt) = None" and "finite (borrowers a st)"
  shows "mm_count (context_switch c prev nxt st) a - int (card (borrowers a (context_switch c prev nxt st))) =
      mm_count st a - int (card (borrowers a st)) \<and> prev_mm (rqs (context_switch c prev nxt st) c) = None"
proof -
  note m = context_switch_mm [OF assms(1-3)]
  let ?B = "borrowers a st"
  let ?A = "{p. p = nxt \<and> mm (tasks st nxt) = None \<and> a = om}" and ?D = "{p. p = prev \<and> mm (tasks st prev) = None \<and> a = om}"
  have e: "borrowers a (context_switch c prev nxt st) = (?B - ?D) \<union> ?A"
    using assms(1,2,4) by (auto simp: borrowers_def m)
  have d: "?D \<subseteq> ?B" using assms(2) by (auto simp: borrowers_def)
  have n: "?A \<inter> (?B - ?D) = {}" using assms(4) by (auto simp: borrowers_def)
  have f: "finite ?A" "finite ?D" by (simp_all add: Collect_conj_eq)
  have "card ?A = (if a = om \<and> mm (tasks st nxt) = None then 1 else 0)"
    "card ?D = (if a = om \<and> mm (tasks st prev) = None then 1 else 0)" by (auto simp: Collect_conj_eq)
  moreover have "card ((?B - ?D) \<union> ?A) = card ?B - card ?D + card ?A"
    using assms(5) f d n by (subst card_Un_disjoint) (auto simp: card_Diff_subset)
  moreover have "card ?D \<le> card ?B" by (rule card_mono [OF assms(5) d])
  ultimately show ?thesis unfolding e m(1,4) by simp
qed

theorem context_switch_mm_conserved_witness:
  "let st = zero_kstate\<lparr>tasks := (\<lambda>t. if t = 1 then zero_task\<lparr>active_mm := Some 3\<rparr> else if t = 2 then zero_task\<lparr>mm := Some 4, active_mm := Some 4\<rparr> else zero_task),
        mm_count := (\<lambda>_. 2)\<rparr>
   in mm_count (context_switch 0 1 2 st) 3 - int (card (borrowers 3 (context_switch 0 1 2 st))) = 1"
proof -
  define st where "st = zero_kstate\<lparr>tasks := (\<lambda>t. if t = 1 then zero_task\<lparr>active_mm := Some 3\<rparr>
      else if t = 2 then zero_task\<lparr>mm := Some 4, active_mm := Some 4\<rparr> else zero_task), mm_count := (\<lambda>_. 2)\<rparr>"
  have b: "borrowers 3 st = {1}" by (auto simp: borrowers_def st_def zero_task_def)
  have "active_mm (tasks st 1) = Some 3" "prev_mm (rqs st 0) = None" "mm (tasks st 2) \<noteq> None" "mm_count st 3 = 2"
    by (simp_all add: st_def zero_kstate_def zero_task_def zero_rq_def)
  with context_switch_mm_conserved [of 1 2 st 3 0 3] b
  have "mm_count (context_switch 0 1 2 st) 3 - int (card (borrowers 3 (context_switch 0 1 2 st))) = 1" by simp
  then show ?thesis by (simp add: Let_def st_def)
qed

end
