(* ===== verification/Sched_Change.thy ===== *)
theory Sched_Change
  imports Sched_Run
begin

text \<open>
  The pattern by which the scheduler changes the parameters of a task: a queued task is taken off its
  queue, changed, and queued again; any other task is changed in place.  The invariant of the
  scheduler survives every such change that leaves the parameters in range, and every change of
  fields it does not speak of.
\<close>

section \<open>Dequeue, change, enqueue\<close>

lemma queued_iff:
  assumes "sys_ok st"
  shows "task_queued p st \<longleftrightarrow> (\<exists>i. p \<in> set (queue (grq st) i))"
  using qs_ok_queued [OF sys_okD(2) [OF assms]] by blast

lemma queued_not_running':
  assumes "sys_ok st" and "task_queued p st"
  shows "\<not> on_cpu (tasks st p)" and "p < TASK_LIMIT"
  using assms queued_not_running [OF assms(1)] by (auto simp: queued_iff)

text \<open>Task \<open>p\<close> is changed by \<open>f\<close>; when it is queued it leaves its queue before and joins the one it belongs to afterwards.\<close>

definition changed :: "tid \<Rightarrow> (task_struct \<Rightarrow> task_struct) \<Rightarrow> kstate \<Rightarrow> kstate" where
  "changed p f st =
     (if task_queued p st then enqueue_task p (upd_task p f (dequeue_task p st)) else upd_task p f st)"

lemma changed_frame [simp]:
  "rqs (changed p f st) = rqs st" "cpu_online_map (changed p f st) = cpu_online_map st" "param (changed p f st) = param st"
  by (simp_all add: changed_def)

lemma changed_tasks:
  "tasks (changed p f st) q = (if q = p then (if task_queued p st then info_queued (rq_clock (rqs st (task_cpu (f (tasks st p)))))
      ((f (tasks st p))\<lparr>prio := enqueue_prio (f (tasks st p)) (dequeue_task p st)\<rparr>) else f (tasks st p)) else tasks st q)"
  by (simp add: changed_def enqueue_task_tasks)


lemma changed_grq [simp]:
  "nr_running (grq (changed p f st)) = nr_running (grq st)" "cpu_idle_map (grq (changed p f st)) = cpu_idle_map (grq st)"
  "idle_cpus (grq (changed p f st)) = idle_cpus (grq st)" "qnr (grq (changed p f st)) = qnr (grq st)"
  by (simp_all add: changed_def enqueue_task_grq dequeue_task_grq Let_def)

lemma changed_queue:
  assumes "sys_ok st" and "on_cpu (f (tasks st p)) = on_cpu (tasks st p)" and "task_queued p st \<Longrightarrow> enq_ok (f (tasks st p))"
  shows "queue_ok (changed p f st)" and "qtotal (queue (grq (changed p f st))) = qtotal (queue (grq st))"
    and "(\<exists>i. q \<in> set (queue (grq (changed p f st)) i)) = (\<exists>i. q \<in> set (queue (grq st) i))"
proof -
  note inv = sys_okD [OF assms(1)]
  have "queue_ok (changed p f st) \<and> qtotal (queue (grq (changed p f st))) = qtotal (queue (grq st)) \<and>
    (\<exists>i. q \<in> set (queue (grq (changed p f st)) i)) = (\<exists>i. q \<in> set (queue (grq st) i))"
  proof (cases "task_queued p st")
    case True
    then obtain i where i: "p \<in> set (queue (grq st) i)" by (auto simp: queued_iff [OF assms(1)])
    let ?d = "dequeue_task p st"
    note d = dequeue_task_qs_ok [OF inv(2) i]
    have u: "qs_ok {} (upd_task p f ?d)" by (rule qs_ok_cong [OF d(1)]) (use d(3) in auto)
    have e: "qs_ok {} (enqueue_task p (upd_task p f ?d))"
      "qtotal (queue (grq (enqueue_task p (upd_task p f ?d)))) = Suc (qtotal (queue (grq (upd_task p f ?d))))"
      by (rule enqueue_task_qs_ok [OF u]; use d(3) assms True queued_not_running' [OF assms(1) True] in simp)+
    have q: "queue (grq ?d) = (\<lambda>j. remove1 p (queue (grq st) j))" by (simp add: dequeue_task_grq Let_def)
    have "(\<exists>j. q \<in> set (queue (grq (enqueue_task p (upd_task p f ?d))) j)) = (\<exists>j. q \<in> set (queue (grq st) j))"
    proof (cases "q = p")
      case True
      then show ?thesis using i by (auto simp: enqueue_task_grq Let_def)
    next
      case False
      then have "q \<in> set (queue (grq (enqueue_task p (upd_task p f ?d))) j) = (q \<in> set (queue (grq st) j))" for j
        by (simp add: enqueue_task_grq q Let_def)
      then show ?thesis by blast
    qed
    with e d(2) inv(3) True show ?thesis
      by (simp add: changed_def queue_ok_qs) (simp add: enqueue_task_grq dequeue_task_grq Let_def)
  next
    case False
    then have "p \<notin> set (queue (grq st) i)" for i by (auto simp: queued_iff [OF assms(1)])
    then have "qs_ok {} (upd_task p f st)" by (intro qs_ok_cong [OF inv(2)]) auto
    with False inv(3) show ?thesis by (simp add: changed_def queue_ok_qs)
  qed
  then show "queue_ok (changed p f st)" "qtotal (queue (grq (changed p f st))) = qtotal (queue (grq st))"
    "(\<exists>i. q \<in> set (queue (grq (changed p f st)) i)) = (\<exists>i. q \<in> set (queue (grq st) i))" by blast+
qed

lemma sys_ok_changed:
  assumes "sys_ok st" and "p \<notin> idle_tasks st" and "on_cpu (f (tasks st p)) = on_cpu (tasks st p)"
    and "task_cpu (f (tasks st p)) = task_cpu (tasks st p)" and "pol_ok (f (tasks st p))"
    and "on_cpu (tasks st p) \<or> task_queued p st \<Longrightarrow> enq_ok (f (tasks st p)) \<and> 0 \<le> normal_prio (f (tasks st p))"
  shows "sys_ok (changed p f st)"
proof -
  let ?c = "changed p f st"
  note inv = sys_okD [OF assms(1)]
  note q = changed_queue [where f = f, OF assms(1,3)]
  have i: "idle_tasks ?c = idle_tasks st" "busy ?c C = busy st C" for C by (simp_all add: idle_tasks_def busy_def)
  have o: "on_cpu (tasks ?c q) = on_cpu (tasks st q)" "task_cpu (tasks ?c q) = task_cpu (tasks st q)"
    "q \<noteq> p \<Longrightarrow> tasks ?c q = tasks st q" for q
    using assms(3,4) by (simp_all add: changed_tasks)
  have ne: "idle (rqs st c) \<noteq> p" if "c \<in> cpu_online_map st" for c using that assms(2) by (auto simp: idle_tasks_def)
  have "idle_ok ?c" using inv(5) ne o(2,3) by (simp add: idle_ok_def idle_map_ok_def)
  moreover have "place_ok ?c" using inv(4) o(1,2) by (simp add: place_ok_def)
  moreover have "idle_map_running ?c" using inv(6) by (simp add: idle_map_running_def)
  moreover have "count_ok ?c" using inv(8) q(2) assms(6) by (simp add: count_ok_def i)
  moreover have pol: "pol_ok (tasks ?c p)"
    using assms(5,6) enqueued_ok(2) [of "f (tasks st p)"] by (simp add: changed_tasks)
  moreover have enq: "enq_ok (tasks ?c p) \<and> 0 \<le> normal_prio (tasks ?c p)" if "on_cpu (tasks st p) \<or> task_queued p st"
    using assms(5) assms(6) [OF that] enqueued_ok(1) [of "f (tasks st p)"] by (simp add: changed_tasks)
  have "prio_ok ?c"
    unfolding prio_ok_def i(1)
  proof (intro conjI allI impI)
    fix r assume "r \<notin> idle_tasks st"
    then show "pol_ok (tasks ?c r)" using pol inv(7) o(3) by (cases "r = p") (simp_all add: prio_ok_def)
  next
    fix r assume r: "r \<notin> idle_tasks st \<and> (on_cpu (tasks ?c r) \<or> (\<exists>i. r \<in> set (queue (grq ?c) i)))"
    then have s: "on_cpu (tasks st r) \<or> (\<exists>i. r \<in> set (queue (grq st) i))" using o(1) q(3) assms(6) by blast
    then have "r < TASK_LIMIT" "enq_ok (tasks st r)" "0 \<le> normal_prio (tasks st r)"
      using r inv(7) unfolding prio_ok_def by blast+
    then show "enq_ok (tasks ?c r)" "0 \<le> normal_prio (tasks ?c r)" "r < TASK_LIMIT"
      using enq s o(3) by (cases "r = p"; simp add: queued_iff [OF assms(1)])+
  qed
  ultimately show ?thesis using q(1) assms(6) by (simp add: sys_ok_def)
qed

lemma run_ok_changed:
  assumes "run_ok st" and "p \<notin> idle_tasks st" and "on_cpu (f (tasks st p)) = on_cpu (tasks st p)"
    and "task_cpu (f (tasks st p)) = task_cpu (tasks st p)" and "pol_ok (f (tasks st p))"
    and "on_cpu (tasks st p) \<or> task_queued p st \<Longrightarrow> enq_ok (f (tasks st p)) \<and> 0 \<le> normal_prio (f (tasks st p))"
    and "state (f (tasks st p)) = state (tasks st p)" and "tif_need_resched (f (tasks st p)) = tif_need_resched (tasks st p)"
  shows "run_ok (changed p f st)"
proof -
  note ok = run_okD [OF assms(1)]
  have c: "currents (changed p f st) C = currents st C" for C by (simp add: currents_def)
  have "flags_ok (changed p f st)"
    using ok(2) assms(8) by (simp add: flags_ok_def c flags_in_def changed_tasks)
  moreover have "parked_ok (changed p f st)"
  proof (rule parked_ok_step [OF ok(3)])
    fix q assume "state (tasks st q) = TASK_RUNNING" "\<not> on_cpu (tasks st q)" "\<And>i. q \<notin> set (queue (grq st) i)"
    then show "state (tasks (changed p f st) q) = TASK_RUNNING \<and> \<not> on_cpu (tasks (changed p f st) q) \<and>
        (\<forall>i. q \<notin> set (queue (grq (changed p f st)) i))"
      using assms(3,6,7) changed_queue(3) [where f = f and q = q, OF ok(1) assms(3)] by (auto simp: changed_tasks)
  qed (simp_all add: c idle_tasks_def)
  ultimately show ?thesis using sys_ok_changed [where f = f, OF ok(1) assms(2-6)] by (simp add: run_ok_def)
qed


lemma running_current:
  assumes "sys_ok st" and "on_cpu (tasks st p)"
  shows "p \<in> currents st UNIV"
proof -
  have "curr (rqs st (task_cpu (tasks st p))) = p" using sys_okD(4) [OF assms(1)] assms(2) by (simp add: place_ok_def)
  then show ?thesis unfolding currents_def by (metis rangeI)
qed

lemma run_ok_resched: "run_ok st \<Longrightarrow> p \<in> currents st UNIV \<Longrightarrow> run_ok (resched_task this p st)"
  using sys_ok_core [OF core_resched(1)] parked_ok_core [OF core_resched(1)] currents_core [OF core_resched(1)]
  by (simp add: run_ok_def flags_ok_def flags_in_resched)

lemma run_ok_try_preempt: "run_ok st \<Longrightarrow> run_ok (try_preempt this p c st)"
  using sys_ok_core [OF core_resched(6)] parked_ok_core [OF core_resched(6)] currents_core [OF core_resched(6)]
  by (simp add: run_ok_def flags_ok_def flags_in_try_preempt)

lemma run_ok_reset_rq_task [simp]: "run_ok (reset_rq_task c p st) = run_ok st"
  by (rule run_ok_core) (simp_all add: reset_rq_task_def core_upds)

lemma run_ok_update_clocks [simp]: "run_ok (update_clocks c st) = run_ok st"
  by (rule run_ok_core) simp_all


text \<open>The invariant does not speak of nice levels, affinities, deadlines and the like.\<close>

definition sys_core :: "task_struct \<Rightarrow> int \<times> bool \<times> int \<times> int \<times> int \<times> int \<times> cpu" where
  "sys_core t = (state t, on_cpu t, prio t, normal_prio t, rt_priority t, policy t, task_cpu t)"

lemma run_ok_upd_task:
  assumes "\<And>t. sys_core (f t) = sys_core t" and "\<And>t. tif_need_resched (f t) = tif_need_resched t"
  shows "run_ok (upd_task p f st) = run_ok st"
proof -
  have f: "state (f t) = state t" "on_cpu (f t) = on_cpu t" "prio (f t) = prio t" "normal_prio (f t) = normal_prio t"
    "task_cpu (f t) = task_cpu t" "policy (f t) = policy t" "rt_priority (f t) = rt_priority t" for t
    using assms(1) [of t] by (simp_all add: sys_core_def)
  let ?u = "upd_task p f st"
  have t: "state (tasks ?u q) = state (tasks st q)" "on_cpu (tasks ?u q) = on_cpu (tasks st q)" "prio (tasks ?u q) = prio (tasks st q)"
    "normal_prio (tasks ?u q) = normal_prio (tasks st q)" "task_cpu (tasks ?u q) = task_cpu (tasks st q)"
    "pol_ok (tasks ?u q) = pol_ok (tasks st q)" "enq_ok (tasks ?u q) = enq_ok (tasks st q)" for q
    by (simp_all add: f pol_ok_cong [of "f t" t for t] enq_ok_cong [of "f t" t for t])
  have i: "idle_tasks ?u = idle_tasks st" "busy ?u C = busy st C" "currents ?u C = currents st C" for C
    by (simp_all add: idle_tasks_def busy_def currents_def)
  have "queues_ok (queue (grq ?u)) (tasks ?u) = queues_ok (queue (grq st)) (tasks st)"
    by (simp add: queues_ok_def t del: upd_task_simps(1))
  then have "sys_ok ?u = sys_ok st"
    by (simp add: sys_ok_def sys_defs idle_map_ok_def queue_ok_def t i del: upd_task_simps(1))
  moreover have "parked_ok ?u = parked_ok st" by (simp add: parked_ok_def i t del: upd_task_simps(1))
  moreover have "flags_ok ?u = flags_ok st" by (simp add: flags_ok_def i flags_in_upd_task assms(2))
  ultimately show ?thesis by (simp add: run_ok_def)
qed

lemma currents_reset_rq_task [simp]: "currents (reset_rq_task c p st) C = currents st C"
  by (auto simp: currents_def reset_rq_task_def)

lemma task_okD:
  assumes "sys_ok st" and "p \<notin> idle_tasks st"
  shows "pol_ok (tasks st p)"
    and "on_cpu (tasks st p) \<or> task_queued p st \<Longrightarrow> enq_ok (tasks st p) \<and> 0 \<le> normal_prio (tasks st p)"
  using sys_okD(7) [OF assms(1)] assms queued_iff [OF assms(1), of p] by (auto simp: prio_ok_def)

lemma currents_changed [simp]: "currents (changed p f st) C = currents st C"
  by (simp add: currents_def)

lemma upd_task_upd_task [simp]: "upd_task p g (upd_task p f st) = upd_task p (\<lambda>t. g (f t)) st"
  by (simp add: upd_task_def)

lemma run_ok_upd_rq: "(\<And>r. curr (f r) = curr r \<and> idle (f r) = idle r) \<Longrightarrow> run_ok (upd_rq c f st) = run_ok st"
  by (rule run_ok_core) (simp_all add: core_upd_rq)

lemma run_ok_set_resched:
  assumes "run_ok st"
  shows "run_ok (upd_task (curr (rqs st c)) (\<lambda>t. t\<lparr>tif_need_resched := True\<rparr>) st)"
proof -
  let ?u = "upd_task (curr (rqs st c)) (\<lambda>t. t\<lparr>tif_need_resched := True\<rparr>) st"
  have c: "core ?u = core st" by (simp add: core_upds)
  show ?thesis
    using run_okD [OF assms] sys_ok_core [OF c] parked_ok_core [OF c] currents_core [OF c]
    by (auto simp: run_ok_def flags_ok_def currents_def intro!: flags_in_set)
qed

end
