(* ===== verification/Sched_Policy.thy ===== *)
theory Sched_Policy
  imports Sched_Change
begin

text \<open>
  Changing how a task is scheduled (\<open>kernel/sched_bfs.c\<close>, lines 4051 to 4621 and 4783 to 5065): priority
  inheritance, nice levels, scheduling policies with their permission checks, yielding, and the
  queries for priorities and time slices.  Every operation that touches a queued task takes it off
  its queue, changes it and queues it again; one lemma on this pattern gives the invariant of the
  scheduler for all of them.

  Credentials, limits, capabilities, the answers of the security modules, the process table and the
  waiters of rt-mutexes belong to other parts of the kernel: they are the fields of
  \<open>policy_env\<close>.
\<close>

record cred =
  cr_user_ns :: nat
  cr_uid :: int
  cr_euid :: int

record policy_env =
  capable_nice :: bool
  sighand_ok :: "tid \<Rightarrow> bool"
  rlimit_nice :: "tid \<Rightarrow> int"
  rlimit_rtprio :: "tid \<Rightarrow> int"
  creds :: "tid \<Rightarrow> cred"
  security_setnice :: "tid \<Rightarrow> int \<Rightarrow> int"
  security_setscheduler :: "tid \<Rightarrow> int"
  security_getscheduler :: "tid \<Rightarrow> int"
  find_task_by_vpid :: "int \<Rightarrow> tid option"
  top_pi_waiter :: "tid \<Rightarrow> int option"

text \<open>A pointer handed in from user space: null, not accessible, or to a value.\<close>

datatype 'a user_ptr = Null | Fault | Points 'a

section \<open>Priority inheritance\<close>

definition rt_mutex_getprio :: "policy_env \<Rightarrow> tid \<Rightarrow> kstate \<Rightarrow> int" where
  "rt_mutex_getprio e p st =
     (case top_pi_waiter e p of None \<Rightarrow> normal_prio (tasks st p) | Some x \<Rightarrow> min x (normal_prio (tasks st p)))"

definition rt_mutex_setprio :: "cpu \<Rightarrow> tid \<Rightarrow> int \<Rightarrow> kstate \<Rightarrow> kstate outcome" where
  "rt_mutex_setprio this p pr st =
     (if pr < 0 \<or> pr > MAX_PRIO then Oops
      else let c = task_cpu (tasks st p);
               oldprio = prio (tasks st p);
               queued = task_queued p st;
               st = (if queued then dequeue_task p st else st);
               st = upd_task p (\<lambda>t. t\<lparr>prio := pr\<rparr>) st;
               st = (if task_running p st \<and> pr > oldprio then resched_task this p st else st)
           in Returns (if queued then try_preempt this p c (enqueue_task p st) else st))"

section \<open>Nice levels\<close>

definition adjust_deadline :: "tid \<Rightarrow> int \<Rightarrow> kstate \<Rightarrow> kstate" where
  "adjust_deadline p new_prio st =
     upd_task p (\<lambda>t. t\<lparr>deadline := u64 (deadline t + (static_deadline_diff new_prio st - task_deadline_diff p st))\<rparr>) st"

definition set_user_nice :: "cpu \<Rightarrow> tid \<Rightarrow> int \<Rightarrow> kstate \<Rightarrow> kstate" where
  "set_user_nice this p nice st =
     (if task_nice (tasks st p) = nice \<or> nice < -20 \<or> nice > 19 then st
      else let new_static = NICE_TO_PRIO nice;
               c = task_cpu (tasks st p);
               st = update_clocks c st
           in if has_rt_policy (tasks st p) then upd_task p (\<lambda>t. t\<lparr>static_prio := new_static\<rparr>) st
              else let queued = task_queued p st;
                       st = (if queued then dequeue_task p st else st);
                       st = adjust_deadline p new_static st;
                       old_static = static_prio (tasks st p);
                       st = upd_task p (\<lambda>t. set_effective_prio (t\<lparr>static_prio := new_static\<rparr>)) st
                   in if queued then
                        let st = enqueue_task p st
                        in if new_static < old_static then try_preempt this p c st else st
                      else if task_running p st then
                        let st = reset_rq_task c p st
                        in if old_static < new_static then resched_task this p st else st
                      else st)"

definition can_nice :: "policy_env \<Rightarrow> tid \<Rightarrow> int \<Rightarrow> bool" where
  "can_nice e p nice \<longleftrightarrow> u64 (20 - nice) \<le> rlimit_nice e p \<or> capable_nice e"

definition sys_nice :: "policy_env \<Rightarrow> cpu \<Rightarrow> int \<Rightarrow> kstate \<Rightarrow> kstate \<times> int" where
  "sys_nice e this increment st =
     (let cur = curr (rqs st this);
          increment = (if increment < -40 then -40 else increment);
          increment = (if increment > 40 then 40 else increment);
          nice = task_nice (tasks st cur) + increment;
          nice = (if nice < -20 then -20 else nice);
          nice = (if nice > 19 then 19 else nice)
      in if increment < 0 \<and> \<not> can_nice e cur nice then (st, - EPERM)
         else if security_setnice e cur nice \<noteq> 0 then (st, security_setnice e cur nice)
         else (set_user_nice this cur nice st, 0))"

text \<open>The priority shown in \<open>/proc\<close>.  The 64-bit difference is cut to an \<open>int\<close>.\<close>

definition task_prio :: "tid \<Rightarrow> kstate \<Rightarrow> int" where
  "task_prio p st =
     (let pr = prio (tasks st p) - MAX_RT_PRIO
      in if pr \<le> 0 then pr
         else let delta = s32 (NS_TO_MS (u64 (deadline (tasks st p) - niffies (grq st))));
                  delta = cdiv (s32 (delta * 40)) (ms_longest_deadline_diff st);
                  pr = (if delta > 0 \<and> delta \<le> 80 then pr + delta else pr)
              in if idleprio_task (tasks st p) then pr + 40 else pr)"

definition idle_cpu :: "cpu \<Rightarrow> kstate \<Rightarrow> bool" where
  "idle_cpu c st \<longleftrightarrow> curr (rqs st c) = idle (rqs st c)"

definition idle_task :: "cpu \<Rightarrow> kstate \<Rightarrow> tid" where
  "idle_task c st = idle (rqs st c)"

section \<open>Policies\<close>

definition SCHED_RESET_ON_FORK :: int where [simp]: "SCHED_RESET_ON_FORK = 0x40000000"

definition SCHED_RANGE :: "int \<Rightarrow> bool" where
  "SCHED_RANGE pol \<longleftrightarrow> pol \<le> SCHED_IDLEPRIO"

definition find_process_by_pid :: "policy_env \<Rightarrow> cpu \<Rightarrow> int \<Rightarrow> kstate \<Rightarrow> tid option" where
  "find_process_by_pid e this n st = (if n \<noteq> 0 then find_task_by_vpid e n else Some (curr (rqs st this)))"

definition setscheduler_task :: "policy_env \<Rightarrow> cpu \<Rightarrow> tid \<Rightarrow> cpu \<Rightarrow> int \<Rightarrow> int \<Rightarrow> kstate \<Rightarrow> kstate" where
  "setscheduler_task e this p c pol pr st =
     (let st = upd_task p (\<lambda>t. t\<lparr>policy := pol\<rparr>) st;
          oldrtprio = rt_priority (tasks st p);
          st = upd_task p (\<lambda>t. t\<lparr>rt_priority := pr\<rparr>) st;
          st = upd_task p (\<lambda>t. t\<lparr>normal_prio := normal_prio_of t\<rparr>) st;
          oldprio = prio (tasks st p);
          st = upd_task p (\<lambda>t. t\<lparr>prio := rt_mutex_getprio e p st\<rparr>) st
      in if task_running p st then
           let st = reset_rq_task c p st
           in if prio (tasks st p) > oldprio \<or> rt_priority (tasks st p) > oldrtprio then resched_task this p st else st
         else st)"

definition check_same_owner :: "policy_env \<Rightarrow> tid \<Rightarrow> tid \<Rightarrow> bool" where
  "check_same_owner e cur p \<longleftrightarrow>
     (if cr_user_ns (creds e cur) = cr_user_ns (creds e p)
      then cr_euid (creds e cur) = cr_euid (creds e p) \<or> cr_euid (creds e cur) = cr_uid (creds e p)
      else False)"

text \<open>The entry of \<open>__sched_setscheduler\<close>: an error, or the policy and priority to check for.\<close>

definition setscheduler_entry :: "policy_env \<Rightarrow> cpu \<Rightarrow> tid \<Rightarrow> int \<Rightarrow> int \<Rightarrow> kstate \<Rightarrow> (int + int \<times> int) outcome" where
  "setscheduler_entry e this p pol pr st =
     (if irq_count (env st this) \<noteq> 0 then Oops
      else if is_rt_policy pol \<and> \<not> capable_nice e then
        (if \<not> sighand_ok e p then Returns (Inl (- ESRCH))
         else if rlimit_rtprio e p \<noteq> 0 then Returns (Inr (pol, pr))
         else Returns (Inr (SCHED_ISO, 0)))
      else Returns (Inr (pol, pr)))"

text \<open>What an unprivileged caller may do, by the old policy: Some 0 for nothing to do, Some error, or None to
  go on.\<close>

definition setscheduler_downgrade :: "int \<Rightarrow> int \<Rightarrow> int option" where
  "setscheduler_downgrade old pol =
     (if old = SCHED_ISO then
        (if pol = SCHED_ISO then Some 0 else if pol = SCHED_NORMAL then Some (- EPERM) else None)
      else if old = SCHED_BATCH then
        (if pol = SCHED_BATCH then Some 0 else if pol \<noteq> SCHED_IDLEPRIO then Some (- EPERM) else None)
      else if old = SCHED_IDLEPRIO then
        (if pol = SCHED_IDLEPRIO then Some 0 else Some (- EPERM))
      else None)"

definition setscheduler_unpriv :: "policy_env \<Rightarrow> tid \<Rightarrow> tid \<Rightarrow> int \<Rightarrow> int \<Rightarrow> bool \<Rightarrow> kstate \<Rightarrow> int option" where
  "setscheduler_unpriv e cur p pol pr reset st =
     (case (if is_rt_policy pol then
              (if pol \<noteq> policy (tasks st p) \<and> rlimit_rtprio e p = 0 then Some (- EPERM)
               else if pr > rt_priority (tasks st p) \<and> pr > rlimit_rtprio e p then Some (- EPERM)
               else None)
            else setscheduler_downgrade (policy (tasks st p)) pol) of
        Some r \<Rightarrow> Some r
      | None \<Rightarrow> if \<not> check_same_owner e cur p then Some (- EPERM)
                else if sched_reset_on_fork (tasks st p) \<and> \<not> reset then Some (- EPERM)
                else None)"

text \<open>The checks before the lock is taken: a value to return, or the policy, \<open>oldpolicy\<close> and the reset flag.\<close>

definition setscheduler_check ::
  "policy_env \<Rightarrow> bool \<Rightarrow> cpu \<Rightarrow> tid \<Rightarrow> int \<Rightarrow> int \<Rightarrow> kstate \<Rightarrow> int + int \<times> int \<times> bool" where
  "setscheduler_check e user this p pol pr st =
     (let reset = (if pol < 0 then sched_reset_on_fork (tasks st p) else pol AND SCHED_RESET_ON_FORK \<noteq> 0);
          oldpolicy = (if pol < 0 then policy (tasks st p) else -1);
          neg = (pol < 0);
          pol = (if pol < 0 then policy (tasks st p) else pol AND NOT SCHED_RESET_ON_FORK)
      in if \<not> neg \<and> \<not> SCHED_RANGE pol then Inl (- EINVAL)
         else if pr < 0 \<or> mm (tasks st p) \<noteq> None \<and> pr > MAX_USER_RT_PRIO - 1 \<or>
           mm (tasks st p) = None \<and> pr > MAX_RT_PRIO - 1 then Inl (- EINVAL)
         else if is_rt_policy pol \<noteq> (pr \<noteq> 0) then Inl (- EINVAL)
         else case (if user \<and> \<not> capable_nice e then setscheduler_unpriv e (curr (rqs st this)) p pol pr reset st else None) of
             Some r \<Rightarrow> Inl r
           | None \<Rightarrow> if user \<and> security_setscheduler e p \<noteq> 0 then Inl (security_setscheduler e p)
                     else Inr (pol, oldpolicy, reset))"

text \<open>The section under the run queue lock; None sends the caller back to the checks.\<close>

definition setscheduler_locked ::
  "policy_env \<Rightarrow> cpu \<Rightarrow> tid \<Rightarrow> int \<Rightarrow> int \<Rightarrow> int \<Rightarrow> bool \<Rightarrow> kstate \<Rightarrow> kstate \<times> int option" where
  "setscheduler_locked e this p pol pr oldpolicy reset st =
     (let c = task_cpu (tasks st p)
      in if rq_stop (rqs st c) = Some p then (st, Some (- EINVAL))
         else if pol = policy (tasks st p) \<and> (\<not> is_rt_policy pol \<or> pr = rt_priority (tasks st p)) then (st, Some 0)
         else if oldpolicy \<noteq> -1 \<and> oldpolicy \<noteq> policy (tasks st p) then (st, None)
         else let st = update_clocks c st;
                  st = upd_task p (\<lambda>t. t\<lparr>sched_reset_on_fork := reset\<rparr>) st;
                  queued = task_queued p st;
                  st = (if queued then dequeue_task p st else st);
                  st = setscheduler_task e this p c pol pr st
              in (if queued then try_preempt this p c (enqueue_task p st) else st, Some 0))"

text \<open>Other processors run between the checks and the locked section.  Each pair of the list holds the state
  a round checks against and the state in which it gets the lock; None means the rounds given were
  not enough.\<close>

fun setscheduler_rounds ::
  "policy_env \<Rightarrow> bool \<Rightarrow> cpu \<Rightarrow> tid \<Rightarrow> int \<Rightarrow> int \<Rightarrow> (kstate \<times> kstate) list \<Rightarrow> (kstate \<times> int) option" where
  "setscheduler_rounds e user this p pol pr [] = None"
| "setscheduler_rounds e user this p pol pr ((seen, locked) # obs) =
     (case setscheduler_check e user this p pol pr seen of
        Inl r \<Rightarrow> Some (seen, r)
      | Inr (pl, oldpolicy, reset) \<Rightarrow>
          (case setscheduler_locked e this p pl pr oldpolicy reset locked of
             (st, Some r) \<Rightarrow> Some (st, r)
           | (st, None) \<Rightarrow> setscheduler_rounds e user this p (-1) pr obs))"

definition sched_setscheduler_user ::
  "policy_env \<Rightarrow> bool \<Rightarrow> cpu \<Rightarrow> tid \<Rightarrow> int \<Rightarrow> int \<Rightarrow> kstate \<Rightarrow> (kstate \<times> kstate) list \<Rightarrow> (kstate \<times> int) outcome option" where
  "sched_setscheduler_user e user this p pol pr st obs =
     (case setscheduler_entry e this p pol pr st of
        Oops \<Rightarrow> Some Oops
      | Returns (Inl r) \<Rightarrow> Some (Returns (st, r))
      | Returns (Inr (pl, x)) \<Rightarrow> map_option Returns (setscheduler_rounds e user this p pl x obs))"

definition sched_setscheduler ::
  "policy_env \<Rightarrow> cpu \<Rightarrow> tid \<Rightarrow> int \<Rightarrow> int \<Rightarrow> kstate \<Rightarrow> (kstate \<times> kstate) list \<Rightarrow> (kstate \<times> int) outcome option" where
  "sched_setscheduler e this p pol pr st obs = sched_setscheduler_user e True this p pol pr st obs"

definition sched_setscheduler_nocheck ::
  "policy_env \<Rightarrow> cpu \<Rightarrow> tid \<Rightarrow> int \<Rightarrow> int \<Rightarrow> kstate \<Rightarrow> (kstate \<times> kstate) list \<Rightarrow> (kstate \<times> int) outcome option" where
  "sched_setscheduler_nocheck e this p pol pr st obs = sched_setscheduler_user e False this p pol pr st obs"

definition do_sched_setscheduler ::
  "policy_env \<Rightarrow> cpu \<Rightarrow> int \<Rightarrow> int \<Rightarrow> int user_ptr \<Rightarrow> kstate \<Rightarrow> (kstate \<times> kstate) list \<Rightarrow> (kstate \<times> int) outcome option" where
  "do_sched_setscheduler e this n pol par st obs =
     (if par = Null \<or> n < 0 then Some (Returns (st, - EINVAL))
      else case par of
          Points pr \<Rightarrow> (case find_process_by_pid e this n st of
              None \<Rightarrow> Some (Returns (st, - ESRCH))
            | Some p \<Rightarrow> sched_setscheduler e this p pol pr st obs)
        | _ \<Rightarrow> Some (Returns (st, - EFAULT)))"

definition sys_sched_setscheduler ::
  "policy_env \<Rightarrow> cpu \<Rightarrow> int \<Rightarrow> int \<Rightarrow> int user_ptr \<Rightarrow> kstate \<Rightarrow> (kstate \<times> kstate) list \<Rightarrow> (kstate \<times> int) outcome option" where
  "sys_sched_setscheduler e this n pol par st obs =
     (if pol < 0 then Some (Returns (st, - EINVAL)) else do_sched_setscheduler e this n pol par st obs)"

definition sys_sched_setparam ::
  "policy_env \<Rightarrow> cpu \<Rightarrow> int \<Rightarrow> int user_ptr \<Rightarrow> kstate \<Rightarrow> (kstate \<times> kstate) list \<Rightarrow> (kstate \<times> int) outcome option" where
  "sys_sched_setparam e this n par st obs = do_sched_setscheduler e this n (-1) par st obs"

definition sys_sched_getscheduler :: "policy_env \<Rightarrow> cpu \<Rightarrow> int \<Rightarrow> kstate \<Rightarrow> int" where
  "sys_sched_getscheduler e this n st =
     (if n < 0 then - EINVAL
      else case find_process_by_pid e this n st of
          None \<Rightarrow> - ESRCH
        | Some p \<Rightarrow> if security_getscheduler e p \<noteq> 0 then security_getscheduler e p else policy (tasks st p))"

text \<open>The second result is what is stored through the pointer.\<close>

definition sys_sched_getparam :: "policy_env \<Rightarrow> cpu \<Rightarrow> int \<Rightarrow> 'a user_ptr \<Rightarrow> kstate \<Rightarrow> int \<times> int option" where
  "sys_sched_getparam e this n par st =
     (if par = Null \<or> n < 0 then (- EINVAL, None)
      else case find_process_by_pid e this n st of
          None \<Rightarrow> (- ESRCH, None)
        | Some p \<Rightarrow> if security_getscheduler e p \<noteq> 0 then (security_getscheduler e p, None)
                    else if par = Fault then (- EFAULT, None) else (0, Some (rt_priority (tasks st p))))"

text \<open>Back to normal scheduling for every realtime and isochronous task (\<open>SysRq\<close>), in the order of the task list.\<close>

definition normalize_rt_task :: "policy_env \<Rightarrow> cpu \<Rightarrow> tid \<Rightarrow> kstate \<Rightarrow> kstate" where
  "normalize_rt_task e this p st =
     (if \<not> rt_task (tasks st p) \<and> \<not> iso_task (tasks st p) then st
      else let c = task_cpu (tasks st p);
               queued = task_queued p st;
               st = (if queued then dequeue_task p st else st);
               st = setscheduler_task e this p c SCHED_NORMAL 0 st
           in if queued then try_preempt this p c (enqueue_task p st) else st)"

definition normalize_rt_tasks :: "policy_env \<Rightarrow> cpu \<Rightarrow> tid list \<Rightarrow> kstate \<Rightarrow> kstate" where
  "normalize_rt_tasks e this threads st = fold (normalize_rt_task e this) threads st"

section \<open>Yielding\<close>

definition sched_yield_locked :: "cpu \<Rightarrow> kstate \<Rightarrow> kstate" where
  "sched_yield_locked this st =
     (let p = curr (rqs st this)
      in requeue_task p (upd_rq (task_cpu (tasks st p)) (\<lambda>r. r\<lparr>yld_count := u32 (yld_count r + 1)\<rparr>) st))"

definition sys_sched_yield :: "(tid \<Rightarrow> bool) \<Rightarrow> cpu \<Rightarrow> kstate \<Rightarrow> kstate outcome option" where
  "sys_sched_yield pa this st = schedule pa this (sched_yield_locked this st)"

definition yield :: "(tid \<Rightarrow> bool) \<Rightarrow> cpu \<Rightarrow> kstate \<Rightarrow> kstate outcome option" where
  "yield pa this st = sys_sched_yield pa this (upd_task (curr (rqs st this)) (\<lambda>t. t\<lparr>state := TASK_RUNNING\<rparr>) st)"

definition should_resched :: "(tid \<Rightarrow> bool) \<Rightarrow> cpu \<Rightarrow> kstate \<Rightarrow> bool" where
  "should_resched pa this st \<longleftrightarrow> tif_need_resched (tasks st (curr (rqs st this))) \<and> \<not> pa (curr (rqs st this))"

text \<open>\<open>up\<close> tells whether the system is running (\<open>system_state\<close>).\<close>

definition do_cond_resched :: "bool \<Rightarrow> (tid \<Rightarrow> bool) \<Rightarrow> cpu \<Rightarrow> kstate \<Rightarrow> kstate outcome option" where
  "do_cond_resched up pa this st =
     (if \<not> up then Some (Returns st) else schedule (pa(curr (rqs st this) := True)) this st)"

definition cond_resched :: "bool \<Rightarrow> (tid \<Rightarrow> bool) \<Rightarrow> cpu \<Rightarrow> kstate \<Rightarrow> kstate outcome option \<times> int" where
  "cond_resched up pa this st =
     (if should_resched pa this st then (do_cond_resched up pa this st, 1) else (Some (Returns st), 0))"

definition yield_to_locked :: "cpu \<Rightarrow> tid \<Rightarrow> kstate \<Rightarrow> kstate \<times> bool" where
  "yield_to_locked this p st =
     (if task_running p st \<or> state (tasks st p) \<noteq> 0 then (st, False)
      else let r = rqs st this;
               st = (if deadline (tasks st p) > rq_deadline r
                     then upd_task p (\<lambda>t. t\<lparr>deadline := rq_deadline r\<rparr>) st else st);
               st = upd_task p (\<lambda>t. t\<lparr>time_slice := s32 (time_slice t + rq_time_slice r)\<rparr>) st;
               st = upd_rq this (\<lambda>r. r\<lparr>rq_time_slice := 0\<rparr>) st;
               st = (if time_slice (tasks st p) > timeslice st
                     then upd_task p (\<lambda>t. t\<lparr>time_slice := timeslice st\<rparr>) st else st)
           in (upd_task (curr r) (\<lambda>t. t\<lparr>tif_need_resched := True\<rparr>) st, True))"

definition yield_to :: "(tid \<Rightarrow> bool) \<Rightarrow> cpu \<Rightarrow> tid \<Rightarrow> kstate \<Rightarrow> kstate outcome option \<times> bool" where
  "yield_to pa this p st =
     (case yield_to_locked this p st of
        (st, yielded) \<Rightarrow> (if yielded then schedule pa this st else Some (Returns st), yielded))"

text \<open>\<open>io_schedule\<close> up to its call of \<open>schedule()\<close>, and what the task does when it runs again; the run queue is the
  one of the processor it entered on.\<close>

definition io_schedule_enter :: "cpu \<Rightarrow> kstate \<Rightarrow> kstate" where
  "io_schedule_enter this st =
     upd_task (curr (rqs st this)) (\<lambda>t. t\<lparr>plugged := False, in_iowait := True\<rparr>)
       (upd_rq this (\<lambda>r. r\<lparr>rq_nr_iowait := s32 (rq_nr_iowait r + 1)\<rparr>) st)"

definition io_schedule_leave :: "cpu \<Rightarrow> tid \<Rightarrow> kstate \<Rightarrow> kstate" where
  "io_schedule_leave c p st =
     upd_rq c (\<lambda>r. r\<lparr>rq_nr_iowait := s32 (rq_nr_iowait r - 1)\<rparr>) (upd_task p (\<lambda>t. t\<lparr>in_iowait := False\<rparr>) st)"

section \<open>Priorities and time slices\<close>

definition sys_sched_get_priority_max :: "int \<Rightarrow> int" where
  "sys_sched_get_priority_max pol =
     (if pol = SCHED_FIFO \<or> pol = SCHED_RR then MAX_USER_RT_PRIO - 1
      else if pol = SCHED_NORMAL \<or> pol = SCHED_BATCH \<or> pol = SCHED_ISO \<or> pol = SCHED_IDLEPRIO then 0
      else - EINVAL)"

definition sys_sched_get_priority_min :: "int \<Rightarrow> int" where
  "sys_sched_get_priority_min pol =
     (if pol = SCHED_FIFO \<or> pol = SCHED_RR then 1
      else if pol = SCHED_NORMAL \<or> pol = SCHED_BATCH \<or> pol = SCHED_ISO \<or> pol = SCHED_IDLEPRIO then 0
      else - EINVAL)"

definition ns_to_timespec :: "int \<Rightarrow> int \<times> int" where
  "ns_to_timespec nsec =
     (if nsec = 0 then (0, 0)
      else let sec = cdiv nsec 1000000000; r = nsec - 1000000000 * sec
           in if r < 0 then (sec - 1, r + 1000000000) else (sec, r))"

definition sys_sched_rr_get_interval :: "policy_env \<Rightarrow> cpu \<Rightarrow> int \<Rightarrow> 'a user_ptr \<Rightarrow> kstate \<Rightarrow> int \<times> (int \<times> int) option" where
  "sys_sched_rr_get_interval e this n interval st =
     (if n < 0 then (- EINVAL, None)
      else case find_process_by_pid e this n st of
          None \<Rightarrow> (- ESRCH, None)
        | Some p \<Rightarrow> if security_getscheduler e p \<noteq> 0 then (security_getscheduler e p, None)
                    else let slice = (if policy (tasks st p) = SCHED_FIFO then 0 else u32 (MS_TO_NS (task_timeslice p st)))
                         in case interval of Points _ \<Rightarrow> (0, Some (ns_to_timespec slice)) | _ \<Rightarrow> (- EFAULT, None))"

section \<open>Preservation of the invariant\<close>

lemma rt_mutex_setprio_eq:
  assumes "sys_ok st" and "0 \<le> pr" and "pr \<le> MAX_PRIO"
  shows "rt_mutex_setprio this p pr st = Returns (let s = changed p (\<lambda>t. t\<lparr>prio := pr\<rparr>) st in
    if task_queued p st then try_preempt this p (task_cpu (tasks st p)) s
    else if on_cpu (tasks st p) \<and> pr > prio (tasks st p) then resched_task this p s else s)"
  using assms(2,3) queued_not_running' [OF assms(1), of p]
  by (auto simp: rt_mutex_setprio_def changed_def Let_def task_running_def)

lemma run_ok_setprio:
  assumes "run_ok st" and "p \<notin> idle_tasks st" and "rt_mutex_setprio this p pr st = Returns st'"
  shows "run_ok st'"
proof -
  have pr: "0 \<le> pr" "pr \<le> MAX_PRIO" using assms(3) by (auto simp: rt_mutex_setprio_def split: if_splits)
  note ok = run_okD(1) [OF assms(1)]
  let ?s = "changed p (\<lambda>t. t\<lparr>prio := pr\<rparr>) st"
  have "run_ok ?s"
    by (rule run_ok_changed [OF assms(1,2)])
      (use pr task_okD [OF ok assms(2)] in \<open>auto simp: pol_ok_def enq_ok_def has_rt_policy_def idleprio_task_def iso_task_def\<close>)
  moreover have "run_ok (resched_task this p ?s)" if "on_cpu (tasks st p)"
    by (rule run_ok_resched [OF calculation]) (simp add: running_current [OF ok that])
  ultimately show ?thesis
    using rt_mutex_setprio_eq [OF ok pr, of this p] assms(3) by (auto simp: Let_def run_ok_try_preempt)
qed

lemma deadline_diff_dequeue [simp]:
  "static_deadline_diff n (dequeue_task p st) = static_deadline_diff n st" "task_deadline_diff q (dequeue_task p st) = task_deadline_diff q st"
  by (simp_all add: static_deadline_diff_def task_deadline_diff_def prio_deadline_diff_def)

definition reniced :: "int \<Rightarrow> int \<Rightarrow> task_struct \<Rightarrow> task_struct" where
  "reniced nice diff t = set_effective_prio (t\<lparr>deadline := u64 (deadline t + diff), static_prio := NICE_TO_PRIO nice\<rparr>)"

lemma set_user_nice_eq:
  assumes "sys_ok st" and "task_nice (tasks st p) \<noteq> nice" and "-20 \<le> nice" and "nice \<le> 19"
  shows "set_user_nice this p nice st =
    (let c = task_cpu (tasks st p); u = update_clocks c st;
         s = changed p (reniced nice (static_deadline_diff (NICE_TO_PRIO nice) u - task_deadline_diff p u)) u;
         old = static_prio (tasks st p)
     in if has_rt_policy (tasks st p) then upd_task p (\<lambda>t. t\<lparr>static_prio := NICE_TO_PRIO nice\<rparr>) u
        else if task_queued p st then (if NICE_TO_PRIO nice < old then try_preempt this p c s else s)
        else if on_cpu (tasks st p)
        then (if old < NICE_TO_PRIO nice then resched_task this p (reset_rq_task c p s) else reset_rq_task c p s)
        else s)"
proof -
  have q: "task_queued p (update_clocks c st) = task_queued p st" for c by (simp add: task_queued_def)
  have nice: "(task_nice (tasks st p) = nice \<or> nice < -20 \<or> nice > 19) = False" using assms(2-4) by simp
  note d = set_user_nice_def changed_def task_running_def adjust_deadline_def reniced_def [abs_def] q
  consider (rt) "has_rt_policy (tasks st p)" | (queued) "\<not> has_rt_policy (tasks st p)" "task_queued p st" "\<not> on_cpu (tasks st p)"
    | (other) "\<not> has_rt_policy (tasks st p)" "\<not> task_queued p st"
    using queued_not_running' [OF assms(1), of p] by blast
  then show ?thesis
  proof cases
    case rt
    then show ?thesis by (simp add: d nice Let_def)
  next
    case queued
    then show ?thesis by (simp add: d nice Let_def)
  next
    case other
    then show ?thesis by (simp add: d nice Let_def)
  qed
qed

lemma reniced_simps [simp]:
  "on_cpu (reniced n d t) = on_cpu t" "task_cpu (reniced n d t) = task_cpu t" "state (reniced n d t) = state t"
  "tif_need_resched (reniced n d t) = tif_need_resched t" "policy (reniced n d t) = policy t"
  "static_prio (reniced n d t) = NICE_TO_PRIO n" "deadline (reniced n d t) = u64 (deadline t + d)"
  by (simp_all add: reniced_def set_effective_prio_def effective_prio_def Let_def)

lemma reniced_ok:
  assumes "pol_ok t"
  shows "pol_ok (reniced n d t)" "enq_ok (reniced n d t)" "0 \<le> normal_prio (reniced n d t)"
proof -
  let ?u = "t\<lparr>deadline := u64 (deadline t + d), static_prio := NICE_TO_PRIO n\<rparr>"
  have u: "pol_ok ?u" using assms by (simp add: pol_ok_def has_rt_policy_def)
  show "enq_ok (reniced n d t)" unfolding reniced_def by (rule set_effective_prio_enq_ok [OF u])
  show "pol_ok (reniced n d t)" "0 \<le> normal_prio (reniced n d t)"
    using u normal_prio_of_range [OF u] unfolding reniced_def
    by (simp_all add: pol_ok_def set_effective_prio_prio has_rt_policy_def)
qed

lemma run_ok_set_user_nice:
  assumes "run_ok st" and "p \<notin> idle_tasks st"
  shows "run_ok (set_user_nice this p nice st)"
proof (cases "task_nice (tasks st p) = nice \<or> nice < -20 \<or> nice > 19")
  case True
  then show ?thesis using assms(1) by (auto simp: set_user_nice_def)
next
  case False
  define u where "u = update_clocks (task_cpu (tasks st p)) st"
  have u: "run_ok u" "p \<notin> idle_tasks u" using assms by (simp_all add: u_def idle_tasks_def)
  note ok = run_okD(1) [OF u(1)]
  have s: "run_ok (changed p (reniced nice d) u)" for d
    by (rule run_ok_changed [OF u]) (simp_all add: reniced_ok task_okD(1) [OF ok u(2)])
  moreover have "run_ok (resched_task this p (reset_rq_task c p (changed p (reniced nice d) u)))" if "on_cpu (tasks u p)" for c d
    using running_current [OF ok that] s by (intro run_ok_resched) simp_all
  moreover have "run_ok (upd_task p (\<lambda>t. t\<lparr>static_prio := n\<rparr>) u)" for n
    using u(1) by (simp add: run_ok_upd_task sys_core_def)
  ultimately show ?thesis
    using False set_user_nice_eq [OF run_okD(1) [OF assms(1)], of p nice this] unfolding u_def
    by (auto simp: Let_def run_ok_try_preempt)
qed

definition setscheduled :: "policy_env \<Rightarrow> tid \<Rightarrow> int \<Rightarrow> int \<Rightarrow> task_struct \<Rightarrow> task_struct" where
  "setscheduled e p pol pr t =
     (let t = t\<lparr>policy := pol, rt_priority := pr\<rparr>; n = normal_prio_of t
      in t\<lparr>normal_prio := n, prio := (case top_pi_waiter e p of None \<Rightarrow> n | Some x \<Rightarrow> min x n)\<rparr>)"

lemma setscheduled_simps [simp]:
  "on_cpu (setscheduled e p pol pr t) = on_cpu t" "task_cpu (setscheduled e p pol pr t) = task_cpu t"
  "state (setscheduled e p pol pr t) = state t" "tif_need_resched (setscheduled e p pol pr t) = tif_need_resched t"
  "policy (setscheduled e p pol pr t) = pol" "rt_priority (setscheduled e p pol pr t) = pr"
  "sched_reset_on_fork (setscheduled e p pol pr t) = sched_reset_on_fork t"
  by (simp_all add: setscheduled_def Let_def)

definition waiters_ok :: "policy_env \<Rightarrow> bool" where
  "waiters_ok e \<longleftrightarrow> (\<forall>p x. top_pi_waiter e p = Some x \<longrightarrow> 0 \<le> x)"

lemma setscheduled_ok:
  assumes "waiters_ok e" and "0 \<le> pr" and "pr \<le> 100"
  shows "pol_ok (setscheduled e p pol pr t)" "enq_ok (setscheduled e p pol pr t)" "0 \<le> normal_prio (setscheduled e p pol pr t)"
  using assms
  by (auto simp: setscheduled_def Let_def pol_ok_def enq_ok_def normal_prio_of_def has_rt_policy_def idleprio_task_def
      iso_task_def is_rt_policy_def waiters_ok_def split: option.split)

lemma setscheduler_task_eq:
  "setscheduler_task e this p c pol pr st =
     (let s = upd_task p (setscheduled e p pol pr) st
      in if on_cpu (tasks st p) then
           (if prio (tasks s p) > prio (tasks st p) \<or> pr > rt_priority (tasks st p)
            then resched_task this p (reset_rq_task c p s) else reset_rq_task c p s)
         else s)"
proof -
  have m: "rt_mutex_getprio e p (upd_task p (\<lambda>t. t\<lparr>policy := pol, rt_priority := pr,
      normal_prio := normal_prio_of (t\<lparr>policy := pol, rt_priority := pr\<rparr>)\<rparr>) st) = prio (setscheduled e p pol pr (tasks st p))"
    by (simp add: rt_mutex_getprio_def setscheduled_def Let_def split: option.split)
  have g: "upd_task p (\<lambda>t. t\<lparr>policy := pol, rt_priority := pr, normal_prio := normal_prio_of (t\<lparr>policy := pol, rt_priority := pr\<rparr>),
      prio := prio (setscheduled e p pol pr (tasks st p))\<rparr>) st = upd_task p (setscheduled e p pol pr) st"
    by (simp add: upd_task_def setscheduled_def Let_def)
  have r: "tasks (reset_rq_task c p s) = tasks s" for s by (simp add: reset_rq_task_def)
  show ?thesis
    unfolding setscheduler_task_def Let_def upd_task_upd_task m g task_running_def r by simp
qed

definition setscheduler_requeue :: "policy_env \<Rightarrow> cpu \<Rightarrow> tid \<Rightarrow> int \<Rightarrow> int \<Rightarrow> kstate \<Rightarrow> kstate" where
  "setscheduler_requeue e this p pol pr st =
     (let c = task_cpu (tasks st p); s = changed p (setscheduled e p pol pr) st
      in if task_queued p st then try_preempt this p c s
         else if on_cpu (tasks st p) then
           (if prio (tasks s p) > prio (tasks st p) \<or> pr > rt_priority (tasks st p)
            then resched_task this p (reset_rq_task c p s) else reset_rq_task c p s)
         else s)"

lemma setscheduler_requeue_eq:
  assumes "sys_ok st"
  shows "(if task_queued p st
      then try_preempt this p (task_cpu (tasks st p))
        (enqueue_task p (setscheduler_task e this p (task_cpu (tasks st p)) pol pr (if task_queued p st then dequeue_task p st else st)))
      else setscheduler_task e this p (task_cpu (tasks st p)) pol pr (if task_queued p st then dequeue_task p st else st)) =
    setscheduler_requeue e this p pol pr st"
proof (cases "task_queued p st")
  case True
  then show ?thesis
    using queued_not_running' [OF assms True] by (simp add: setscheduler_requeue_def changed_def setscheduler_task_eq Let_def)
next
  case False
  then show ?thesis by (simp add: setscheduler_requeue_def changed_def setscheduler_task_eq Let_def)
qed

lemma run_ok_setscheduler_requeue:
  assumes "run_ok st" and "p \<notin> idle_tasks st" and "waiters_ok e" and "0 \<le> pr" and "pr \<le> 100"
  shows "run_ok (setscheduler_requeue e this p pol pr st)"
proof -
  let ?s = "changed p (setscheduled e p pol pr) st"
  have s: "run_ok ?s"
    by (rule run_ok_changed [OF assms(1,2)]) (simp_all add: setscheduled_ok [OF assms(3-5)])
  have "run_ok (resched_task this p (reset_rq_task c p ?s))" if "on_cpu (tasks st p)" for c
    using running_current [OF run_okD(1) [OF assms(1)] that] s by (intro run_ok_resched) simp_all
  then show ?thesis using s by (simp add: setscheduler_requeue_def Let_def run_ok_try_preempt)
qed

lemma setscheduler_locked_eq:
  assumes "sys_ok st"
  shows "setscheduler_locked e this p pol pr oldpolicy reset st =
    (if rq_stop (rqs st (task_cpu (tasks st p))) = Some p then (st, Some (- EINVAL))
     else if pol = policy (tasks st p) \<and> (\<not> is_rt_policy pol \<or> pr = rt_priority (tasks st p)) then (st, Some 0)
     else if oldpolicy \<noteq> -1 \<and> oldpolicy \<noteq> policy (tasks st p) then (st, None)
     else (setscheduler_requeue e this p pol pr
       (upd_task p (\<lambda>t. t\<lparr>sched_reset_on_fork := reset\<rparr>) (update_clocks (task_cpu (tasks st p)) st)), Some 0))"
proof -
  define u where "u = upd_task p (\<lambda>t. t\<lparr>sched_reset_on_fork := reset\<rparr>) (update_clocks (task_cpu (tasks st p)) st)"
  have "core u = core st" by (simp add: u_def core_upds)
  from sys_ok_core [OF this] have "sys_ok u" using assms by simp
  moreover have "task_cpu (tasks u p) = task_cpu (tasks st p)" by (simp add: u_def)
  ultimately have r: "(if task_queued p u then try_preempt this p (task_cpu (tasks st p))
        (enqueue_task p (setscheduler_task e this p (task_cpu (tasks st p)) pol pr (if task_queued p u then dequeue_task p u else u)))
      else setscheduler_task e this p (task_cpu (tasks st p)) pol pr (if task_queued p u then dequeue_task p u else u)) =
    setscheduler_requeue e this p pol pr u"
    using setscheduler_requeue_eq [of u p this e pol pr] by (simp only:)
  show ?thesis unfolding setscheduler_locked_def Let_def u_def [symmetric] r ..
qed

lemma run_ok_setscheduler_locked:
  assumes "run_ok st" and "p \<notin> idle_tasks st" and "waiters_ok e" and "0 \<le> pr" and "pr \<le> 100"
  shows "run_ok (fst (setscheduler_locked e this p pol pr oldpolicy reset st))"
proof -
  let ?u = "upd_task p (\<lambda>t. t\<lparr>sched_reset_on_fork := reset\<rparr>) (update_clocks (task_cpu (tasks st p)) st)"
  have "run_ok ?u" using assms(1) by (simp add: run_ok_upd_task sys_core_def)
  moreover have "p \<notin> idle_tasks ?u" using assms(2) by (simp add: idle_tasks_def)
  ultimately show ?thesis
    using assms run_ok_setscheduler_requeue [of ?u p e pr this pol] by (simp add: setscheduler_locked_eq run_okD(1))
qed

lemma setscheduler_check_prio:
  "setscheduler_check e user this p pol pr st = Inr r \<Longrightarrow> 0 \<le> pr \<and> pr \<le> 100 \<and> (is_rt_policy (fst r) \<longleftrightarrow> pr \<noteq> 0)"
  by (auto simp: setscheduler_check_def Let_def split: if_split_asm option.split_asm)

lemma run_ok_setscheduler_rounds:
  assumes "waiters_ok e" and "\<forall>(s, l) \<in> set obs. run_ok s \<and> run_ok l \<and> p \<notin> idle_tasks l"
    and "setscheduler_rounds e user this p pol pr obs = Some (st', r)"
  shows "run_ok st'"
  using assms(2,3)
proof (induction obs arbitrary: pol)
  case (Cons o1 obs)
  obtain s l where sl: "o1 = (s, l)" by (cases o1)
  show ?case
  proof (cases "setscheduler_check e user this p pol pr s")
    case (Inl x)
    then show ?thesis using Cons.prems sl by auto
  next
    case (Inr v)
    obtain pl opol rs where v: "v = (pl, opol, rs)" by (cases v)
    obtain s1 x where sx: "setscheduler_locked e this p pl pr opol rs l = (s1, x)" by fastforce
    have "run_ok s1"
      using run_ok_setscheduler_locked [of l p e pr this pl opol rs] Cons.prems(1) sl setscheduler_check_prio [OF Inr] assms(1) sx
      by simp
    then show ?thesis using Cons.prems Cons.IH [of "-1"] Inr v sx sl by (cases x) auto
  qed
qed simp

section \<open>What a change of policy achieves\<close>

lemma requeue_frame:
  "policy (tasks (setscheduler_requeue e this p pol pr st) q) = (if q = p then pol else policy (tasks st q))"
  "rt_priority (tasks (setscheduler_requeue e this p pol pr st) q) = (if q = p then pr else rt_priority (tasks st q))"
  "curr (rqs (setscheduler_requeue e this p pol pr st) c) = curr (rqs st c)"
proof -
  let ?s = "changed p (setscheduled e p pol pr) st"
  have c: "core (setscheduler_requeue e this p pol pr st) = core ?s"
    by (simp add: setscheduler_requeue_def Let_def reset_rq_task_def core_upds)
  show "policy (tasks (setscheduler_requeue e this p pol pr st) q) = (if q = p then pol else policy (tasks st q))"
    "rt_priority (tasks (setscheduler_requeue e this p pol pr st) q) = (if q = p then pr else rt_priority (tasks st q))"
    "curr (rqs (setscheduler_requeue e this p pol pr st) c) = curr (rqs st c)"
    unfolding coreD [OF c] by (simp_all add: changed_tasks)
qed

lemma setscheduler_quiet:
  assumes "sys_ok st"
  shows "setscheduler_rounds e user this p pol pr [(st, st)] =
    (case setscheduler_check e user this p pol pr st of
       Inl r \<Rightarrow> Some (st, r)
     | Inr (pl, opol, reset) \<Rightarrow>
         Some (if rq_stop (rqs st (task_cpu (tasks st p))) = Some p then (st, - EINVAL)
           else if pl = policy (tasks st p) \<and> (\<not> is_rt_policy pl \<or> pr = rt_priority (tasks st p)) then (st, 0)
           else (setscheduler_requeue e this p pl pr
             (upd_task p (\<lambda>t. t\<lparr>sched_reset_on_fork := reset\<rparr>) (update_clocks (task_cpu (tasks st p)) st)), 0)))"
proof (cases "setscheduler_check e user this p pol pr st")
  case (Inr v)
  obtain pl opol reset where v: "v = (pl, opol, reset)" by (cases v)
  have "opol = -1 \<or> opol = policy (tasks st p)"
    using Inr v by (auto simp: setscheduler_check_def Let_def split: if_splits option.splits)
  then show ?thesis using Inr v by (auto simp: setscheduler_locked_eq [OF assms])
qed simp


definition base_policy :: "int \<Rightarrow> int" where
  "base_policy pol = pol AND NOT SCHED_RESET_ON_FORK"

lemma base_policy_nonneg: "0 \<le> pol \<Longrightarrow> 0 \<le> base_policy pol"
  by (simp add: base_policy_def)

text \<open>C26. Setting and reading back: a privileged caller that passes a valid policy (with or without the flag for
  the reset on fork) and a priority that fits it succeeds, and reads back exactly the policy and, for a
  realtime policy, the priority it has set.\<close>
theorem setscheduler_getscheduler:
  assumes "sys_ok st" and "capable_nice e" and "irq_count (env st this) = 0" and "0 \<le> pol" and "SCHED_RANGE (base_policy pol)"
    and "0 \<le> pr" and "pr < MAX_USER_RT_PRIO" and "is_rt_policy (base_policy pol) \<longleftrightarrow> pr \<noteq> 0"
    and "0 < n" and "find_task_by_vpid e n = Some p" and "rq_stop (rqs st (task_cpu (tasks st p))) \<noteq> Some p"
    and "security_setscheduler e p = 0" and "security_getscheduler e p = 0"
  shows "\<exists>st'. sys_sched_setscheduler e this n pol (Points pr) st [(st, st)] = Some (Returns (st', 0)) \<and>
    sys_sched_getscheduler e this n st' = base_policy pol \<and>
    (is_rt_policy (base_policy pol) \<longrightarrow> sys_sched_getparam e this n (Points ()) st' = (0, Some pr))"
proof -
  have c: "setscheduler_check e True this p pol pr st = Inr (base_policy pol, -1, pol AND SCHED_RESET_ON_FORK \<noteq> 0)"
    using assms by (auto simp: setscheduler_check_def Let_def base_policy_def)
  let ?s = "setscheduler_requeue e this p (base_policy pol) pr
    (upd_task p (\<lambda>t. t\<lparr>sched_reset_on_fork := (pol AND SCHED_RESET_ON_FORK \<noteq> 0)\<rparr>) (update_clocks (task_cpu (tasks st p)) st))"
  let ?st = "if base_policy pol = policy (tasks st p) \<and> (\<not> is_rt_policy (base_policy pol) \<or> pr = rt_priority (tasks st p)) then st else ?s"
  have "sys_sched_setscheduler e this n pol (Points pr) st [(st, st)] = Some (Returns (?st, 0))"
    using assms(2-4,9-11) setscheduler_quiet [OF assms(1), of e True this p pol pr] c
    by (auto simp: sys_sched_setscheduler_def do_sched_setscheduler_def find_process_by_pid_def sched_setscheduler_def
        sched_setscheduler_user_def setscheduler_entry_def)
  moreover have "policy (tasks ?st p) = base_policy pol" "is_rt_policy (base_policy pol) \<Longrightarrow> rt_priority (tasks ?st p) = pr"
    by (auto simp: requeue_frame)
  ultimately show ?thesis
    using assms(9,10,13) by (intro exI [of _ ?st]) (simp add: sys_sched_getscheduler_def sys_sched_getparam_def find_process_by_pid_def)
qed

definition env0 :: policy_env where
  "env0 = \<lparr>capable_nice = False, sighand_ok = (\<lambda>_. True), rlimit_nice = (\<lambda>_. 0), rlimit_rtprio = (\<lambda>_. 0),
     creds = (\<lambda>_. \<lparr>cr_user_ns = 0, cr_uid = 1000, cr_euid = 1000\<rparr>), security_setnice = (\<lambda>_ _. 0),
     security_setscheduler = (\<lambda>_. 0), security_getscheduler = (\<lambda>_. 0), find_task_by_vpid = (\<lambda>n. Some (nat n)),
     top_pi_waiter = (\<lambda>_. None)\<rparr>"

lemma one_cpu_env [simp]: "env one_cpu c = env zero_kstate c"
  by (simp add: one_cpu_def)

theorem setscheduler_getscheduler_witness:
  "\<exists>st'. sys_sched_setscheduler (env0\<lparr>capable_nice := True\<rparr>) 0 7 0x40000001 (Points 50) one_cpu [(one_cpu, one_cpu)] = Some (Returns (st', 0)) \<and>
    sys_sched_getscheduler (env0\<lparr>capable_nice := True\<rparr>) 0 7 st' = 1 \<and>
    sys_sched_getparam (env0\<lparr>capable_nice := True\<rparr>) 0 7 (Points ()) st' = (0, Some 50)"
proof -
  have b: "base_policy 0x40000001 = 1" by (simp add: base_policy_def)
  then show ?thesis
    using setscheduler_getscheduler [OF run_okD(1) [OF one_cpu_ok(1)], of "env0\<lparr>capable_nice := True\<rparr>" 0 "0x40000001" 50 7 7]
    by (simp add: env0_def SCHED_RANGE_def is_rt_policy_def zero_kstate_def zero_rq_def)
qed








text \<open>\<open>sched_setscheduler_nocheck\<close>, which is documented not to care for permissions, does: when the current
  task has neither the capability nor the target a realtime limit, a request for a realtime policy
  succeeds and leaves the target isochronous with priority 0.\<close>
theorem setscheduler_nocheck_downgrades:
  assumes "sys_ok st" and "\<not> capable_nice e" and "rlimit_rtprio e p = 0" and "sighand_ok e p" and "irq_count (env st this) = 0"
    and "is_rt_policy pol" and "policy (tasks st p) \<noteq> SCHED_ISO" and "rq_stop (rqs st (task_cpu (tasks st p))) \<noteq> Some p"
  shows "\<exists>st'. sched_setscheduler_nocheck e this p pol pr st [(st, st)] = Some (Returns (st', 0)) \<and>
    policy (tasks st' p) = SCHED_ISO \<and> rt_priority (tasks st' p) = 0"
proof -
  have "setscheduler_check e False this p SCHED_ISO 0 st = Inr (SCHED_ISO, -1, False)"
    by (simp add: setscheduler_check_def SCHED_RANGE_def is_rt_policy_def Let_def)
  then show ?thesis
    using assms setscheduler_quiet [OF assms(1), of e False this p SCHED_ISO 0]
    by (auto simp: sched_setscheduler_nocheck_def sched_setscheduler_user_def setscheduler_entry_def requeue_frame)
qed

theorem setscheduler_nocheck_downgrades_witness:
  "\<exists>st'. sched_setscheduler_nocheck env0 0 7 SCHED_FIFO 50 one_cpu [(one_cpu, one_cpu)] = Some (Returns (st', 0)) \<and>
    policy (tasks st' 7) = SCHED_ISO \<and> rt_priority (tasks st' 7) = 0"
  using setscheduler_nocheck_downgrades [OF run_okD(1) [OF one_cpu_ok(1)], of env0 7 0 SCHED_FIFO 50]
  by (simp add: env0_def zero_kstate_def zero_task_def zero_rq_def is_rt_policy_def)

text \<open>The checks are made before the lock is taken and, for a named policy, are not repeated: a task that another
  caller moves to the idle policy in between leaves it again by a request that would have been refused.\<close>

theorem setscheduler_race:
  assumes "sys_ok l" and "\<not> capable_nice e" and "check_same_owner e (curr (rqs s this)) p" and "security_setscheduler e p = 0"
    and "policy (tasks s p) = SCHED_NORMAL" and "\<not> sched_reset_on_fork (tasks s p)"
    and "policy (tasks l p) = SCHED_IDLEPRIO" and "rq_stop (rqs l (task_cpu (tasks l p))) \<noteq> Some p"
  shows "\<exists>st'. setscheduler_rounds e True this p SCHED_ISO 0 [(s, l)] = Some (st', 0) \<and> policy (tasks st' p) = SCHED_ISO \<and>
    setscheduler_rounds e True this p SCHED_ISO 0 [(l, l)] = Some (l, - EPERM)"
proof -
  have "setscheduler_check e True this p SCHED_ISO 0 s = Inr (SCHED_ISO, -1, False)"
    using assms by (simp add: setscheduler_check_def SCHED_RANGE_def is_rt_policy_def Let_def setscheduler_unpriv_def
        setscheduler_downgrade_def)
  moreover have "setscheduler_check e True this p SCHED_ISO 0 l = Inl (- EPERM)"
    using assms by (simp add: setscheduler_check_def SCHED_RANGE_def is_rt_policy_def Let_def setscheduler_unpriv_def
        setscheduler_downgrade_def)
  ultimately show ?thesis
    using assms(7,8) by (simp add: setscheduler_locked_eq [OF assms(1)] requeue_frame)
qed

text \<open>A request that names the policy the task already has returns success without looking at the flag for
  the reset on fork.\<close>

theorem setscheduler_ignores_reset_flag:
  assumes "sys_ok st" and "capable_nice e" and "security_setscheduler e p = 0" and "policy (tasks st p) = SCHED_NORMAL"
    and "rq_stop (rqs st (task_cpu (tasks st p))) \<noteq> Some p"
  shows "setscheduler_rounds e True this p SCHED_RESET_ON_FORK 0 [(st, st)] = Some (st, 0)"
  using assms setscheduler_quiet [OF assms(1), of e True this p SCHED_RESET_ON_FORK 0]
  by (simp add: setscheduler_check_def SCHED_RANGE_def is_rt_policy_def Let_def)

section \<open>Nice levels\<close>

lemma set_user_nice_task:
  assumes "sys_ok st" and "\<not> has_rt_policy (tasks st p)" and "task_nice (tasks st p) \<noteq> nice" and "-20 \<le> nice" and "nice \<le> 19"
  shows "static_prio (tasks (set_user_nice this p nice st) p) = NICE_TO_PRIO nice"
    and "policy (tasks (set_user_nice this p nice st) p) = policy (tasks st p)"
    and "deadline (tasks (set_user_nice this p nice st) p) =
      u64 (deadline (tasks st p) + (static_deadline_diff (NICE_TO_PRIO nice) st - task_deadline_diff p st))"
    and "static_deadline_diff n (set_user_nice this p nice st) = static_deadline_diff n st"
proof -
  let ?c = "task_cpu (tasks st p)"
  define s where "s = changed p (reniced nice (static_deadline_diff (NICE_TO_PRIO nice) st - task_deadline_diff p st)) (update_clocks ?c st)"
  have u: "static_deadline_diff n (update_clocks ?c st) = static_deadline_diff n st"
    "task_deadline_diff p (update_clocks ?c st) = task_deadline_diff p st" for n
    by (simp_all add: static_deadline_diff_def task_deadline_diff_def prio_deadline_diff_def)
  have r: "resched_frame s (set_user_nice this p nice st) \<or> resched_frame (reset_rq_task ?c p s) (set_user_nice this p nice st)"
    using assms(2) set_user_nice_eq [OF assms(1,3-5), of this]
    by (auto simp: Let_def u s_def intro: try_preempt_frame resched_task_frame)
  have t: "tasks (reset_rq_task ?c p s) = tasks s" "rr_interval (reset_rq_task ?c p s) = rr_interval s"
    "prio_ratios (reset_rq_task ?c p s) = prio_ratios s" by (simp_all add: reset_rq_task_def)
  let ?n = "set_user_nice this p nice st"
  have g: "static_prio (tasks ?n p) = static_prio (tasks s p) \<and> policy (tasks ?n p) = policy (tasks s p) \<and>
    deadline (tasks ?n p) = deadline (tasks s p) \<and> rr_interval ?n = rr_interval s \<and> prio_ratios ?n = prio_ratios s"
    if "resched_frame y ?n" "tasks y = tasks s" "rr_interval y = rr_interval s" "prio_ratios y = prio_ratios s" for y
    using that(2-4) by (simp add: resched_frameD(7,8,14,16,20) [OF that(1)])
  have f: "static_prio (tasks ?n p) = static_prio (tasks s p)" "policy (tasks ?n p) = policy (tasks s p)"
    "deadline (tasks ?n p) = deadline (tasks s p)" "rr_interval ?n = rr_interval s" "prio_ratios ?n = prio_ratios s"
    using r g [of s] g [of "reset_rq_task ?c p s"] t by blast+
  have "rr_interval s = rr_interval st" "prio_ratios s = prio_ratios st" by (simp_all add: s_def changed_def)
  then show "static_deadline_diff n (set_user_nice this p nice st) = static_deadline_diff n st"
    by (simp add: static_deadline_diff_def prio_deadline_diff_def f)
  show "static_prio (tasks (set_user_nice this p nice st) p) = NICE_TO_PRIO nice"
    "policy (tasks (set_user_nice this p nice st) p) = policy (tasks st p)"
    "deadline (tasks (set_user_nice this p nice st) p) =
      u64 (deadline (tasks st p) + (static_deadline_diff (NICE_TO_PRIO nice) st - task_deadline_diff p st))"
    unfolding f by (simp_all add: s_def changed_tasks)
qed

text \<open>Renicing moves the deadline of a task by exactly the difference of the two distances, and taking it back
  restores it: after a change to any other nice level and back, nice level and deadline are the old ones
  (modulo the width of the deadline, whatever the clocks did in between).\<close>
theorem set_user_nice_back:
  assumes "run_ok st" and "p \<notin> idle_tasks st" and "\<not> has_rt_policy (tasks st p)" and "task_nice (tasks st p) = old"
    and "-20 \<le> old" and "old \<le> 19" and "-20 \<le> nice" and "nice \<le> 19" and "in_u64 (deadline (tasks st p))"
  shows "task_nice (tasks (set_user_nice this p nice st) p) = nice \<and>
    (let st' = set_user_nice that p old (set_user_nice this p nice st)
     in task_nice (tasks st' p) = old \<and> deadline (tasks st' p) = deadline (tasks st p))"
proof (cases "nice = old")
  case True
  then show ?thesis using assms(4) by (simp add: set_user_nice_def)
next
  case False
  let ?s = "set_user_nice this p nice st"
  note a = set_user_nice_task [OF run_okD(1) [OF assms(1)] assms(3) _ assms(7,8), where this = this]
  have n: "task_nice (tasks st p) \<noteq> nice" using False assms(4) by simp
  have s: "run_ok ?s" by (rule run_ok_set_user_nice [OF assms(1,2)])
  have sn: "task_nice (tasks ?s p) = nice" by (simp add: task_nice_def a(1) [OF n] PRIO_TO_NICE_def NICE_TO_PRIO_def)
  have rt: "\<not> has_rt_policy (tasks ?s p)" using assms(3) by (simp add: has_rt_policy_def a(2) [OF n])
  note b = set_user_nice_task [OF run_okD(1) [OF s] rt _ assms(5,6), where this = that]
  have bn: "task_nice (tasks ?s p) \<noteq> old" using sn False by simp
  have d: "task_deadline_diff p ?s = static_deadline_diff (NICE_TO_PRIO nice) st"
    "static_deadline_diff (NICE_TO_PRIO old) st = task_deadline_diff p st"
    using a(4) [OF n] assms(4)
    by (simp_all add: task_deadline_diff_def static_deadline_diff_def task_user_prio_def a(1) [OF n] NICE_TO_PRIO_def task_nice_def
        PRIO_TO_NICE_def) (auto simp: algebra_simps)
  have "deadline (tasks (set_user_nice that p old ?s) p) = deadline (tasks st p)"
    unfolding b(3) [OF bn] a(3,4) [OF n] d using assms(9) by (simp add: u64_def in_u64_def mod_simps)
  moreover have "task_nice (tasks (set_user_nice that p old ?s) p) = old"
    by (simp add: task_nice_def b(1) [OF bn] PRIO_TO_NICE_def NICE_TO_PRIO_def)
  ultimately show ?thesis using sn by (simp add: Let_def)
qed


theorem set_user_nice_back_witness:
  "task_nice (tasks (set_user_nice 0 5 10 busy_cpu) 5) = 10 \<and>
    (let st' = set_user_nice 0 5 0 (set_user_nice 0 5 10 busy_cpu)
     in task_nice (tasks st' 5) = 0 \<and> deadline (tasks st' 5) = 0)"
  using set_user_nice_back [OF busy_cpu_ok(1), of 5 0 10 0 0]
  by (simp add: idle_tasks_def has_rt_policy_def is_rt_policy_def zero_task_def task_nice_def PRIO_TO_NICE_def in_u64_def)

section \<open>Yielding\<close>

lemma run_ok_yield [simp]: "run_ok (sched_yield_locked this st) = run_ok st"
proof -
  have "core (sched_yield_locked this st) = core st"
    by (simp add: sched_yield_locked_def requeue_task_def Let_def core_upds)
  then show ?thesis
    by (rule run_ok_core) (simp add: sched_yield_locked_def requeue_task_def Let_def sched_info_queued_eq)
qed

lemma run_ok_yield_to:
  assumes "run_ok st"
  shows "run_ok (fst (yield_to_locked this p st))"
proof -
  have "run_ok (upd_task p (\<lambda>t. t\<lparr>deadline := x t\<rparr>) s) = run_ok s" "run_ok (upd_task p (\<lambda>t. t\<lparr>time_slice := y t\<rparr>) s) = run_ok s"
    "run_ok (upd_rq this (\<lambda>r. r\<lparr>rq_time_slice := 0\<rparr>) s) = run_ok s" for x y s
    by (simp_all add: run_ok_upd_task run_ok_upd_rq sys_core_def)
  note r = this
  define a where "a = (if deadline (tasks st p) > rq_deadline (rqs st this)
    then upd_task p (\<lambda>t. t\<lparr>deadline := rq_deadline (rqs st this)\<rparr>) st else st)"
  define b where "b = upd_rq this (\<lambda>r. r\<lparr>rq_time_slice := 0\<rparr>) (upd_task p (\<lambda>t. t\<lparr>time_slice := s32 (time_slice t + rq_time_slice (rqs st this))\<rparr>) a)"
  define d where "d = (if time_slice (tasks b p) > timeslice b then upd_task p (\<lambda>t. t\<lparr>time_slice := timeslice b\<rparr>) b else b)"
  have "run_ok d" using assms by (simp add: d_def b_def a_def r)
  moreover have "curr (rqs d this) = curr (rqs st this)" by (simp add: d_def b_def a_def)
  ultimately have "run_ok (upd_task (curr (rqs st this)) (\<lambda>t. t\<lparr>tif_need_resched := True\<rparr>) d)"
    using run_ok_set_resched [of d this] by simp
  moreover have "yield_to_locked this p st = (if task_running p st \<or> state (tasks st p) \<noteq> 0 then (st, False)
      else (upd_task (curr (rqs st this)) (\<lambda>t. t\<lparr>tif_need_resched := True\<rparr>) d, True))"
    unfolding yield_to_locked_def Let_def d_def b_def a_def by (rule refl)
  ultimately show ?thesis using assms by simp
qed

lemma run_ok_io_schedule [simp]:
  "run_ok (io_schedule_enter this st) = run_ok st" "run_ok (io_schedule_leave c p st) = run_ok st"
  by (simp_all add: io_schedule_enter_def io_schedule_leave_def run_ok_upd_task run_ok_upd_rq sys_core_def)

lemma run_ok_normalize_task:
  assumes "run_ok st" and "p \<notin> idle_tasks st" and "waiters_ok e"
  shows "run_ok (normalize_rt_task e this p st)"
proof -
  have "normalize_rt_task e this p st =
      (if \<not> rt_task (tasks st p) \<and> \<not> iso_task (tasks st p) then st else setscheduler_requeue e this p SCHED_NORMAL 0 st)"
    unfolding normalize_rt_task_def Let_def setscheduler_requeue_eq [OF run_okD(1) [OF assms(1)]] by (rule refl)
  then show ?thesis using assms run_ok_setscheduler_requeue [OF assms, of 0 this SCHED_NORMAL] by simp
qed

lemma idle_tasks_normalize [simp]: "idle_tasks (normalize_rt_task e this p st) = idle_tasks st"
proof -
  have "cpu_online_map (setscheduler_task e this p c pol pr s) = cpu_online_map s \<and>
    idle (rqs (setscheduler_task e this p c pol pr s) d) = idle (rqs s d)" for c pol pr s d
    by (simp add: setscheduler_task_eq Let_def reset_rq_task_def coreD(18) [OF core_resched(1)] coreD(11) [OF core_resched(1)])
  then show ?thesis
    by (simp add: normalize_rt_task_def idle_tasks_def Let_def coreD(18) [OF core_resched(6)] coreD(11) [OF core_resched(6)])
qed

lemma run_ok_normalize:
  assumes "run_ok st" and "set threads \<inter> idle_tasks st = {}" and "waiters_ok e"
  shows "run_ok (normalize_rt_tasks e this threads st)"
  using assms(1,2)
proof (induction threads arbitrary: st)
  case (Cons p ps)
  then show ?case using run_ok_normalize_task [OF Cons.prems(1) _ assms(3)] by (simp add: normalize_rt_tasks_def)
qed (simp add: normalize_rt_tasks_def)

end
