(* ===== verification/Sched_Affinity.thy ===== *)
theory Sched_Affinity
  imports Sched_Policy
begin

text \<open>
  Processor affinity, idle threads and processor hot-plug (\<open>kernel/sched_bfs.c\<close>, lines 4623 to 4781, 5130 to
  5443 and 5612 to 5722).  An affinity change sends a task away from a processor it may no longer
  use, and every pass of \<open>schedule()\<close> chooses a task that may run on its processor.

  The masks of cpusets and the results of allocations are arguments.
\<close>

section \<open>Changing the affinity\<close>

definition do_set_cpus_allowed :: "tid \<Rightarrow> cpumask \<Rightarrow> kstate \<Rightarrow> kstate" where
  "do_set_cpus_allowed p m = upd_task p (\<lambda>t. t\<lparr>cpus_allowed := m\<rparr>)"

text \<open>A task that may no longer use its processor is sent away; the flag is \<open>running_wrong\<close>.\<close>

definition affinity_move :: "cpu \<Rightarrow> tid \<Rightarrow> cpumask \<Rightarrow> kstate \<Rightarrow> kstate \<times> bool" where
  "affinity_move this p new_mask st =
     (let c = task_cpu (tasks st p)
      in if c \<in> new_mask then (st, False)
         else if task_running p st then
           (if c = this then (upd_task p (\<lambda>t. t\<lparr>tif_need_resched := True\<rparr>) st, True)
            else (resched_task this p st, False))
         else (set_task_cpu p (cpumask_first (cpu_active_map st \<inter> new_mask)) st, False))"

text \<open>The part of \<open>set_cpus_allowed_ptr\<close> under the lock: the state, the result, and \<open>running_wrong\<close>.\<close>

definition set_cpus_allowed_locked :: "cpu \<Rightarrow> tid \<Rightarrow> cpumask \<Rightarrow> kstate \<Rightarrow> kstate \<times> int \<times> bool" where
  "set_cpus_allowed_locked this p new_mask st =
     (let c = task_cpu (tasks st p)
      in if cpus_allowed (tasks st p) = new_mask then (st, 0, False)
         else if new_mask \<inter> cpu_active_map st = {} then (st, - EINVAL, False)
         else if flags (tasks st p) AND PF_THREAD_BOUND \<noteq> 0 \<and> p \<noteq> curr (rqs st this) then (st, - EINVAL, False)
         else let queued = task_queued p st;
                  r = affinity_move this p new_mask (do_set_cpus_allowed p new_mask st)
              in (if queued then try_preempt this p c (fst r) else fst r, 0, snd r))"

definition set_cpus_allowed_ptr ::
  "bool \<Rightarrow> (tid \<Rightarrow> bool) \<Rightarrow> cpu \<Rightarrow> tid \<Rightarrow> cpumask \<Rightarrow> kstate \<Rightarrow> kstate outcome option \<times> int" where
  "set_cpus_allowed_ptr up pa this p new_mask st =
     (case set_cpus_allowed_locked this p new_mask st of
        (st, ret, wrong) \<Rightarrow> (if wrong then fst (cond_resched up pa this st) else Some (Returns st), ret))"

text \<open>The loop of \<open>sched_setaffinity\<close>.  Each round comes with the processor the caller is on, the state in which
  it gets the lock, and the mask of the cpuset it reads afterwards; the caller may be rescheduled and
  the cpuset may change between the rounds.\<close>

fun setaffinity_rounds :: "tid \<Rightarrow> cpumask \<Rightarrow> (cpu \<times> kstate \<times> cpumask) list \<Rightarrow> (kstate \<times> int \<times> bool) option" where
  "setaffinity_rounds p new_mask [] = None"
| "setaffinity_rounds p new_mask ((this, st, cs) # obs) =
     (let r = set_cpus_allowed_locked this p new_mask st
      in if fst (snd r) = 0 \<and> \<not> new_mask \<subseteq> cs then setaffinity_rounds p cs obs else Some r)"

text \<open>\<open>ns_capable\<close> is the answer of \<open>task_ns_capable\<close>, \<open>mem1\<close> and \<open>mem2\<close> those of the allocations, \<open>cs0\<close> the first
  mask read from the cpuset.  The reference held on the task while the call runs is not part of
  the state.\<close>

definition sched_setaffinity ::
  "policy_env \<Rightarrow> cpu \<Rightarrow> int \<Rightarrow> cpumask \<Rightarrow> (tid \<Rightarrow> bool) \<Rightarrow> bool \<Rightarrow> bool \<Rightarrow> cpumask \<Rightarrow> kstate \<Rightarrow>
   (cpu \<times> kstate \<times> cpumask) list \<Rightarrow> (kstate \<times> int \<times> bool) option" where
  "sched_setaffinity e this n in_mask ns_capable mem1 mem2 cs0 st obs =
     (case find_process_by_pid e this n st of
        None \<Rightarrow> Some (st, - ESRCH, False)
      | Some p \<Rightarrow>
          if \<not> mem1 then Some (st, - ENOMEM, False)
          else if \<not> mem2 then Some (st, - ENOMEM, False)
          else if \<not> check_same_owner e (curr (rqs st this)) p \<and> \<not> ns_capable p then Some (st, - EPERM, False)
          else if security_setscheduler e p \<noteq> 0 then Some (st, security_setscheduler e p, False)
          else setaffinity_rounds p (in_mask \<inter> cs0) obs)"

text \<open>A user mask is the set of its bits; at most \<open>len\<close> bytes of it are read.\<close>

definition get_user_cpu_mask :: "cpumask user_ptr \<Rightarrow> nat \<Rightarrow> int + cpumask" where
  "get_user_cpu_mask ptr len =
     (if len = 0 then Inr {}
      else case ptr of Points m \<Rightarrow> Inr (m \<inter> {..<8 * min len (NR_CPUS div 8)}) | _ \<Rightarrow> Inl (- EFAULT))"

definition sys_sched_setaffinity ::
  "policy_env \<Rightarrow> cpu \<Rightarrow> int \<Rightarrow> nat \<Rightarrow> cpumask user_ptr \<Rightarrow> (tid \<Rightarrow> bool) \<Rightarrow> bool \<Rightarrow> bool \<Rightarrow> bool \<Rightarrow> cpumask \<Rightarrow> kstate \<Rightarrow>
   (cpu \<times> kstate \<times> cpumask) list \<Rightarrow> (kstate \<times> int \<times> bool) option" where
  "sys_sched_setaffinity e this n len ptr ns_capable mem0 mem1 mem2 cs0 st obs =
     (if \<not> mem0 then Some (st, - ENOMEM, False)
      else case get_user_cpu_mask ptr len of
          Inl r \<Rightarrow> Some (st, r, False)
        | Inr m \<Rightarrow> sched_setaffinity e this n m ns_capable mem1 mem2 cs0 st obs)"

definition sched_getaffinity :: "policy_env \<Rightarrow> cpu \<Rightarrow> int \<Rightarrow> kstate \<Rightarrow> int + cpumask" where
  "sched_getaffinity e this n st =
     (case find_process_by_pid e this n st of
        None \<Rightarrow> Inl (- ESRCH)
      | Some p \<Rightarrow> if security_getscheduler e p \<noteq> 0 then Inl (security_getscheduler e p)
                  else Inr (cpus_allowed (tasks st p) \<inter> cpu_online_map st))"

text \<open>\<open>len\<close> is an \<open>unsigned int\<close>; \<open>nr_cpu_ids\<close> is \<open>NR_CPUS\<close>.  The second result is the mask written back.\<close>

definition sys_sched_getaffinity ::
  "policy_env \<Rightarrow> cpu \<Rightarrow> int \<Rightarrow> int \<Rightarrow> 'a user_ptr \<Rightarrow> bool \<Rightarrow> kstate \<Rightarrow> int \<times> cpumask option" where
  "sys_sched_getaffinity e this n len ptr mem st =
     (if u32 (len * 8) < int NR_CPUS then (- EINVAL, None)
      else if len AND 7 \<noteq> 0 then (- EINVAL, None)
      else if \<not> mem then (- ENOMEM, None)
      else case sched_getaffinity e this n st of
          Inl r \<Rightarrow> (r, None)
        | Inr m \<Rightarrow> (case ptr of Points _ \<Rightarrow> (min len (int (NR_CPUS div 8)), Some m) | _ \<Rightarrow> (- EFAULT, None)))"

section \<open>Idle threads and timers\<close>

definition init_idle :: "tid \<Rightarrow> cpu \<Rightarrow> kstate \<Rightarrow> kstate" where
  "init_idle p c st =
     (let st = update_clocks c st;
          st = upd_task p (\<lambda>t. t\<lparr>last_ran := rq_clock (rqs st c), state := TASK_RUNNING, prio := PRIO_LIMIT\<rparr>) st;
          st = set_rq_task c p st;
          st = do_set_cpus_allowed p {c} st;
          st = set_task_cpu p c st;
          st = upd_rq c (\<lambda>r. r\<lparr>curr := p, idle := p\<rparr>) st
      in upd_task p (\<lambda>t. t\<lparr>on_cpu := True\<rparr>) st)"

definition resched_cpu :: "cpu \<Rightarrow> cpu \<Rightarrow> kstate \<Rightarrow> kstate" where
  "resched_cpu this c st = resched_task this (curr (rqs st c)) st"

text \<open>Both loops leave at their first processor.\<close>

fun timer_target_scan :: "cpu \<Rightarrow> sched_domain list \<Rightarrow> kstate \<Rightarrow> cpu" where
  "timer_target_scan c [] st = c"
| "timer_target_scan c (sd # ds) st =
     (case for_each_cpu (sd_span sd) of
        [] \<Rightarrow> timer_target_scan c ds st
      | i # _ \<Rightarrow> if \<not> idle_cpu i st then i else c)"

definition get_nohz_timer_target :: "cpu \<Rightarrow> kstate \<Rightarrow> cpu" where
  "get_nohz_timer_target this st = timer_target_scan this (sds st this) st"

definition wake_up_idle_cpu :: "cpu \<Rightarrow> cpu \<Rightarrow> kstate \<Rightarrow> kstate" where
  "wake_up_idle_cpu this c st =
     (if c = this then st
      else let i = idle (rqs st c)
           in if curr (rqs st c) \<noteq> i then st
              else let st = upd_task i (\<lambda>t. t\<lparr>tif_need_resched := True\<rparr>) st
                   in if \<not> tif_polling (tasks st i) then smp_send_reschedule c st else st)"

section \<open>Hot-plug\<close>

text \<open>The loop over all threads; the message to the log is left out.\<close>

definition break_affinity_of :: "tid \<Rightarrow> tid \<Rightarrow> kstate \<Rightarrow> kstate" where
  "break_affinity_of idl p st =
     clear_sticky p (if p \<noteq> idl \<and> \<not> online_cpus p st then do_set_cpus_allowed p (cpu_possible_map st) st else st)"

definition break_sole_affinity :: "tid list \<Rightarrow> tid \<Rightarrow> kstate \<Rightarrow> kstate" where
  "break_sole_affinity threads idl st = fold (break_affinity_of idl) threads st"

definition sched_idle_next :: "policy_env \<Rightarrow> cpu \<Rightarrow> cpu \<Rightarrow> tid \<Rightarrow> kstate \<Rightarrow> kstate outcome" where
  "sched_idle_next e this c idl st =
     (if c \<in> cpu_online_map st then Oops
      else let st = setscheduler_task e this idl c SCHED_FIFO STOP_PRIO st;
               st = activate_idle_task idl st
           in Returns (upd_task (curr (rqs st c)) (\<lambda>t. t\<lparr>tif_need_resched := True\<rparr>) st))"

text \<open>The switch of the hardware page tables is outside the state; \<open>init_mm\<close> is the kernel's own address space.\<close>

definition idle_task_exit :: "cpu \<Rightarrow> kstate \<Rightarrow> kstate outcome" where
  "idle_task_exit this st =
     (if this \<in> cpu_online_map st then Oops
      else case active_mm (tasks st (curr (rqs st this))) of
          None \<Rightarrow> Oops
        | Some m \<Rightarrow> Returns (mmdrop m st))"

definition sched_set_stop_task :: "policy_env \<Rightarrow> cpu \<Rightarrow> cpu \<Rightarrow> tid option \<Rightarrow> kstate \<Rightarrow> kstate outcome option" where
  "sched_set_stop_task e this c stop st =
     (let old_stop = rq_stop (rqs st c);
          set = (\<lambda>p x st. case p of
              None \<Rightarrow> Some (Returns st)
            | Some p \<Rightarrow> map_option (map_outcome fst) (sched_setscheduler_nocheck e this p SCHED_FIFO x st [(st, st)]))
      in case set stop STOP_PRIO st of
           Some (Returns st) \<Rightarrow> set old_stop (MAX_USER_RT_PRIO - 1) (upd_rq c (\<lambda>r. r\<lparr>rq_stop := stop\<rparr>) st)
         | r \<Rightarrow> r)"

definition set_rq_online :: "cpu \<Rightarrow> kstate \<Rightarrow> kstate" where
  "set_rq_online c st =
     (if \<not> rq_online (rqs st c)
      then (let st = (case rq_rd (rqs st c) of None \<Rightarrow> st
              | Some d \<Rightarrow> st\<lparr>rds := (rds st)(d := (rds st d)\<lparr>rd_online := insert c (rd_online (rds st d))\<rparr>)\<rparr>)
            in upd_rq c (\<lambda>r. r\<lparr>rq_online := True\<rparr>) st)
      else st)"

definition set_rq_offline :: "cpu \<Rightarrow> kstate \<Rightarrow> kstate" where
  "set_rq_offline c st =
     (if rq_online (rqs st c)
      then (let st = (case rq_rd (rqs st c) of None \<Rightarrow> st
              | Some d \<Rightarrow> st\<lparr>rds := (rds st)(d := (rds st d)\<lparr>rd_online := rd_online (rds st d) - {c}\<rparr>)\<rparr>)
            in upd_rq c (\<lambda>r. r\<lparr>rq_online := False\<rparr>) st)
      else st)"

datatype cpu_action = CPU_UP_PREPARE | CPU_ONLINE | CPU_DOWN_PREPARE | CPU_DOWN_FAILED | CPU_DYING | CPU_DEAD | CPU_OTHER

definition num_online_cpus :: "kstate \<Rightarrow> int" where
  "num_online_cpus st = int (length (for_each_cpu (cpu_online_map st)))"

definition rd_spans :: "cpu \<Rightarrow> kstate \<Rightarrow> bool" where
  "rd_spans c st \<longleftrightarrow> (case rq_rd (rqs st c) of None \<Rightarrow> True | Some d \<Rightarrow> c \<in> rd_span (rds st d))"

definition migration_call :: "policy_env \<Rightarrow> cpu \<Rightarrow> tid list \<Rightarrow> cpu_action \<Rightarrow> cpu \<Rightarrow> kstate \<Rightarrow> kstate outcome" where
  "migration_call e this threads action c st =
     (let idl = idle (rqs st c)
      in case action of
           CPU_ONLINE \<Rightarrow>
             if \<not> rd_spans c st then Oops
             else let st = (if rq_rd (rqs st c) \<noteq> None then set_rq_online c st else st)
                  in Returns (upd_grq (\<lambda>g. g\<lparr>noc := num_online_cpus st\<rparr>) st)
         | CPU_DEAD \<Rightarrow>
             (let st = return_task idl True st;
                  st = upd_task idl (\<lambda>t. t\<lparr>static_prio := MAX_PRIO\<rparr>) st;
                  st = setscheduler_task e this idl c SCHED_NORMAL 0 st;
                  st = upd_task idl (\<lambda>t. t\<lparr>prio := PRIO_LIMIT\<rparr>) st;
                  st = set_rq_task c idl st
              in Returns (update_clocks c st))
         | CPU_DYING \<Rightarrow>
             (case sched_idle_next e this c idl st of
                Oops \<Rightarrow> Oops
              | Returns st \<Rightarrow>
                  if \<not> rd_spans c st then Oops
                  else let st = (if rq_rd (rqs st c) \<noteq> None then set_rq_offline c st else st);
                           st = break_sole_affinity threads idl st
                       in Returns (upd_grq (\<lambda>g. g\<lparr>noc := num_online_cpus st\<rparr>) st))
         | _ \<Rightarrow> Returns st)"

definition set_cpu_active :: "cpu \<Rightarrow> bool \<Rightarrow> kstate \<Rightarrow> kstate" where
  "set_cpu_active c b st = st\<lparr>cpu_active_map := (if b then insert c (cpu_active_map st) else cpu_active_map st - {c})\<rparr>"

definition sched_cpu_active :: "cpu_action \<Rightarrow> cpu \<Rightarrow> kstate \<Rightarrow> kstate" where
  "sched_cpu_active action c st =
     (case action of CPU_ONLINE \<Rightarrow> set_cpu_active c True st | CPU_DOWN_FAILED \<Rightarrow> set_cpu_active c True st | _ \<Rightarrow> st)"

definition sched_cpu_inactive :: "cpu_action \<Rightarrow> cpu \<Rightarrow> kstate \<Rightarrow> kstate" where
  "sched_cpu_inactive action c st = (case action of CPU_DOWN_PREPARE \<Rightarrow> set_cpu_active c False st | _ \<Rightarrow> st)"

section \<open>The invariant\<close>

lemma run_ok_set_cpus_allowed [simp]: "run_ok (do_set_cpus_allowed p m st) = run_ok st"
  by (simp add: do_set_cpus_allowed_def run_ok_upd_task sys_core_def)

lemma do_set_cpus_allowed_frame [frame, simp]:
  "rqs (do_set_cpus_allowed p m st) = rqs st" "grq (do_set_cpus_allowed p m st) = grq st"
  "cpu_online_map (do_set_cpus_allowed p m st) = cpu_online_map st" "cpu_active_map (do_set_cpus_allowed p m st) = cpu_active_map st"
  "tasks (do_set_cpus_allowed p m st) q = (if q = p then (tasks st p)\<lparr>cpus_allowed := m\<rparr> else tasks st q)"
  "idle_tasks (do_set_cpus_allowed p m st) = idle_tasks st" "currents (do_set_cpus_allowed p m st) C = currents st C"
  by (simp_all add: do_set_cpus_allowed_def idle_tasks_def)

lemma run_ok_set_task_cpu:
  assumes "run_ok st" and "p \<notin> idle_tasks st" and "\<not> on_cpu (tasks st p)"
  shows "run_ok (set_task_cpu p c st)"
proof -
  let ?u = "set_task_cpu p c st"
  note ok = run_okD [OF assms(1)] and inv = sys_okD [OF run_okD(1) [OF assms(1)]]
  have t: "tasks ?u q = (if q = p then (tasks st p)\<lparr>task_cpu := c\<rparr> else tasks st q)" for q by (simp add: set_task_cpu_def)
  have f: "rqs ?u = rqs st" "grq ?u = grq st" "cpu_online_map ?u = cpu_online_map st" by (simp_all add: set_task_cpu_def)
  have i: "idle_tasks ?u = idle_tasks st" "busy ?u C = busy st C" "currents ?u C = currents st C" for C
    by (simp_all add: idle_tasks_def busy_def currents_def f)
  have po: "pol_ok (t\<lparr>task_cpu := c\<rparr>) = pol_ok t" "enq_ok (t\<lparr>task_cpu := c\<rparr>) = enq_ok t" for t
    by (rule pol_ok_cong enq_ok_cong; simp)+
  have ne: "idle (rqs st d) \<noteq> p" "curr (rqs st d) \<noteq> p" if "d \<in> cpu_online_map st" for d
    using that assms(2,3) inv(4) by (auto simp: idle_tasks_def place_ok_def)
  have "queue_ok ?u" using inv(1) by (simp add: queue_ok_def f queues_ok_def t)
  moreover have "place_ok ?u" using inv(4) ne(2) assms(3) by (simp add: place_ok_def f t)
  moreover have "idle_ok ?u" using inv(5) ne(1) by (simp add: idle_ok_def f t idle_map_ok_def)
  moreover have "idle_map_running ?u" using inv(6) by (simp add: idle_map_running_def f)
  moreover have "prio_ok ?u" using inv(7) assms(2) by (simp add: prio_ok_def i f t po)
  moreover have "count_ok ?u" using inv(8) by (simp add: count_ok_def f i)
  moreover have "flags_ok ?u" using ok(2) by (simp add: flags_ok_def i flags_in_def t)
  moreover have "parked_ok ?u" by (rule parked_ok_step [OF ok(3)]) (auto simp: i f t)
  ultimately show ?thesis by (simp add: run_ok_def sys_ok_def)
qed

lemma run_ok_affinity_move:
  assumes "run_ok st" and "p \<notin> idle_tasks st"
  shows "run_ok (fst (affinity_move this p m st))"
proof (cases "on_cpu (tasks st p)")
  case True
  have p: "p \<in> currents st UNIV" by (rule running_current [OF run_okD(1) [OF assms(1)] True])
  then obtain d where "p = curr (rqs st d)" by (auto simp: currents_def)
  then show ?thesis
    using assms(1) True run_ok_set_resched [OF assms(1), of d] run_ok_resched [OF assms(1) p]
    by (simp add: affinity_move_def Let_def task_running_def)
next
  case False
  then show ?thesis
    using assms run_ok_set_task_cpu [OF assms False] by (simp add: affinity_move_def Let_def task_running_def)
qed

lemma run_ok_affinity:
  assumes "run_ok st" and "p \<notin> idle_tasks st"
  shows "run_ok (fst (set_cpus_allowed_locked this p m st))"
  using assms run_ok_affinity_move [of "do_set_cpus_allowed p m st" p this m]
  by (auto simp: set_cpus_allowed_locked_def Let_def run_ok_try_preempt)

section \<open>Affinity is honoured\<close>

text \<open>C28. A change of affinity: a failed call changes nothing; after a successful one with a new mask the task has this
  mask, and it either belongs to a processor of the mask or is running and flagged, so that it leaves
  its processor.\<close>
theorem set_cpus_allowed_spec:
  assumes "run_ok st" and "p \<notin> idle_tasks st" and "cpu_active_map st \<subseteq> {..<NR_CPUS}" and "cpus_allowed (tasks st p) \<noteq> m"
    and "set_cpus_allowed_locked this p m st = (st', ret, wrong)"
  shows "if ret = 0
    then cpus_allowed (tasks st' p) = m \<and> (task_cpu (tasks st' p) \<in> m \<or> on_cpu (tasks st' p) \<and> tif_need_resched (tasks st' p))
    else ret = - EINVAL \<and> st' = st"
proof -
  let ?s = "do_set_cpus_allowed p m st"
  let ?r = "affinity_move this p m ?s"
  have t: "cpus_allowed (tasks (try_preempt this p d s) q) = cpus_allowed (tasks s q)"
    "task_cpu (tasks (try_preempt this p d s) q) = task_cpu (tasks s q)"
    "cpus_allowed (tasks (resched_task this p s) q) = cpus_allowed (tasks s q)"
    "on_cpu (tasks (resched_task this p s) q) = on_cpu (tasks s q)" for d s q
    using coreD(8,9) [OF core_resched(6)] coreD(2,9) [OF core_resched(1)] by simp_all
  have nq: "\<not> task_queued p st" if "on_cpu (tasks st p)"
    using that queued_not_running' [OF run_okD(1) [OF assms(1)]] by blast
  have "cpumask_first (cpu_active_map st \<inter> m) \<in> m" if "m \<inter> cpu_active_map st \<noteq> {}"
    using that assms(3) cpumask_first_in(1) [of _ "cpu_active_map st \<inter> m"] by auto
  then have first: "cpus_allowed (tasks (fst ?r) p) = m \<and> (task_cpu (tasks (fst ?r) p) \<in> m \<or>
      on_cpu (tasks st p) \<and> on_cpu (tasks (fst ?r) p) \<and> tif_need_resched (tasks (fst ?r) p))"
    if "m \<inter> cpu_active_map st \<noteq> {}"
    using that by (simp add: affinity_move_def Let_def task_running_def t resched_task_tasks set_task_cpu_def)
  note d = set_cpus_allowed_locked_def Let_def
  consider "m \<inter> cpu_active_map st = {} \<or> flags (tasks st p) AND PF_THREAD_BOUND \<noteq> 0 \<and> p \<noteq> curr (rqs st this)"
    | "m \<inter> cpu_active_map st \<noteq> {}" "\<not> (flags (tasks st p) AND PF_THREAD_BOUND \<noteq> 0 \<and> p \<noteq> curr (rqs st this))" by blast
  then show ?thesis
  proof cases
    case 1
    then have "set_cpus_allowed_locked this p m st = (st, - EINVAL, False)" using assms(4) unfolding d by auto
    then show ?thesis using assms(5) by (auto simp: EINVAL_def)
  next
    case 2
    then have "set_cpus_allowed_locked this p m st =
        (if task_queued p st then try_preempt this p (task_cpu (tasks st p)) (fst ?r) else fst ?r, 0, snd ?r)"
      using assms(4) unfolding d by auto
    then show ?thesis using assms(5) nq first [OF 2(1)] by (cases "task_queued p st") (auto simp: t)
  qed
qed


lemma candidate_allowed: "candidate c st i p \<Longrightarrow> c \<in> cpus_allowed (tasks st p)"
  by (auto simp: candidate_def needs_other_cpu_def edt_deadline_def split: if_splits)

lemma edt_allowed:
  assumes "qs_ok S st" and "\<And>i. idle (rqs st c) \<notin> set (queue (grq st) i)"
  shows "snd (earliest_deadline_task c st) = idle (rqs st c) \<or>
    c \<in> cpus_allowed (tasks (fst (earliest_deadline_task c st)) (snd (earliest_deadline_task c st)))"
    and "idle (rqs (fst (earliest_deadline_task c st)) c) = idle (rqs st c)"
proof -
  note spec = edt_search_spec [OF assms]
  have "c \<in> cpus_allowed (tasks st p)" if "edt_search c 0 st = Some (rt, p)" for rt p
    using spec that candidate_allowed by (auto simp: edt_choice_def)
  then show "snd (earliest_deadline_task c st) = idle (rqs st c) \<or>
      c \<in> cpus_allowed (tasks (fst (earliest_deadline_task c st)) (snd (earliest_deadline_task c st)))"
    by (auto simp: earliest_deadline_task_def take_task_tasks Let_def case_prod_beta split: option.split bool.split)
  show "idle (rqs (fst (earliest_deadline_task c st)) c) = idle (rqs st c)"
    by (auto simp: earliest_deadline_task_def Let_def case_prod_beta split: option.split bool.split)
qed

lemma cpuidle_tasks [simp]:
  "tasks (schedule_goidle c st) = tasks st" "idle (rqs (schedule_goidle c st) d) = idle (rqs st d)"
  by (simp_all add: schedule_goidle_def)

lemma pick_allowed:
  assumes "mid_ok c prev st" and "schedule_pick c v st = (st', nxt)"
  shows "nxt = idle (rqs st' c) \<or> c \<in> cpus_allowed (tasks st' nxt)"
proof (cases "queued_notrunning st = 0 \<or> idle_cycles_offset (param st) = v")
  case True
  then show ?thesis using assms(2) by (auto simp: schedule_pick_def)
next
  case False
  have nq: "idle (rqs st c) \<notin> set (queue (grq st) i)" for i
    by (rule mid_idle_unqueued [OF assms(1) idle_in_idle_tasks [OF mid_okD(8) [OF assms(1)]]])
  obtain s n where e: "earliest_deadline_task c st = (s, n)" by fastforce
  have "n = idle (rqs s c) \<or> c \<in> cpus_allowed (tasks s n)"
    using edt_allowed [OF mid_okD(1) [OF assms(1)] nq] e by simp
  then show ?thesis using assms(2) False by (auto simp: schedule_pick_def e split: if_splits)
qed

text \<open>C27. Affinity is honoured: a pass of \<open>schedule()\<close> that ends leaves its processor with its idle task or with a task
  that is allowed to run there.  In particular a task that was sent away from the processor by a
  change of its affinity does not run there after the next pass.\<close>
theorem pass_honours_affinity:
  assumes "run_ok st" and "wq_ok st" and "c \<in> cpu_online_map st" and "schedule_pass c pa st = Returns (st', False)"
  shows "curr (rqs st' c) = idle (rqs st' c) \<or> c \<in> cpus_allowed (tasks st' (curr (rqs st' c)))"
proof -
  let ?p = "curr (rqs st c)"
  note acc = pass_accounted [OF assms(1-3)]
  from assms(4) show ?thesis
  proof (cases rule: schedule_pass_cases)
    case (rerun s d v)
    let ?a = "schedule_account c ?p s"
    note a = acc(1-5) [OF rerun(1)]
    have ne: "curr (rqs ?a c) \<noteq> idle (rqs ?a c)" using a(3) rerun(3) by simp
    have e: "core st' = core ?a"
      using schedule_put_prev_ok [OF run_okD(1) [OF a(1)] a(4) ne, of d st' True] rerun(2) a(3) by simp
    have "\<not> needs_other_cpu (tasks st' ?p) c"
      using rerun(2) by (auto simp: schedule_put_prev_def Let_def split: if_splits)
    then show ?thesis using coreD(10) [OF e, of c] a(3) by (simp add: needs_other_cpu_def)
  next
    case (switch s d v m i s2 nxt s3)
    note a = acc(1-5) [OF switch(1)]
    have m: "mid_ok c ?p m" "parked_ok m" "flags_in (currents m (- {c})) m"
      using run_ok_put [OF a(1,2,4), of d m] a(3) switch(2) by simp_all
    obtain par where "s2 = m\<lparr>param := par\<rparr>" by (rule schedule_inject_param [OF switch(3)])
    then have "mid_ok c ?p s2" using m(1) by simp
    from pick_allowed [OF this switch(4)] have k: "nxt = idle (rqs s3 c) \<or> c \<in> cpus_allowed (tasks s3 nxt)" .
    have n: "curr (rqs st' c) = nxt" by (rule run_ok_choose(2) [OF m switch(3,4,5)])
    have "idle (rqs st' c) = idle (rqs s3 c) \<and> cpus_allowed (tasks st' nxt) = cpus_allowed (tasks s3 nxt)"
      using core_schedule_switch [of c ?p nxt v s3] coreD(9) [of st' s3 nxt] coreD(11) [of st' s3 c]
        coreD(9) [of st' "swap_running c ?p nxt s3" nxt] coreD(11) [of st' "swap_running c ?p nxt s3" c]
      unfolding switch(5) by (auto simp: swap_running_def split: if_splits)
    then show ?thesis using k n by simp
  qed simp
qed

theorem pass_honours_affinity_witness:
  "\<exists>st'. schedule_pass 0 False busy_cpu = Returns (st', False) \<and>
     (curr (rqs st' 0) = idle (rqs st' 0) \<or> 0 \<in> cpus_allowed (tasks st' (curr (rqs st' 0))))"
proof -
  obtain st' again where p: "schedule_pass 0 False busy_cpu = Returns (st', again)"
    using schedule_pass_returns [OF busy_cpu_ok(3), of 0 False] by auto
  have b: "schedule_block 0 (curr (rqs busy_cpu 0)) False (schedule_debug 0 busy_cpu) = (schedule_debug 0 busy_cpu, True, True)"
    by (simp add: schedule_block_def schedule_debug_def signal_pending_state_def zero_task_def)
  have c: "0 \<in> cpu_online_map busy_cpu" "curr (rqs busy_cpu 0) \<noteq> idle (rqs busy_cpu 0)"
    "queued_notrunning (schedule_debug 0 busy_cpu) = 0" "\<not> plugged (tasks busy_cpu (curr (rqs busy_cpu 0)))"
    by (simp_all add: schedule_debug_def queued_notrunning_def s32_def zero_task_def)
  have q: "schedule_pass 0 False busy_cpu = Returns (st', False)"
    using p pass_blocks_to_idle(2) [OF busy_cpu_ok(1,2) c(1) p c(2) b c(3,4)] by simp
  from pass_honours_affinity [OF busy_cpu_ok(1,2) c(1) q] q show ?thesis by blast
qed

theorem set_cpus_allowed_spec_witness:
  "let st = busy_cpu\<lparr>cpu_active_map := {0, 1}\<rparr>; r = set_cpus_allowed_locked 0 5 {1} st
   in fst (snd r) = 0 \<and> cpus_allowed (tasks (fst r) 5) = {1} \<and> tif_need_resched (tasks (fst r) 5)"
proof -
  define st where "st = busy_cpu\<lparr>cpu_active_map := {0, 1}\<rparr>"
  have c: "core st = core busy_cpu" by (simp add: st_def core_def grq_core_def)
  have "run_ok st" using run_ok_core [OF c] busy_cpu_ok(1) by (simp add: st_def)
  moreover have "5 \<notin> idle_tasks st" by (simp add: idle_tasks_def st_def)
  moreover have "cpu_active_map st \<subseteq> {..<NR_CPUS}" "cpus_allowed (tasks st 5) \<noteq> {1}" by (simp_all add: st_def NR_CPUS_def)
  moreover have "set_cpus_allowed_locked 0 5 {1} st =
      (upd_task 5 (\<lambda>t. t\<lparr>tif_need_resched := True\<rparr>) (do_set_cpus_allowed 5 {1} st), 0, True)"
    by (simp add: set_cpus_allowed_locked_def affinity_move_def Let_def task_queued_def task_running_def list_ex_iff zero_task_def st_def)
  ultimately have "let r = set_cpus_allowed_locked 0 5 {1} st in fst (snd r) = 0 \<and> cpus_allowed (tasks (fst r) 5) = {1} \<and>
      (task_cpu (tasks (fst r) 5) \<in> {1} \<or> on_cpu (tasks (fst r) 5) \<and> tif_need_resched (tasks (fst r) 5))"
    using set_cpus_allowed_spec [of st 5 "{1}" 0] by simp
  moreover have "task_cpu (tasks (fst (set_cpus_allowed_locked 0 5 {1} st)) 5) = 0"
    by (simp add: set_cpus_allowed_locked_def affinity_move_def Let_def task_queued_def task_running_def list_ex_iff zero_task_def st_def)
  ultimately show ?thesis by (simp add: st_def Let_def)
qed

section \<open>Hot-plug\<close>

lemma online_cpus_other: "p \<noteq> q \<Longrightarrow> online_cpus p (break_affinity_of idl q st) = online_cpus p st"
  by (simp add: break_affinity_of_def online_cpus_def clear_sticky_def)

lemma break_affinity_frame [simp]:
  "cpu_online_map (break_affinity_of idl p st) = cpu_online_map st" "cpu_possible_map (break_affinity_of idl p st) = cpu_possible_map st"
  by (simp_all add: break_affinity_of_def clear_sticky_def do_set_cpus_allowed_def)

lemma break_affinity_online:
  assumes "cpu_possible_map st \<inter> cpu_online_map st \<noteq> {}" and "p \<noteq> idl"
  shows "online_cpus p (break_affinity_of idl p st)"
  using assms by (auto simp: break_affinity_of_def online_cpus_def clear_sticky_def do_set_cpus_allowed_def)

text \<open>C29. No task is stranded when a processor goes down: after \<open>break_sole_affinity\<close> every thread except the idle thread
  of that processor may use a processor that is online, as long as a possible processor is.\<close>
theorem break_sole_affinity_none_stranded:
  assumes "cpu_possible_map st \<inter> cpu_online_map st \<noteq> {}" and "p \<in> set threads" and "p \<noteq> idl"
  shows "online_cpus p (break_sole_affinity threads idl st)"
proof -
  have keep: "online_cpus p (fold (break_affinity_of idl) qs s)"
    if "online_cpus p s" "cpu_possible_map s \<inter> cpu_online_map s \<noteq> {}" for qs s
    using that
  proof (induction qs arbitrary: s)
    case (Cons q qs)
    have "online_cpus p (break_affinity_of idl q s)"
      using Cons.prems break_affinity_online [OF Cons.prems(2) assms(3)] online_cpus_other [of p q idl s] by (cases "q = p") auto
    then show ?case using Cons by simp
  qed simp
  obtain xs ys where t: "threads = xs @ p # ys" using assms(2) by (auto simp: in_set_conv_decomp)
  let ?s = "fold (break_affinity_of idl) xs st"
  have "cpu_possible_map (fold (break_affinity_of idl) qs s) = cpu_possible_map s \<and>
    cpu_online_map (fold (break_affinity_of idl) qs s) = cpu_online_map s" for qs s
    by (induction qs arbitrary: s) simp_all
  then have "cpu_possible_map ?s \<inter> cpu_online_map ?s \<noteq> {}" using assms(1) by simp
  then show ?thesis
    using keep [of "break_affinity_of idl p ?s" ys] break_affinity_online [OF _ assms(3), of ?s] by (simp add: break_sole_affinity_def t)
qed

theorem break_sole_affinity_none_stranded_witness:
  "online_cpus 7 (break_sole_affinity [0, 7, 8] 0 (one_cpu\<lparr>cpu_online_map := {1}, cpu_possible_map := {0, 1}\<rparr>))"
  by (rule break_sole_affinity_none_stranded) simp_all


lemma setscheduled_stop_prio: "waiters_ok e \<Longrightarrow> prio (setscheduled e p SCHED_FIFO STOP_PRIO t) = 0"
  by (auto simp: setscheduled_def Let_def normal_prio_of_def has_rt_policy_def is_rt_policy_def waiters_ok_def split: option.split)

lemma setscheduled_cpus [simp]: "cpus_allowed (setscheduled e p pol pr t) = cpus_allowed t"
  by (simp add: setscheduled_def Let_def)

lemma idle_next_state:
  assumes "waiters_ok e" and "sched_idle_next e this c p st = Returns s"
  shows "queue (grq s) 0 = p # queue (grq st) 0" and "test_bit 0 (prio_bitmap (grq s))"
    and "cpus_allowed (tasks s p) = cpus_allowed (tasks st p)" and "curr (rqs s d) = curr (rqs st d)" and "idle (rqs s d) = idle (rqs st d)"
    and "tif_need_resched (tasks s (curr (rqs s c)))"
proof -
  define a where "a = setscheduler_task e this p c SCHED_FIFO STOP_PRIO st"
  have m: "core a = core (upd_task p (setscheduled e p SCHED_FIFO STOP_PRIO) st)"
    by (simp add: a_def setscheduler_task_eq Let_def reset_rq_task_def core_upds)
  have "prio (tasks a p) = 0" "queue (grq a) = queue (grq st)" "cpus_allowed (tasks a q) = cpus_allowed (tasks st q)"
    "curr (rqs a d) = curr (rqs st d)" "idle (rqs a d) = idle (rqs st d)" for d q
    unfolding coreD [OF m] using setscheduled_stop_prio [OF assms(1)] by simp_all
  note m = this
  have s: "s = upd_task (curr (rqs (activate_idle_task p a) c)) (\<lambda>t. t\<lparr>tif_need_resched := True\<rparr>) (activate_idle_task p a)"
    using assms(2) unfolding sched_idle_next_def Let_def a_def [symmetric] by (simp split: if_splits)
  show "queue (grq s) 0 = p # queue (grq st) 0" "test_bit 0 (prio_bitmap (grq s))"
    "cpus_allowed (tasks s p) = cpus_allowed (tasks st p)" "curr (rqs s d) = curr (rqs st d)" "idle (rqs s d) = idle (rqs st d)"
    "tif_need_resched (tasks s (curr (rqs s c)))"
    unfolding s by (simp_all add: activate_idle_task_def enqueue_task_head_def inc_qnr_def Let_def m sched_info_queued_eq)
qed


lemma break_affinity_tasks:
  "grq (break_sole_affinity threads idl st) = grq st" "rqs (break_sole_affinity threads idl st) = rqs st"
  "cpus_allowed (tasks (break_sole_affinity threads idl st) idl) = cpus_allowed (tasks st idl)"
  "tif_need_resched (tasks (break_sole_affinity threads idl st) q) = tif_need_resched (tasks st q)"
proof -
  have "grq (break_affinity_of idl p s) = grq s" "rqs (break_affinity_of idl p s) = rqs s"
    "cpus_allowed (tasks (break_affinity_of idl p s) idl) = cpus_allowed (tasks s idl)"
    "tif_need_resched (tasks (break_affinity_of idl p s) q) = tif_need_resched (tasks s q)" for p s
    by (simp_all add: break_affinity_of_def clear_sticky_def do_set_cpus_allowed_def)
  then have "grq (fold (break_affinity_of idl) qs s) = grq s \<and> rqs (fold (break_affinity_of idl) qs s) = rqs s \<and>
    cpus_allowed (tasks (fold (break_affinity_of idl) qs s) idl) = cpus_allowed (tasks s idl) \<and>
    tif_need_resched (tasks (fold (break_affinity_of idl) qs s) q) = tif_need_resched (tasks s q)" for qs s
    by (induction qs arbitrary: s) simp_all
  then show "grq (break_sole_affinity threads idl st) = grq st" "rqs (break_sole_affinity threads idl st) = rqs st"
    "cpus_allowed (tasks (break_sole_affinity threads idl st) idl) = cpus_allowed (tasks st idl)"
    "tif_need_resched (tasks (break_sole_affinity threads idl st) q) = tif_need_resched (tasks st q)"
    by (simp_all add: break_sole_affinity_def)
qed

lemma set_rq_offline_frame [simp]:
  "grq (set_rq_offline c st) = grq st" "tasks (set_rq_offline c st) = tasks st"
  "curr (rqs (set_rq_offline c st) d) = curr (rqs st d)" "idle (rqs (set_rq_offline c st) d) = idle (rqs st d)"
  by (simp_all add: set_rq_offline_def Let_def split: option.split)

text \<open>C30. A dying processor turns to its idle thread: after the notification the current task of the processor is flagged
  and the search for the next task finds the idle thread before every other task.\<close>
theorem dying_cpu_goes_idle:
  assumes "waiters_ok e" and "c \<in> cpus_allowed (tasks st (idle (rqs st c)))"
    and "migration_call e this threads CPU_DYING c st = Returns st'"
  shows "tif_need_resched (tasks st' (curr (rqs st' c))) \<and> edt_search c 0 st' = Some (True, idle (rqs st' c))"
proof -
  let ?i = "idle (rqs st c)"
  from assms(3) obtain s where s: "sched_idle_next e this c ?i st = Returns s"
    by (auto simp: migration_call_def Let_def split: outcome.splits)
  note n = idle_next_state [OF assms(1) s]
  define b where "b = break_sole_affinity threads ?i (if rq_rd (rqs s c) \<noteq> None then set_rq_offline c s else s)"
  have st': "st' = upd_grq (\<lambda>g. g\<lparr>noc := num_online_cpus b\<rparr>) b"
    using assms(3) s by (simp add: migration_call_def Let_def b_def split: if_splits)
  have q: "queue (grq st') 0 = ?i # queue (grq st) 0" "test_bit 0 (prio_bitmap (grq st'))"
    "\<not> needs_other_cpu (tasks st' ?i) c" "curr (rqs st' c) = curr (rqs s c)" "idle (rqs st' c) = ?i"
    "tif_need_resched (tasks st' (curr (rqs s c)))"
    using n assms(2) by (simp_all add: st' b_def break_affinity_tasks needs_other_cpu_def)
  have "find_next_bit (prio_bitmap (grq st')) 104 0 = 0"
    using find_next_bit_next [of 0 104 "prio_bitmap (grq st')"] q(2) by (auto simp: is_next_bit_def)
  then have "edt_search c 0 st' = Some (True, ?i)" using q(1,3) by (simp add: edt_search.simps)
  then show ?thesis using q(4-6) by simp
qed

text \<open>The last processor but one goes down.\<close>

theorem dying_cpu_goes_idle_witness:
  "\<exists>st'. migration_call env0 0 [5, 6] CPU_DYING 0 (busy_cpu\<lparr>cpu_online_map := {1}\<rparr>) = Returns st' \<and>
     edt_search 0 0 st' = Some (True, idle (rqs st' 0))"
proof -
  let ?st = "busy_cpu\<lparr>cpu_online_map := {1}\<rparr>"
  have w: "waiters_ok env0" by (simp add: waiters_ok_def env0_def)
  have r: "rq_rd (rqs busy_cpu 0) = None" by (simp add: zero_rq_def)
  obtain s where s: "sched_idle_next env0 0 0 (idle (rqs ?st 0)) ?st = Returns s" by (simp add: sched_idle_next_def Let_def)
  have "rq_rd (rqs s 0) = None"
    using s r by (auto simp: sched_idle_next_def Let_def activate_idle_task_def inc_qnr_def enqueue_task_head_def sched_info_queued_eq
        setscheduler_task_def task_running_def reset_rq_task_def zero_task_def)
  then obtain st' where m: "migration_call env0 0 [5, 6] CPU_DYING 0 ?st = Returns st'"
    using s by (simp add: migration_call_def Let_def rd_spans_def)
  from dying_cpu_goes_idle [OF w _ m] m show ?thesis by (auto simp: zero_task_def)
qed

text \<open>The scan for a timer target looks at one processor only: the processor of an idle caller is chosen although
  another processor of its domain is busy.\<close>

theorem timer_target_first_only:
  assumes "sds st c = [sd]" and "for_each_cpu (sd_span sd) = i # is" and "idle_cpu i st"
  shows "get_nohz_timer_target c st = c"
  using assms by (simp add: get_nohz_timer_target_def)

end
