(* ===== verification/Hrm.thy ===== *)
theory Hrm
  imports Kbitmap
begin

text \<open>
  The heart rate monitor of the kernel (\<open>kernel/hrm.c\<close>, \<open>include/linux/hrm.h\<close>).  Threads join groups as
  producers, which count heartbeats in a shared page, or as consumers, which read the measures.  A
  timer of each group sums up the counters, keeps the sums of the last periods in a ring, and
  publishes the counts and times of up to 32 windows.

  A pointer to a group, a producer or a consumer is a number; the lists of the source are lists of
  these.  The pages shared with user space are the fields \<open>slots\<close>, \<open>measures\<close> and \<open>goal\<close> of a group.
  Results of allocations and the current time are arguments.  Messages to the log are left out.
\<close>

section \<open>Time\<close>

record timespec =
  tv_sec :: int
  tv_nsec :: int

definition NSEC_PER_SEC :: int where [simp]: "NSEC_PER_SEC = 1000000000"

function norm_down :: "int \<Rightarrow> int \<Rightarrow> int \<times> int" where
  "norm_down sec nsec = (if nsec \<ge> NSEC_PER_SEC then norm_down (s64 (sec + 1)) (nsec - NSEC_PER_SEC) else (sec, nsec))"
  by pat_completeness auto
termination by (relation "measure (\<lambda>(sec, nsec). nat nsec)") auto

function norm_up :: "int \<Rightarrow> int \<Rightarrow> int \<times> int" where
  "norm_up sec nsec = (if nsec < 0 then norm_up (s64 (sec - 1)) (nsec + NSEC_PER_SEC) else (sec, nsec))"
  by pat_completeness auto
termination by (relation "measure (\<lambda>(sec, nsec). nat (- nsec))") auto

declare norm_down.simps [simp del] norm_up.simps [simp del]

definition set_normalized_timespec :: "int \<Rightarrow> int \<Rightarrow> timespec" where
  "set_normalized_timespec sec nsec =
     (case norm_down sec nsec of (sec, nsec) \<Rightarrow> case norm_up sec nsec of (sec, nsec) \<Rightarrow> \<lparr>tv_sec = sec, tv_nsec = nsec\<rparr>)"

definition timespec_sub :: "timespec \<Rightarrow> timespec \<Rightarrow> timespec" where
  "timespec_sub lhs rhs = set_normalized_timespec (s64 (tv_sec lhs - tv_sec rhs)) (s64 (tv_nsec lhs - tv_nsec rhs))"

definition timespec_to_ns :: "timespec \<Rightarrow> int" where
  "timespec_to_ns ts = s64 (tv_sec ts * NSEC_PER_SEC + tv_nsec ts)"

section \<open>Data\<close>

definition HRM_MAX_WINDOWS :: nat where [simp]: "HRM_MAX_WINDOWS = 32"
definition HRM_MEASURE_SCALE :: int where [simp]: "HRM_MEASURE_SCALE = 1000"
definition HRM_GROUP_SIZE :: nat where [simp]: "HRM_GROUP_SIZE = 64"
definition HRM_MAX_WINDOW_SIZE :: int where [simp]: "HRM_MAX_WINDOW_SIZE = 1024"
definition L1_CACHE_BYTES :: int where [simp]: "L1_CACHE_BYTES = 64"
definition PAGE_SIZE :: int where [simp]: "PAGE_SIZE = 4096"

record hrm_counter =
  hc_tid :: int
  hc_used :: int
  hc_counter :: int

record hrm_measure =
  hm_count :: int
  hm_time :: int

record hrm_measures =
  ms_global :: hrm_measure
  ms_window :: "nat \<Rightarrow> hrm_measure"

record hrm_goal =
  goal_lock :: int
  min_heart_rate :: int
  max_heart_rate :: int
  goal_scope :: int
  window_size :: "nat \<Rightarrow> int"

record hrm_memory_map =
  map_pid :: int
  map_address :: int
  map_references :: int

record hrm_memory =
  mem_size :: int
  mem_maps :: "hrm_memory_map list"

record hrm_sample =
  hw_counter :: int
  hw_elapsed :: timespec

record hrm_group =
  hg_gid :: int
  counters :: hrm_memory
  measures_goal :: hrm_memory
  slots :: "nat \<Rightarrow> hrm_counter"
  measures :: hrm_measures
  goal :: hrm_goal
  window_cur :: int
  buffered :: int
  hwindow :: "nat \<Rightarrow> hrm_sample"
  history :: int
  counters_allocation :: bitmap
  timer_armed :: bool
  timestamp :: timespec
  producers :: "nat list"
  consumers :: "nat list"

record hrm_producer =
  pr_task :: tid
  pr_index :: nat
  pr_group :: nat
  pr_counter_address :: int
  pr_measures_address :: int
  pr_goal_address :: int

record hrm_consumer =
  co_group :: nat
  co_counter_address :: int
  co_measures_address :: int
  co_goal_address :: int

text \<open>\<open>hrm_producers\<close> and \<open>hrm_consumers\<close> are the lists of \<open>task_struct\<close>.\<close>

record hrm_state =
  group_at :: "nat \<Rightarrow> hrm_group"
  producer_at :: "nat \<Rightarrow> hrm_producer"
  consumer_at :: "nat \<Rightarrow> hrm_consumer"
  hrm_groups :: "nat list"
  hrm_producers :: "tid \<Rightarrow> nat list"
  hrm_consumers :: "tid \<Rightarrow> nat list"
  hrm_pid :: "tid \<Rightarrow> int"
  hrm_tgid :: "tid \<Rightarrow> int"

definition upd_group :: "nat \<Rightarrow> (hrm_group \<Rightarrow> hrm_group) \<Rightarrow> hrm_state \<Rightarrow> hrm_state" where
  "upd_group g f st = st\<lparr>group_at := (group_at st)(g := f (group_at st g))\<rparr>"

definition zero_counter :: hrm_counter where
  "zero_counter = \<lparr>hc_tid = 0, hc_used = 0, hc_counter = 0\<rparr>"

definition zero_timespec :: timespec where
  "zero_timespec = \<lparr>tv_sec = 0, tv_nsec = 0\<rparr>"

section \<open>The timer\<close>

definition hrm_counter_of :: "nat \<Rightarrow> hrm_state \<Rightarrow> hrm_counter" where
  "hrm_counter_of p st = slots (group_at st (pr_group (producer_at st p))) (pr_index (producer_at st p))"

text \<open>The sum over the producers, in \<open>u64\<close>.\<close>

definition hrm_sum :: "nat \<Rightarrow> hrm_state \<Rightarrow> int" where
  "hrm_sum g st = fold (\<lambda>p s. u64 (s + hc_counter (hrm_counter_of p st))) (producers (group_at st g)) (history (group_at st g))"

text \<open>The measure of window \<open>i\<close>; the subtraction of the \<open>size_t\<close> from the \<open>int\<close> is done in 64 bits.\<close>

definition hrm_window :: "hrm_group \<Rightarrow> int \<Rightarrow> timespec \<Rightarrow> nat \<Rightarrow> hrm_measures \<Rightarrow> hrm_measures" where
  "hrm_window grp heartbeats elapsed_time i m =
     (let ws = window_size (goal grp) i
      in if ws \<noteq> 0 then
           (let ws = (if ws > buffered grp then buffered grp else ws);
                window_first = u64 (window_cur grp - ws) AND (HRM_MAX_WINDOW_SIZE - 1);
                s = hwindow grp (nat window_first)
            in m\<lparr>ms_window := (ms_window m)(i :=
                 \<lparr>hm_count = u64 (heartbeats - hw_counter s),
                   hm_time = u64 (timespec_to_ns (timespec_sub elapsed_time (hw_elapsed s)))\<rparr>)\<rparr>)
         else m)"

definition hrm_update_group_measures :: "nat \<Rightarrow> timespec \<Rightarrow> hrm_state \<Rightarrow> hrm_state" where
  "hrm_update_group_measures g current_time st =
     (let st = upd_group g (\<lambda>grp. grp\<lparr>timer_armed := True\<rparr>) st;
          elapsed_time = timespec_sub current_time (timestamp (group_at st g));
          heartbeats = hrm_sum g st;
          st = upd_group g (\<lambda>grp. grp\<lparr>measures := (measures grp)\<lparr>ms_global :=
                 \<lparr>hm_count = heartbeats, hm_time = u64 (timespec_to_ns elapsed_time)\<rparr>\<rparr>\<rparr>) st;
          st = upd_group g (\<lambda>grp. grp\<lparr>hwindow := (hwindow grp)(nat (window_cur grp) :=
                 \<lparr>hw_counter = heartbeats, hw_elapsed = elapsed_time\<rparr>)\<rparr>) st;
          st = (if buffered (group_at st g) = 0 then st
                else upd_group g (\<lambda>grp. grp\<lparr>measures :=
                   fold (hrm_window grp heartbeats elapsed_time) [0..<HRM_MAX_WINDOWS] (measures grp)\<rparr>) st)
      in upd_group g (\<lambda>grp. grp\<lparr>buffered := (if buffered grp < HRM_MAX_WINDOW_SIZE then buffered grp + 1 else buffered grp),
           window_cur := (window_cur grp + 1) AND (HRM_MAX_WINDOW_SIZE - 1)\<rparr>) st)"

section \<open>Groups\<close>

text \<open>The three allocations of a new group: the group itself, the page of counters, the page of measures.\<close>

type_synonym group_alloc = "nat option \<times> bool \<times> bool"

definition new_group :: "int \<Rightarrow> hrm_group" where
  "new_group gid = \<lparr>hg_gid = gid, counters = \<lparr>mem_size = int HRM_GROUP_SIZE * L1_CACHE_BYTES, mem_maps = []\<rparr>,
     measures_goal = \<lparr>mem_size = PAGE_SIZE, mem_maps = []\<rparr>, slots = (\<lambda>_. zero_counter),
     measures = \<lparr>ms_global = \<lparr>hm_count = 0, hm_time = 0\<rparr>, ms_window = (\<lambda>_. \<lparr>hm_count = 0, hm_time = 0\<rparr>)\<rparr>,
     goal = \<lparr>goal_lock = 0, min_heart_rate = 0, max_heart_rate = 0, goal_scope = 0, window_size = (\<lambda>_. 0)\<rparr>,
     window_cur = 0, buffered = 0, hwindow = (\<lambda>_. \<lparr>hw_counter = 0, hw_elapsed = zero_timespec\<rparr>), history = 0,
     counters_allocation = (\<lambda>_. 0), timer_armed = False, timestamp = zero_timespec, producers = [], consumers = []\<rparr>"

definition hrm_create_group :: "int \<Rightarrow> group_alloc \<Rightarrow> hrm_state \<Rightarrow> hrm_state \<times> (int + nat)" where
  "hrm_create_group gid alloc st =
     (case alloc of
        (None, _, _) \<Rightarrow> (st, Inl (- ENOMEM))
      | (Some g, counters_page, measures_page) \<Rightarrow>
          if \<not> counters_page then (st, Inl (- ENOMEM))
          else if \<not> measures_page then (st, Inl (- ENOMEM))
          else (upd_group g (\<lambda>_. new_group gid) st, Inr g))"

definition hrm_destroy_group :: "nat \<Rightarrow> hrm_state \<Rightarrow> hrm_state" where
  "hrm_destroy_group g = upd_group g (\<lambda>grp. grp\<lparr>timer_armed := False\<rparr>)"

definition hrm_add_group :: "nat \<Rightarrow> hrm_state \<Rightarrow> hrm_state" where
  "hrm_add_group g st = st\<lparr>hrm_groups := g # hrm_groups st\<rparr>"

definition hrm_delete_group :: "nat \<Rightarrow> hrm_state \<Rightarrow> hrm_state" where
  "hrm_delete_group g st = st\<lparr>hrm_groups := remove1 g (hrm_groups st)\<rparr>"

definition hrm_find_group :: "int \<Rightarrow> hrm_state \<Rightarrow> nat option" where
  "hrm_find_group gid st = find (\<lambda>g. hg_gid (group_at st g) = gid) (hrm_groups st)"

definition hrm_allocate_group_counter :: "nat \<Rightarrow> hrm_state \<Rightarrow> hrm_state \<times> int" where
  "hrm_allocate_group_counter g st =
     (case bitmap_find_free_region (counters_allocation (group_at st g)) HRM_GROUP_SIZE 0 of
        (b, i) \<Rightarrow> (upd_group g (\<lambda>grp. grp\<lparr>counters_allocation := b\<rparr>) st, i))"

definition hrm_release_group_counter :: "nat \<Rightarrow> nat \<Rightarrow> hrm_state \<Rightarrow> hrm_state" where
  "hrm_release_group_counter g i =
     upd_group g (\<lambda>grp. grp\<lparr>counters_allocation := bitmap_release_region (counters_allocation grp) i 0\<rparr>)"

section \<open>Memory maps\<close>

definition hrm_add_group_memory_map :: "bool \<Rightarrow> int \<Rightarrow> int \<Rightarrow> hrm_memory \<Rightarrow> hrm_memory \<times> int" where
  "hrm_add_group_memory_map mem tgid user_address m =
     (if \<not> mem then (m, - ENOMEM)
      else (m\<lparr>mem_maps := \<lparr>map_pid = tgid, map_address = user_address, map_references = 1\<rparr> # mem_maps m\<rparr>, 0))"

fun maps_get :: "int \<Rightarrow> hrm_memory_map list \<Rightarrow> hrm_memory_map list \<times> int" where
  "maps_get tgid [] = ([], - ESRCH)"
| "maps_get tgid (m # ms) =
     (if map_pid m = tgid then (m\<lparr>map_references := s32 (map_references m + 1)\<rparr> # ms, 0)
      else case maps_get tgid ms of (ms, r) \<Rightarrow> (m # ms, r))"

definition hrm_get_group_memory_map :: "int \<Rightarrow> hrm_memory \<Rightarrow> hrm_memory \<times> int" where
  "hrm_get_group_memory_map tgid m = (case maps_get tgid (mem_maps m) of (ms, r) \<Rightarrow> (m\<lparr>mem_maps := ms\<rparr>, r))"

fun maps_put :: "int \<Rightarrow> hrm_memory_map list \<Rightarrow> hrm_memory_map list \<times> int" where
  "maps_put tgid [] = ([], - ESRCH)"
| "maps_put tgid (m # ms) =
     (if map_pid m = tgid then
        (let m = m\<lparr>map_references := s32 (map_references m - 1)\<rparr>
         in if map_references m = 0 then (ms, 0) else (m # ms, 0))
      else case maps_put tgid ms of (ms, r) \<Rightarrow> (m # ms, r))"

definition hrm_put_group_memory_map :: "int \<Rightarrow> hrm_memory \<Rightarrow> hrm_memory \<times> int" where
  "hrm_put_group_memory_map tgid m = (case maps_put tgid (mem_maps m) of (ms, r) \<Rightarrow> (m\<lparr>mem_maps := ms\<rparr>, r))"

definition hrm_find_group_memory_map :: "int \<Rightarrow> hrm_memory \<Rightarrow> int" where
  "hrm_find_group_memory_map tgid m =
     (case find (\<lambda>x. map_pid x = tgid) (mem_maps m) of None \<Rightarrow> 0 | Some x \<Rightarrow> map_address x)"

section \<open>Producers\<close>

definition hrm_find_producer_struct :: "tid \<Rightarrow> int \<Rightarrow> hrm_state \<Rightarrow> nat option" where
  "hrm_find_producer_struct t gid st =
     find (\<lambda>p. hg_gid (group_at st (pr_group (producer_at st p))) = gid) (hrm_producers st t)"

text \<open>The part that runs once the group is there: allocation of a counter, the new producer, and the start of
  the group.\<close>

definition hrm_enlist_producer :: "tid \<Rightarrow> nat \<Rightarrow> nat \<Rightarrow> bool \<Rightarrow> timespec \<Rightarrow> hrm_state \<Rightarrow> hrm_state \<times> int" where
  "hrm_enlist_producer t p g group_exists current_time st =
     (case hrm_allocate_group_counter g st of
        (st, i) \<Rightarrow>
          if i < 0 then (if \<not> group_exists then hrm_destroy_group g st else st, i)
          else
            let i = nat i;
                st = st\<lparr>producer_at := (producer_at st)(p := \<lparr>pr_task = t, pr_index = i, pr_group = g,
                       pr_counter_address = 0, pr_measures_address = 0, pr_goal_address = 0\<rparr>)\<rparr>;
                st = upd_group g (\<lambda>grp. grp\<lparr>slots := (slots grp)(i := (slots grp i)\<lparr>hc_tid := hrm_pid st t, hc_used := 1\<rparr>)\<rparr>) st;
                st = st\<lparr>hrm_producers := (hrm_producers st)(t := p # hrm_producers st t)\<rparr>;
                st = upd_group g (\<lambda>grp. grp\<lparr>producers := p # producers grp\<rparr>) st
            in if timespec_to_ns (timestamp (group_at st g)) = 0
               then (let st = (if \<not> group_exists then hrm_add_group g st else st)
                     in (upd_group g (\<lambda>grp. grp\<lparr>timestamp := current_time, window_cur := 1, buffered := 1, timer_armed := True\<rparr>) st, 0))
               else (st, 0))"

definition hrm_add_producer_task_to_group ::
  "tid option \<Rightarrow> int \<Rightarrow> nat option \<Rightarrow> group_alloc \<Rightarrow> timespec \<Rightarrow> hrm_state \<Rightarrow> hrm_state \<times> int" where
  "hrm_add_producer_task_to_group task gid kz alloc current_time st =
     (case task of
        None \<Rightarrow> (st, - EINVAL)
      | Some t \<Rightarrow>
          if hrm_find_producer_struct t gid st \<noteq> None then (st, - EINVAL)
          else case kz of
              None \<Rightarrow> (st, - ENOMEM)
            | Some p \<Rightarrow>
                (case hrm_find_group gid st of
                   Some g \<Rightarrow> hrm_enlist_producer t p g True current_time st
                 | None \<Rightarrow> (case hrm_create_group gid alloc st of
                       (st, Inl r) \<Rightarrow> (st, r)
                     | (st, Inr g) \<Rightarrow> hrm_enlist_producer t p g False current_time st)))"

text \<open>An empty group is taken off the list and destroyed.\<close>

definition hrm_reap_group :: "nat \<Rightarrow> hrm_state \<Rightarrow> hrm_state" where
  "hrm_reap_group g st =
     (if producers (group_at st g) = [] \<and> consumers (group_at st g) = []
      then hrm_destroy_group g (hrm_delete_group g st) else st)"

definition hrm_put_maps :: "tid \<Rightarrow> nat \<Rightarrow> hrm_state \<Rightarrow> hrm_state" where
  "hrm_put_maps t g st =
     upd_group g (\<lambda>grp. grp\<lparr>counters := fst (hrm_put_group_memory_map (hrm_tgid st t) (counters grp)),
       measures_goal := fst (hrm_put_group_memory_map (hrm_tgid st t) (measures_goal grp))\<rparr>) st"

text \<open>The common end of the two ways to delete a producer.\<close>

definition hrm_drop_producer :: "tid \<Rightarrow> nat \<Rightarrow> hrm_state \<Rightarrow> hrm_state" where
  "hrm_drop_producer t p st =
     (let g = pr_group (producer_at st p);
          st = upd_group g (\<lambda>grp. grp\<lparr>history := u64 (history grp + hc_counter (slots grp (pr_index (producer_at st p))))\<rparr>) st;
          st = hrm_release_group_counter g (pr_index (producer_at st p)) st;
          st = st\<lparr>hrm_producers := (hrm_producers st)(t := remove1 p (hrm_producers st t))\<rparr>;
          st = upd_group g (\<lambda>grp. grp\<lparr>producers := remove1 p (producers grp)\<rparr>) st
      in hrm_reap_group g (hrm_put_maps t g st))"

definition hrm_delete_producer_task_from_group :: "tid option \<Rightarrow> int \<Rightarrow> hrm_state \<Rightarrow> hrm_state \<times> int" where
  "hrm_delete_producer_task_from_group task gid st =
     (case task of
        None \<Rightarrow> (st, - EINVAL)
      | Some t \<Rightarrow>
          (case hrm_find_producer_struct t gid st of
             None \<Rightarrow> (st, - EINVAL)
           | Some p \<Rightarrow>
               let st = upd_group (pr_group (producer_at st p)) (\<lambda>grp. grp\<lparr>slots := (slots grp)(pr_index (producer_at st p) :=
                     (slots grp (pr_index (producer_at st p)))\<lparr>hc_used := 0\<rparr>)\<rparr>) st
               in (hrm_drop_producer t p st, 0)))"

definition hrm_producer_task_enabled_group :: "tid option \<Rightarrow> int \<Rightarrow> hrm_state \<Rightarrow> int" where
  "hrm_producer_task_enabled_group task gid st =
     (case task of None \<Rightarrow> - EINVAL | Some t \<Rightarrow> if hrm_find_producer_struct t gid st \<noteq> None then 1 else 0)"

definition hrm_producer_task_enabled :: "tid option \<Rightarrow> hrm_state \<Rightarrow> int" where
  "hrm_producer_task_enabled task st =
     (case task of None \<Rightarrow> - EINVAL | Some t \<Rightarrow> if hrm_producers st t \<noteq> [] then 1 else 0)"

definition hrm_delete_producer_task_from_all_groups :: "tid option \<Rightarrow> hrm_state \<Rightarrow> hrm_state \<times> int" where
  "hrm_delete_producer_task_from_all_groups task st =
     (case task of
        None \<Rightarrow> (st, - EINVAL)
      | Some t \<Rightarrow>
          if hrm_producer_task_enabled (Some t) st = 0 then (st, - EINVAL)
          else (fold (hrm_drop_producer t) (hrm_producers st t) st, 0))"

section \<open>Consumers\<close>

definition hrm_find_consumer_struct :: "tid \<Rightarrow> int \<Rightarrow> hrm_state \<Rightarrow> nat option" where
  "hrm_find_consumer_struct t gid st =
     find (\<lambda>p. hg_gid (group_at st (co_group (consumer_at st p))) = gid) (hrm_consumers st t)"

definition hrm_enlist_consumer :: "tid \<Rightarrow> nat \<Rightarrow> nat \<Rightarrow> bool \<Rightarrow> hrm_state \<Rightarrow> hrm_state" where
  "hrm_enlist_consumer t p g group_exists st =
     (let st = st\<lparr>consumer_at := (consumer_at st)(p := \<lparr>co_group = g, co_counter_address = 0, co_measures_address = 0,
             co_goal_address = 0\<rparr>)\<rparr>;
          st = st\<lparr>hrm_consumers := (hrm_consumers st)(t := p # hrm_consumers st t)\<rparr>;
          st = upd_group g (\<lambda>grp. grp\<lparr>consumers := p # consumers grp\<rparr>) st
      in if \<not> group_exists then hrm_add_group g st else st)"

definition hrm_add_consumer_task_to_group ::
  "tid option \<Rightarrow> int \<Rightarrow> nat option \<Rightarrow> group_alloc \<Rightarrow> hrm_state \<Rightarrow> hrm_state \<times> int" where
  "hrm_add_consumer_task_to_group task gid kz alloc st =
     (case task of
        None \<Rightarrow> (st, - EINVAL)
      | Some t \<Rightarrow>
          if hrm_find_consumer_struct t gid st \<noteq> None then (st, - EINVAL)
          else case kz of
              None \<Rightarrow> (st, - ENOMEM)
            | Some p \<Rightarrow>
                (case hrm_find_group gid st of
                   Some g \<Rightarrow> (hrm_enlist_consumer t p g True st, 0)
                 | None \<Rightarrow> (case hrm_create_group gid alloc st of
                       (st, Inl r) \<Rightarrow> (st, r)
                     | (st, Inr g) \<Rightarrow> (hrm_enlist_consumer t p g False st, 0))))"

definition hrm_drop_consumer :: "tid \<Rightarrow> nat \<Rightarrow> hrm_state \<Rightarrow> hrm_state" where
  "hrm_drop_consumer t p st =
     (let g = co_group (consumer_at st p);
          st = st\<lparr>hrm_consumers := (hrm_consumers st)(t := remove1 p (hrm_consumers st t))\<rparr>;
          st = upd_group g (\<lambda>grp. grp\<lparr>consumers := remove1 p (consumers grp)\<rparr>) st
      in hrm_reap_group g (hrm_put_maps t g st))"

definition hrm_delete_consumer_task_from_group :: "tid option \<Rightarrow> int \<Rightarrow> hrm_state \<Rightarrow> hrm_state \<times> int" where
  "hrm_delete_consumer_task_from_group task gid st =
     (case task of
        None \<Rightarrow> (st, - EINVAL)
      | Some t \<Rightarrow>
          (case hrm_find_consumer_struct t gid st of
             None \<Rightarrow> (st, - EINVAL)
           | Some p \<Rightarrow> (hrm_drop_consumer t p st, 0)))"

definition hrm_consumer_task_enabled_group :: "tid option \<Rightarrow> int \<Rightarrow> hrm_state \<Rightarrow> int" where
  "hrm_consumer_task_enabled_group task gid st =
     (case task of None \<Rightarrow> - EINVAL | Some t \<Rightarrow> if hrm_find_consumer_struct t gid st \<noteq> None then 1 else 0)"

definition hrm_consumer_task_enabled :: "tid option \<Rightarrow> hrm_state \<Rightarrow> int" where
  "hrm_consumer_task_enabled task st =
     (case task of None \<Rightarrow> - EINVAL | Some t \<Rightarrow> if hrm_consumers st t \<noteq> [] then 1 else 0)"

definition hrm_delete_consumer_task_from_all_groups :: "tid option \<Rightarrow> hrm_state \<Rightarrow> hrm_state \<times> int" where
  "hrm_delete_consumer_task_from_all_groups task st =
     (case task of
        None \<Rightarrow> (st, - EINVAL)
      | Some t \<Rightarrow>
          if hrm_consumer_task_enabled (Some t) st = 0 then (st, - EINVAL)
          else (fold (hrm_drop_consumer t) (hrm_consumers st t) st, 0))"

section \<open>Reading heart rates\<close>

text \<open>Division by zero is an oops.\<close>

definition div64_u64 :: "int \<Rightarrow> int \<Rightarrow> int outcome" where
  "div64_u64 a b = (if b = 0 then Oops else Returns (a div b))"

definition MSEC_PER_SEC :: int where [simp]: "MSEC_PER_SEC = 1000"
definition USEC_PER_SEC :: int where [simp]: "USEC_PER_SEC = 1000000"

definition hrm_compute_hr :: "int \<Rightarrow> int \<Rightarrow> int outcome" where
  "hrm_compute_hr count time =
     (let scaled_count = u64 (count * USEC_PER_SEC)
      in case div64_u64 MSEC_PER_SEC HRM_MEASURE_SCALE of
           Oops \<Rightarrow> Oops
         | Returns scaled_time \<Rightarrow>
             (case div64_u64 time scaled_time of
                Oops \<Rightarrow> Oops
              | Returns scaled_time \<Rightarrow> div64_u64 scaled_count scaled_time))"

text \<open>The readers take the lock of the goal, which lives in the shared page, by spinning: None means that the
  lock is held and the reader does not come back.  Otherwise the result is the rate with the second
  result of the function.\<close>

definition measure_rate :: "hrm_measure \<Rightarrow> int outcome" where
  "measure_rate m = (if hm_time m \<noteq> 0 then hrm_compute_hr (hm_count m) (hm_time m) else Returns 0)"

definition hrm_seek_heart_rate :: "hrm_group option \<Rightarrow> int \<Rightarrow> (int \<times> int) outcome option" where
  "hrm_seek_heart_rate gr ws =
     (case gr of
        None \<Rightarrow> Some (Returns (0, - EFAULT))
      | Some grp \<Rightarrow>
          if ws > HRM_MAX_WINDOW_SIZE then Some (Returns (0, - EINVAL))
          else if goal_lock (goal grp) \<noteq> 0 then None
          else if ws = 0 then Some (map_outcome (\<lambda>hr. (hr, 0)) (measure_rate (ms_global (measures grp))))
          else (case find (\<lambda>i. window_size (goal grp) i = ws \<and> hm_time (ms_window (measures grp) i) \<noteq> 0) [0..<HRM_MAX_WINDOWS] of
                  Some i \<Rightarrow> Some (map_outcome (\<lambda>hr. (hr, int i + 1))
                     (hrm_compute_hr (hm_count (ms_window (measures grp) i)) (hm_time (ms_window (measures grp) i))))
                | None \<Rightarrow> Some (Returns (0, - EINVAL))))"

definition hrm_get_heart_rate :: "hrm_group option \<Rightarrow> int \<Rightarrow> (int \<times> int) outcome option" where
  "hrm_get_heart_rate gr key =
     (case gr of
        None \<Rightarrow> Some (Returns (0, HRM_MAX_WINDOW_SIZE))
      | Some grp \<Rightarrow>
          if key < 0 \<or> key > int HRM_MAX_WINDOWS then Some (Returns (0, HRM_MAX_WINDOW_SIZE))
          else if goal_lock (goal grp) \<noteq> 0 then None
          else if key = 0 then Some (map_outcome (\<lambda>hr. (hr, 0)) (measure_rate (ms_global (measures grp))))
          else let ws = window_size (goal grp) (nat (key - 1)); m = ms_window (measures grp) (nat (key - 1))
               in if ws \<noteq> 0 \<and> hm_time m \<noteq> 0
                  then Some (map_outcome (\<lambda>hr. (hr, ws)) (hrm_compute_hr (hm_count m) (hm_time m)))
                  else Some (Returns (0, HRM_MAX_WINDOW_SIZE)))"

definition hrm_get_min_heart_rate :: "hrm_group option \<Rightarrow> (int \<times> int) option" where
  "hrm_get_min_heart_rate gr =
     (case gr of
        None \<Rightarrow> Some (0, HRM_MAX_WINDOW_SIZE)
      | Some grp \<Rightarrow> if goal_lock (goal grp) \<noteq> 0 then None else Some (min_heart_rate (goal grp), goal_scope (goal grp)))"

definition hrm_get_max_heart_rate :: "hrm_group option \<Rightarrow> (int \<times> int) option" where
  "hrm_get_max_heart_rate gr =
     (case gr of
        None \<Rightarrow> Some (0, HRM_MAX_WINDOW_SIZE)
      | Some grp \<Rightarrow> if goal_lock (goal grp) \<noteq> 0 then None else Some (max_heart_rate (goal grp), goal_scope (goal grp)))"

section \<open>Time arithmetic\<close>

lemma u64_eq_iff: "u64 a = u64 b \<longleftrightarrow> 18446744073709551616 dvd a - b"
  unfolding u64_def by (rule mod_eq_dvd_iff)

lemma u64_cong_add: "u64 a = u64 b \<Longrightarrow> u64 (a + c) = u64 (b + c)"
  by (simp add: u64_eq_iff)

lemma u64_cong_mult: "u64 a = u64 b \<Longrightarrow> u64 (a * c) = u64 (b * c)"
  by (simp add: u64_eq_iff flip: left_diff_distrib)

lemma s64_cong: "u64 a = u64 b \<Longrightarrow> s64 a = s64 b"
  by (simp add: u64_eq_iff s64_def mod_eq_dvd_iff)

lemma u64_sec: "u64 (s64 a * c + b) = u64 (a * c + b)"
  by (intro u64_cong_add u64_cong_mult) simp

text \<open>The value of a time, and what the two loops do: they keep it, and end with the nanoseconds in range.\<close>

lemma norm_down_spec:
  "norm_down sec nsec = (s, n) \<Longrightarrow>
     u64 (s * NSEC_PER_SEC + n) = u64 (sec * NSEC_PER_SEC + nsec) \<and> n < NSEC_PER_SEC \<and> (0 \<le> nsec \<longrightarrow> 0 \<le> n)"
proof (induction sec nsec rule: norm_down.induct)
  case (1 sec nsec)
  show ?case
  proof (cases "nsec \<ge> NSEC_PER_SEC")
    case True
    then have "norm_down (s64 (sec + 1)) (nsec - NSEC_PER_SEC) = (s, n)"
      using "1.prems" by (simp add: norm_down.simps [of sec])
    moreover have "u64 (s64 (sec + 1) * NSEC_PER_SEC + (nsec - NSEC_PER_SEC)) = u64 (sec * NSEC_PER_SEC + nsec)"
      unfolding u64_sec by (simp add: algebra_simps)
    ultimately show ?thesis
      using "1.IH" [OF True] True by simp
  next
    case False
    then show ?thesis using "1.prems" by (auto simp: norm_down.simps [of sec])
  qed
qed

lemma norm_up_spec:
  "norm_up sec nsec = (s, n) \<Longrightarrow> nsec < NSEC_PER_SEC \<Longrightarrow>
     u64 (s * NSEC_PER_SEC + n) = u64 (sec * NSEC_PER_SEC + nsec) \<and> 0 \<le> n \<and> n < NSEC_PER_SEC"
proof (induction sec nsec rule: norm_up.induct)
  case (1 sec nsec)
  show ?case
  proof (cases "nsec < 0")
    case True
    then have "norm_up (s64 (sec - 1)) (nsec + NSEC_PER_SEC) = (s, n)"
      using "1.prems" by (simp add: norm_up.simps [of sec])
    moreover have "u64 (s64 (sec - 1) * NSEC_PER_SEC + (nsec + NSEC_PER_SEC)) = u64 (sec * NSEC_PER_SEC + nsec)"
      unfolding u64_sec by (simp add: algebra_simps)
    ultimately show ?thesis
      using "1.IH" [OF True] True by simp
  next
    case False
    then show ?thesis using "1.prems" by (auto simp: norm_up.simps [of sec])
  qed
qed

lemma set_normalized_timespec_spec:
  "u64 (tv_sec (set_normalized_timespec sec nsec) * NSEC_PER_SEC + tv_nsec (set_normalized_timespec sec nsec)) =
     u64 (sec * NSEC_PER_SEC + nsec)"
  "0 \<le> tv_nsec (set_normalized_timespec sec nsec)"
  "tv_nsec (set_normalized_timespec sec nsec) < NSEC_PER_SEC"
proof -
  obtain s n where d: "norm_down sec nsec = (s, n)" by fastforce
  obtain s' n' where u: "norm_up s n = (s', n')" by fastforce
  from norm_down_spec [OF d] norm_up_spec [OF u]
  show "u64 (tv_sec (set_normalized_timespec sec nsec) * NSEC_PER_SEC + tv_nsec (set_normalized_timespec sec nsec)) =
     u64 (sec * NSEC_PER_SEC + nsec)"
  "0 \<le> tv_nsec (set_normalized_timespec sec nsec)"
  "tv_nsec (set_normalized_timespec sec nsec) < NSEC_PER_SEC"
    by (simp_all add: set_normalized_timespec_def d u del: NSEC_PER_SEC_def)
qed

text \<open>C40. The loops of \<open>set_normalized_timespec\<close> end for all arguments, so the subtraction of two times always
  returns, with the nanoseconds between 0 and 999999999, and its value in nanoseconds is the difference
  of the two values, wrapped to 64 bits.\<close>

theorem timespec_sub_terminates:
  "0 \<le> tv_nsec (timespec_sub a b) \<and> tv_nsec (timespec_sub a b) < 1000000000 \<and>
   timespec_to_ns (timespec_sub a b) = s64 (timespec_to_ns a - timespec_to_ns b)"
proof (intro conjI)
  show "0 \<le> tv_nsec (timespec_sub a b)" "tv_nsec (timespec_sub a b) < 1000000000"
    using set_normalized_timespec_spec by (simp_all add: timespec_sub_def)
  let ?da = "tv_sec a - tv_sec b" and ?dn = "tv_nsec a - tv_nsec b"
  have "u64 (tv_sec (timespec_sub a b) * NSEC_PER_SEC + tv_nsec (timespec_sub a b)) =
      u64 (s64 ?da * NSEC_PER_SEC + s64 ?dn)"
    unfolding timespec_sub_def by (rule set_normalized_timespec_spec)
  also have "\<dots> = u64 (?da * NSEC_PER_SEC + ?dn)"
    by (simp only: u64_add_s64 u64_sec)
  also have "\<dots> = u64 ((tv_sec a * NSEC_PER_SEC + tv_nsec a) - (tv_sec b * NSEC_PER_SEC + tv_nsec b))"
    by (simp add: algebra_simps)
  also have "\<dots> = u64 (timespec_to_ns a - timespec_to_ns b)"
    unfolding timespec_to_ns_def u64_eq_iff
    by (metis (no_types) u64_diff_left u64_diff_right u64_eq_iff u64_s64)
  finally show "timespec_to_ns (timespec_sub a b) = s64 (timespec_to_ns a - timespec_to_ns b)"
    unfolding timespec_to_ns_def by (intro s64_cong) simp
qed

section \<open>The ring of samples\<close>

text \<open>The abstract history of a group is the list of its samples, the newest first.  The ring holds the newest
  1024 of them, behind \<open>window_cur\<close>.\<close>

definition ring_rep :: "hrm_group \<Rightarrow> hrm_sample list \<Rightarrow> bool" where
  "ring_rep grp hs \<longleftrightarrow> buffered grp = min (int (length hs)) 1024 \<and> 0 \<le> window_cur grp \<and> window_cur grp < 1024 \<and>
     (\<forall>k < length hs. k < 1024 \<longrightarrow> hwindow grp (nat ((window_cur grp - 1 - int k) mod 1024)) = hs ! k)"

lemma and_1023: "x AND 1023 = x mod (1024::int)"
  using take_bit_eq_mask [of 10 x] by (simp add: take_bit_eq_mod mask_eq_exp_minus_1)

lemma u64_mod_1024: "u64 x mod 1024 = x mod 1024"
  by (simp add: u64_def mod_mod_cancel)

lemma ring_other:
  assumes "0 \<le> c" and "c < 1024" and "1 \<le> k" and "k < 1024"
  shows "nat ((c - int k) mod 1024) \<noteq> nat c"
proof
  assume "nat ((c - int k) mod 1024) = nat c"
  then have "(c - int k) mod 1024 = c mod 1024" using assms by simp
  then have "1024 dvd int k" by (simp add: mod_eq_dvd_iff)
  then have "1024 \<le> int k" using assms by (intro zdvd_imp_le) simp_all
  with assms show False by simp
qed

text \<open>What a tick does to the group.\<close>

definition tick_group :: "hrm_group \<Rightarrow> int \<Rightarrow> timespec \<Rightarrow> hrm_group" where
  "tick_group grp heartbeats elapsed_time =
     (let m = (measures grp)\<lparr>ms_global := \<lparr>hm_count = heartbeats, hm_time = u64 (timespec_to_ns elapsed_time)\<rparr>\<rparr>;
          win = (hwindow grp)(nat (window_cur grp) := \<lparr>hw_counter = heartbeats, hw_elapsed = elapsed_time\<rparr>)
      in grp\<lparr>timer_armed := True, hwindow := win,
           measures := (if buffered grp = 0 then m else
             fold (hrm_window (grp\<lparr>timer_armed := True, measures := m, hwindow := win\<rparr>) heartbeats elapsed_time) [0..<HRM_MAX_WINDOWS] m),
           buffered := (if buffered grp < HRM_MAX_WINDOW_SIZE then buffered grp + 1 else buffered grp),
           window_cur := (window_cur grp + 1) AND (HRM_MAX_WINDOW_SIZE - 1)\<rparr>)"

lemma hrm_counter_of_upd_group:
  assumes "slots (f (group_at st g)) = slots (group_at st g)"
  shows "hrm_counter_of p (upd_group g f st) = hrm_counter_of p st"
  using assms by (cases "pr_group (producer_at st p) = g") (simp_all add: hrm_counter_of_def upd_group_def)

lemma hrm_sum_armed: "hrm_sum g (upd_group g (\<lambda>grp. grp\<lparr>timer_armed := True\<rparr>) st) = hrm_sum g st"
  by (simp add: hrm_sum_def hrm_counter_of_upd_group) (simp add: upd_group_def)

lemma hrm_update_group_measures_eq:
  "hrm_update_group_measures g now st =
     upd_group g (\<lambda>grp. tick_group grp (hrm_sum g st) (timespec_sub now (timestamp grp))) st"
proof -
  define s where "s = hrm_sum g st"
  show ?thesis
    unfolding hrm_update_group_measures_def Let_def hrm_sum_armed s_def [symmetric]
    by (cases "buffered (group_at st g) = 0"; cases "group_at st g") (simp_all add: upd_group_def tick_group_def Let_def)
qed

lemma fold_hrm_window:
  assumes "distinct is"
  shows "ms_window (fold (hrm_window grp hb el) is m) i =
     (if i \<in> set is then ms_window (hrm_window grp hb el i m) i else ms_window m i)"
    and "ms_global (fold (hrm_window grp hb el) is m) = ms_global m"
  using assms by (induction "is" arbitrary: m) (auto simp: hrm_window_def Let_def)

text \<open>The window that a user asked for reaches back \<open>ws\<close> samples, or to the oldest one kept.\<close>

definition window_back :: "hrm_group \<Rightarrow> nat \<Rightarrow> nat" where
  "window_back grp i = nat (min (window_size (goal grp) i) (buffered grp))"

lemma hrm_window_at:
  assumes "window_size (goal grp) i \<noteq> 0"
    and k: "int k = (if window_size (goal grp) i > buffered grp then buffered grp else window_size (goal grp) i)"
    and s: "hwindow grp (nat ((window_cur grp - int k) mod 1024)) = s"
  shows "ms_window (hrm_window grp hb el i m) i =
    \<lparr>hm_count = u64 (hb - hw_counter s), hm_time = u64 (timespec_to_ns (timespec_sub el (hw_elapsed s)))\<rparr>"
  unfolding hrm_window_def Let_def k [symmetric] using assms(1) s by (simp add: and_1023 u64_mod_1024)

lemma tick_group_window:
  assumes r: "ring_rep grp hs" and hs: "hs \<noteq> []" and i: "i < HRM_MAX_WINDOWS"
    and ws: "0 < window_size (goal grp) i" and b: "window_back grp i < 1024"
  shows "ms_window (measures (tick_group grp hb el)) i =
    \<lparr>hm_count = u64 (hb - hw_counter (hs ! (window_back grp i - 1))),
      hm_time = u64 (timespec_to_ns (timespec_sub el (hw_elapsed (hs ! (window_back grp i - 1)))))\<rparr>"
proof -
  let ?ws = "window_size (goal grp) i" and ?k = "window_back grp i"
  have buf: "0 < buffered grp" and cur: "0 \<le> window_cur grp" "window_cur grp < 1024"
    using r hs by (auto simp: ring_rep_def)
  have k: "int ?k = (if ?ws > buffered grp then buffered grp else ?ws)" and k1: "1 \<le> ?k"
    using ws buf by (auto simp: window_back_def)
  have len: "?k - 1 < length hs" using r k k1 by (auto simp: ring_rep_def split: if_splits)
  have eq: "window_cur grp - 1 - int (?k - 1) = window_cur grp - int ?k" using k1 by simp
  have "nat ((window_cur grp - int ?k) mod 1024) \<noteq> nat (window_cur grp)"
    using ring_other [OF cur k1 b] .
  moreover have "hwindow grp (nat ((window_cur grp - 1 - int (?k - 1)) mod 1024)) = hs ! (?k - 1)"
    using r len b unfolding ring_rep_def by (metis less_imp_diff_less)
  ultimately have "((hwindow grp)(nat (window_cur grp) := v)) (nat ((window_cur grp - int ?k) mod 1024)) = hs ! (?k - 1)" for v
    unfolding eq by simp
  then have s: "hwindow (grp\<lparr>timer_armed := True, measures := m, hwindow := (hwindow grp)(nat (window_cur grp) := v)\<rparr>)
      (nat ((window_cur (grp\<lparr>timer_armed := True, measures := m, hwindow := (hwindow grp)(nat (window_cur grp) := v)\<rparr>) - int ?k)
        mod 1024)) = hs ! (?k - 1)" for v m
    by simp
  have "ms_window (measures (tick_group grp hb el)) i = ms_window (fold (hrm_window (grp\<lparr>timer_armed := True,
      measures := (measures grp)\<lparr>ms_global := \<lparr>hm_count = hb, hm_time = u64 (timespec_to_ns el)\<rparr>\<rparr>,
      hwindow := (hwindow grp)(nat (window_cur grp) := \<lparr>hw_counter = hb, hw_elapsed = el\<rparr>)\<rparr>) hb el) [0..<HRM_MAX_WINDOWS]
      ((measures grp)\<lparr>ms_global := \<lparr>hm_count = hb, hm_time = u64 (timespec_to_ns el)\<rparr>\<rparr>)) i"
    using buf by (simp add: tick_group_def Let_def)
  with i show ?thesis
    unfolding fold_hrm_window(1) [OF distinct_upt] by (subst (asm) hrm_window_at [OF _ _ s]) (use ws k in simp_all)
qed

lemma ring_rep_tick:
  assumes r: "ring_rep grp hs"
  shows "ring_rep (tick_group grp hb el) (\<lparr>hw_counter = hb, hw_elapsed = el\<rparr> # hs)"
proof -
  have cur: "0 \<le> window_cur grp" "window_cur grp < 1024"
    and buf: "buffered grp = min (int (length hs)) 1024"
    using r by (simp_all add: ring_rep_def)
  have w: "hwindow grp (nat ((window_cur grp - 1 - int k) mod 1024)) = hs ! k" if "k < length hs" "k < 1024" for k
    using r that by (simp add: ring_rep_def)
  let ?g = "tick_group grp hb el" and ?x = "\<lparr>hw_counter = hb, hw_elapsed = el\<rparr>"
  have cur': "window_cur ?g = (window_cur grp + 1) mod 1024"
    by (simp add: tick_group_def Let_def and_1023)
  have win: "hwindow ?g = (hwindow grp)(nat (window_cur grp) := ?x)" by (simp add: tick_group_def Let_def)
  have "hwindow ?g (nat ((window_cur ?g - 1 - int k) mod 1024)) = (?x # hs) ! k"
    if k: "k < length (?x # hs)" "k < 1024" for k
  proof -
    have e: "(window_cur ?g - 1 - int k) mod 1024 = (window_cur grp - int k) mod 1024"
      using mod_diff_left_eq [of "window_cur grp + 1" 1024 "1 + int k"] by (simp add: cur' algebra_simps)
    show ?thesis
    proof (cases k)
      case 0
      then show ?thesis unfolding e win using cur by simp
    next
      case (Suc j)
      have "nat ((window_cur grp - int k) mod 1024) \<noteq> nat (window_cur grp)"
        using ring_other [OF cur _ k(2)] Suc by simp
      then show ?thesis unfolding e win using w [of j] k Suc by (simp add: algebra_simps)
    qed
  qed
  moreover have "buffered ?g = min (int (length (?x # hs))) 1024"
    using buf by (simp add: tick_group_def Let_def)
  ultimately show ?thesis
    using cur' by (simp only: ring_rep_def) simp
qed

lemma tick_group_full_window:
  assumes r: "ring_rep grp hs" and full: "1024 \<le> length hs" and i: "i < HRM_MAX_WINDOWS"
    and ws: "1024 \<le> window_size (goal grp) i"
  shows "ms_window (measures (tick_group grp hb el)) i = \<lparr>hm_count = 0, hm_time = u64 (timespec_to_ns (timespec_sub el el))\<rparr>"
proof -
  have cur: "0 \<le> window_cur grp" "window_cur grp < 1024" and buf: "buffered grp = 1024"
    using r full by (simp_all add: ring_rep_def)
  let ?m = "(measures grp)\<lparr>ms_global := \<lparr>hm_count = hb, hm_time = u64 (timespec_to_ns el)\<rparr>\<rparr>"
  let ?G = "grp\<lparr>timer_armed := True, measures := ?m,
      hwindow := (hwindow grp)(nat (window_cur grp) := \<lparr>hw_counter = hb, hw_elapsed = el\<rparr>)\<rparr>"
  have s: "hwindow ?G (nat ((window_cur ?G - int 1024) mod 1024)) = \<lparr>hw_counter = hb, hw_elapsed = el\<rparr>"
    using cur by simp
  have "ms_window (measures (tick_group grp hb el)) i = ms_window (fold (hrm_window ?G hb el) [0..<HRM_MAX_WINDOWS] ?m) i"
    using buf by (simp add: tick_group_def Let_def)
  with i show ?thesis
    unfolding fold_hrm_window(1) [OF distinct_upt] by (subst (asm) hrm_window_at [OF _ _ s]) (use ws buf in \<open>simp_all add: u64_def\<close>)
qed

text \<open>C32. The published windows are what they are meant to be.  Let the ring of a group hold the history \<open>hs\<close>, newest
  sample first.  A tick appends the sample it takes to the history, publishes the sum of the heartbeats and
  the time since the start of the group as the global measure, and publishes for every window of nonzero
  size the heartbeats and the time since the sample \<open>ws\<close> ticks back, or since the oldest sample when fewer
  are there.  The size is read from memory shared with user space and may have any value; the claim
  needs that fewer than 1024 samples are in the ring, or that the size is below 1024.\<close>

theorem hrm_windows_refine_history:
  assumes "ring_rep (group_at st g) hs" and "hs \<noteq> []"
    and "i < HRM_MAX_WINDOWS" and "0 < window_size (goal (group_at st g)) i"
    and "length hs < 1024 \<or> window_size (goal (group_at st g)) i < 1024"
  shows "let elapsed = timespec_sub now (timestamp (group_at st g));
             s = hs ! (nat (min (window_size (goal (group_at st g)) i) (min (int (length hs)) 1024)) - 1);
             grp = group_at (hrm_update_group_measures g now st) g
         in ring_rep grp (\<lparr>hw_counter = hrm_sum g st, hw_elapsed = elapsed\<rparr> # hs) \<and>
            ms_global (measures grp) = \<lparr>hm_count = hrm_sum g st, hm_time = u64 (timespec_to_ns elapsed)\<rparr> \<and>
            ms_window (measures grp) i =
              \<lparr>hm_count = u64 (hrm_sum g st - hw_counter s), hm_time = u64 (timespec_to_ns (timespec_sub elapsed (hw_elapsed s)))\<rparr>"
proof -
  have buf: "buffered (group_at st g) = min (int (length hs)) 1024"
    using assms(1) by (simp add: ring_rep_def)
  then have "window_back (group_at st g) i < 1024"
    using assms(5) by (auto simp: window_back_def)
  from tick_group_window [OF assms(1-4) this] ring_rep_tick [OF assms(1)] show ?thesis
    by (simp add: Let_def hrm_update_group_measures_eq upd_group_def window_back_def buf fold_hrm_window(2) tick_group_def)
qed

definition one_group :: hrm_state where
  "one_group = \<lparr>group_at = (\<lambda>_. (new_group 7)\<lparr>goal := (goal (new_group 7))\<lparr>window_size := (\<lambda>i. if i = 0 then 5 else 0)\<rparr>,
       slots := (\<lambda>_. \<lparr>hc_tid = 100, hc_used = 1, hc_counter = 42\<rparr>), window_cur := 1, buffered := 1, producers := [3],
       timestamp := \<lparr>tv_sec = 10, tv_nsec = 900000000\<rparr>\<rparr>),
     producer_at = (\<lambda>_. \<lparr>pr_task = 1, pr_index = 0, pr_group = 0, pr_counter_address = 0, pr_measures_address = 0, pr_goal_address = 0\<rparr>),
     consumer_at = (\<lambda>_. \<lparr>co_group = 0, co_counter_address = 0, co_measures_address = 0, co_goal_address = 0\<rparr>),
     hrm_groups = [0], hrm_producers = (\<lambda>t. if t = 1 then [3] else []), hrm_consumers = (\<lambda>_. []),
     hrm_pid = (\<lambda>t. 100), hrm_tgid = (\<lambda>t. 100)\<rparr>"

theorem hrm_windows_refine_history_witness:
  "ms_window (measures (group_at (hrm_update_group_measures 0 \<lparr>tv_sec = 11, tv_nsec = 0\<rparr> one_group) 0)) 0 =
     \<lparr>hm_count = 42, hm_time = 100000000\<rparr>"
proof -
  have "ring_rep (group_at one_group 0) [\<lparr>hw_counter = 0, hw_elapsed = zero_timespec\<rparr>]"
    by (simp add: ring_rep_def one_group_def new_group_def)
  from hrm_windows_refine_history [OF this, of 0 "\<lparr>tv_sec = 11, tv_nsec = 0\<rparr>"]
  have "ms_window (measures (group_at (hrm_update_group_measures 0 \<lparr>tv_sec = 11, tv_nsec = 0\<rparr> one_group) 0)) 0 =
     \<lparr>hm_count = u64 (hrm_sum 0 one_group - 0), hm_time = u64 (timespec_to_ns (timespec_sub
        (timespec_sub \<lparr>tv_sec = 11, tv_nsec = 0\<rparr> \<lparr>tv_sec = 10, tv_nsec = 900000000\<rparr>) zero_timespec))\<rparr>"
    by (simp add: Let_def one_group_def new_group_def)
  then show ?thesis
    by (simp add: hrm_sum_def hrm_counter_of_def one_group_def new_group_def timespec_sub_def set_normalized_timespec_def
      zero_timespec_def norm_down.simps norm_up.simps timespec_to_ns_def s64_def u64_def)
qed

text \<open>A window of the maximal size, 1024, stops measuring as soon as the ring is full: it is computed against the sample
  just written, and count and time are 0.\<close>

theorem hrm_full_window_measures_nothing:
  assumes "ring_rep (group_at st g) hs" and "1024 \<le> length hs" and "i < HRM_MAX_WINDOWS"
    and "window_size (goal (group_at st g)) i = HRM_MAX_WINDOW_SIZE"
  shows "ms_window (measures (group_at (hrm_update_group_measures g now st) g)) i = \<lparr>hm_count = 0, hm_time = 0\<rparr>"
proof -
  have "u64 (timespec_to_ns (timespec_sub x x)) = 0" for x
    using set_normalized_timespec_spec(1) [of "s64 0" "s64 0"]
    by (simp add: timespec_sub_def timespec_to_ns_def) (simp add: s64_def u64_def)
  then show ?thesis
    using tick_group_full_window [OF assms(1-3)] assms(4) by (simp add: hrm_update_group_measures_eq upd_group_def)
qed

text \<open>Five heartbeats in a second are 5000 thousandths of a heartbeat per second; the function gives 0.\<close>

theorem hrm_compute_hr_scale: "hrm_compute_hr 5 1000000000 = Returns 0"
  by (simp add: hrm_compute_hr_def div64_u64_def u64_def)

end
