(* ===== verification/Hrm_Group.thy ===== *)
theory Hrm_Group
  imports Hrm
begin

text \<open>
  Membership of groups.  The first part is the contract between the groups and the allocator of counter slots.
  The second states when the lists, the bitmap and the timers of the monitor fit together, and proves that
  adding and deleting producers and consumers keeps it.  The third is about the total of a group.
\<close>

declare HRM_GROUP_SIZE_def [simp del]

section \<open>The allocator of counters\<close>

locale slot_allocator =
  fixes taken :: "'b \<Rightarrow> nat \<Rightarrow> bool" and alloc :: "'b \<Rightarrow> 'b \<times> int" and release :: "nat \<Rightarrow> 'b \<Rightarrow> 'b" and limit :: nat
  assumes alloc_some: "alloc b = (b', i) \<Longrightarrow> 0 \<le> i \<Longrightarrow>
      nat i < limit \<and> \<not> taken b (nat i) \<and> (\<forall>j. taken b' j \<longleftrightarrow> j = nat i \<or> taken b j)"
    and alloc_none: "alloc b = (b', i) \<Longrightarrow> i < 0 \<Longrightarrow> b' = b \<and> (\<forall>j<limit. taken b j)"
    and release: "taken (release k b) j \<longleftrightarrow> j \<noteq> k \<and> taken b j"
begin

text \<open>The slots of the list are the ones that are taken, each once.\<close>

definition owned :: "'b \<Rightarrow> nat list \<Rightarrow> bool" where
  "owned b is \<longleftrightarrow> distinct is \<and> (\<forall>j. taken b j \<longleftrightarrow> j \<in> set is) \<and> (\<forall>j \<in> set is. j < limit)"

lemma owned_alloc: "owned b is \<Longrightarrow> alloc b = (b', i) \<Longrightarrow> 0 \<le> i \<Longrightarrow> owned b' (nat i # is)"
  using alloc_some [of b b' i] by (auto simp: owned_def)

lemma owned_release: "owned b is \<Longrightarrow> owned (release i b) (remove1 i is)"
  using notin_set_remove1 [of _ "is" i] by (auto simp: owned_def release)

lemma owned_full:
  assumes "owned b is" and "alloc b = (b', i)" and "i < 0"
  shows "b' = b" and "length is = limit"
proof -
  have "set is = {..<limit}"
    using assms alloc_none [OF assms(2,3)] by (auto simp: owned_def)
  then show "length is = limit"
    using assms(1) distinct_card [of "is"] by (simp add: owned_def)
  show "b' = b" using alloc_none [OF assms(2,3)] by simp
qed

end

lemma region_one: "region i 0 = {i}"
  by (auto simp: region_def)

interpretation hc: slot_allocator "\<lambda>b i. test_bit i b" "\<lambda>b. bitmap_find_free_region b HRM_GROUP_SIZE 0"
  "\<lambda>i b. bitmap_release_region b i 0" HRM_GROUP_SIZE
proof
  fix b b' :: bitmap and i :: int
  assume a: "bitmap_find_free_region b HRM_GROUP_SIZE 0 = (b', i)"
  note r = bitmap_find_free_region_result [of b HRM_GROUP_SIZE 0]
  show "nat i < HRM_GROUP_SIZE \<and> \<not> test_bit (nat i) b \<and> (\<forall>j. test_bit j b' \<longleftrightarrow> j = nat i \<or> test_bit j b)" if "0 \<le> i"
    using r a that by (auto simp: free_at_def region_one reg_op_alloc errno_defs)
  show "b' = b \<and> (\<forall>j<HRM_GROUP_SIZE. test_bit j b)" if "i < 0"
    using r a that by (auto simp: free_at_def region_one)
next
  show "test_bit j (bitmap_release_region b i 0) \<longleftrightarrow> j \<noteq> i \<and> test_bit j b" for b i j
    using reg_op_release [of 0 i j b] by (simp add: region_one)
qed

section \<open>The invariant\<close>

definition group_ok :: "hrm_state \<Rightarrow> nat \<Rightarrow> bool" where
  "group_ok st g \<longleftrightarrow>
     hc.owned (counters_allocation (group_at st g)) (map (\<lambda>p. pr_index (producer_at st p)) (producers (group_at st g))) \<and>
     (\<forall>p \<in> set (producers (group_at st g)). pr_group (producer_at st p) = g \<and> p \<in> set (hrm_producers st (pr_task (producer_at st p)))) \<and>
     distinct (consumers (group_at st g)) \<and>
     (\<forall>p \<in> set (consumers (group_at st g)). co_group (consumer_at st p) = g \<and> (\<exists>t. p \<in> set (hrm_consumers st t))) \<and>
     (producers (group_at st g) \<noteq> [] \<or> timespec_to_ns (timestamp (group_at st g)) \<noteq> 0 \<longrightarrow> timer_armed (group_at st g))"

definition thread_ok :: "nat list \<Rightarrow> hrm_state \<Rightarrow> tid \<Rightarrow> bool" where
  "thread_ok gs st t \<longleftrightarrow>
     distinct (map (\<lambda>p. pr_group (producer_at st p)) (hrm_producers st t)) \<and>
     (\<forall>p \<in> set (hrm_producers st t). pr_task (producer_at st p) = t \<and> pr_group (producer_at st p) \<in> set gs \<and>
        p \<in> set (producers (group_at st (pr_group (producer_at st p))))) \<and>
     distinct (map (\<lambda>p. co_group (consumer_at st p)) (hrm_consumers st t)) \<and>
     (\<forall>p \<in> set (hrm_consumers st t). co_group (consumer_at st p) \<in> set gs \<and>
        p \<in> set (consumers (group_at st (co_group (consumer_at st p)))))"

text \<open>The invariant of the groups of a list, empty ones allowed; a consumer belongs to one thread.\<close>

definition hrm_base :: "nat list \<Rightarrow> hrm_state \<Rightarrow> bool" where
  "hrm_base gs st \<longleftrightarrow> distinct (map (\<lambda>g. hg_gid (group_at st g)) gs) \<and> (\<forall>g \<in> set gs. group_ok st g) \<and>
     (\<forall>t. thread_ok gs st t) \<and>
     (\<forall>p t t'. p \<in> set (hrm_consumers st t) \<longrightarrow> p \<in> set (hrm_consumers st t') \<longrightarrow> t = t')"

definition hrm_inv :: "hrm_state \<Rightarrow> bool" where
  "hrm_inv st \<longleftrightarrow> hrm_base (hrm_groups st) st \<and>
     (\<forall>g \<in> set (hrm_groups st). producers (group_at st g) \<noteq> [] \<or> consumers (group_at st g) \<noteq> [])"

text \<open>What the allocations give: addresses not in use.\<close>

definition fresh_producer :: "nat \<Rightarrow> hrm_state \<Rightarrow> bool" where
  "fresh_producer p st \<longleftrightarrow> (\<forall>t. p \<notin> set (hrm_producers st t))"

definition fresh_consumer :: "nat \<Rightarrow> hrm_state \<Rightarrow> bool" where
  "fresh_consumer p st \<longleftrightarrow> (\<forall>t. p \<notin> set (hrm_consumers st t))"

lemma hrm_baseD:
  assumes "hrm_base gs st"
  shows "distinct gs" and "inj_on (\<lambda>g. hg_gid (group_at st g)) (set gs)"
    and "g \<in> set gs \<Longrightarrow> group_ok st g" and "thread_ok gs st t"
    and "p \<in> set (hrm_consumers st t) \<Longrightarrow> p \<in> set (hrm_consumers st t') \<Longrightarrow> t = t'"
  using assms by (auto simp: hrm_base_def distinct_map)

text \<open>The parts of a state the invariant is about; operations that keep them keep it.\<close>

definition hrm_view :: "hrm_group \<Rightarrow> int \<times> bitmap \<times> nat list \<times> nat list \<times> bool \<times> timespec" where
  "hrm_view grp = (hg_gid grp, counters_allocation grp, producers grp, consumers grp, timer_armed grp, timestamp grp)"

lemma hrm_base_view:
  assumes "\<And>g. hrm_view (group_at st' g) = hrm_view (group_at st g)"
    and "producer_at st' = producer_at st" "consumer_at st' = consumer_at st"
    and "hrm_producers st' = hrm_producers st" "hrm_consumers st' = hrm_consumers st"
  shows "hrm_base gs st' = hrm_base gs st"
proof -
  have "hg_gid (group_at st' g) = hg_gid (group_at st g)" "counters_allocation (group_at st' g) = counters_allocation (group_at st g)"
    "producers (group_at st' g) = producers (group_at st g)" "consumers (group_at st' g) = consumers (group_at st g)"
    "timer_armed (group_at st' g) = timer_armed (group_at st g)" "timestamp (group_at st' g) = timestamp (group_at st g)" for g
    using assms(1) [of g] by (simp_all add: hrm_view_def)
  then show ?thesis
    by (simp add: hrm_base_def group_ok_def thread_ok_def assms(2-))
qed

lemma new_group_fields [simp]:
  "producers (new_group gid) = []" "consumers (new_group gid) = []" "hg_gid (new_group gid) = gid"
  "counters_allocation (new_group gid) = (\<lambda>_. 0)" "timespec_to_ns (timestamp (new_group gid)) = 0"
  by (simp_all add: new_group_def zero_timespec_def timespec_to_ns_def s64_def)

lemma owned_new: "hc.owned (\<lambda>_. 0) []"
  unfolding hc.owned_def by (simp add: test_bit_def)

lemma hrm_base_create:
  assumes b: "hrm_base gs st" and g: "g \<notin> set gs" and gid: "\<forall>h \<in> set gs. hg_gid (group_at st h) \<noteq> gid"
  shows "hrm_base (g # gs) (upd_group g (\<lambda>_. new_group gid) st)"
proof -
  let ?st = "upd_group g (\<lambda>_. new_group gid) st"
  have e: "group_at ?st h = group_at st h" if "h \<in> set gs" for h using that g by (auto simp: upd_group_def)
  have n: "group_at ?st g = new_group gid" by (simp add: upd_group_def)
  have f: "producer_at ?st = producer_at st" "consumer_at ?st = consumer_at st" "hrm_producers ?st = hrm_producers st"
    "hrm_consumers ?st = hrm_consumers st" by (simp_all add: upd_group_def)
  have "group_ok ?st g"
    unfolding group_ok_def n f by (simp add: owned_new)
  moreover have "group_ok ?st h" if "h \<in> set gs" for h
    using hrm_baseD(3) [OF b that] e [OF that] by (simp add: group_ok_def f)
  moreover have "thread_ok (g # gs) ?st t" for t
    using hrm_baseD(4) [OF b, of t] e by (simp add: thread_ok_def f)
  moreover have "distinct (map (\<lambda>h. hg_gid (group_at ?st h)) (g # gs))"
  proof -
    have "map (\<lambda>h. hg_gid (group_at ?st h)) gs = map (\<lambda>h. hg_gid (group_at st h)) gs" using e by simp
    then have "distinct (map (\<lambda>h. hg_gid (group_at ?st h)) gs)" using b by (simp only: hrm_base_def)
    then show ?thesis using gid e by (auto simp: n)
  qed
  ultimately show ?thesis using b by (simp add: hrm_base_def f)
qed

text \<open>Joining a group as a producer, with slot \<open>i\<close> and the bitmap \<open>bm\<close> the allocator left.\<close>

lemma hrm_base_enlist:
  assumes b: "hrm_base gs st" and g: "g \<in> set gs" and p: "fresh_producer p st"
    and new: "\<forall>q \<in> set (hrm_producers st t). pr_group (producer_at st q) \<noteq> g"
    and own: "hc.owned bm (i # map (\<lambda>p. pr_index (producer_at st p)) (producers (group_at st g)))"
    and view: "\<And>h. hrm_view (group_at st' h) = (if h = g then
        (hg_gid (group_at st g), bm, p # producers (group_at st g), consumers (group_at st g), True, ts) else hrm_view (group_at st h))"
    and r: "producer_at st' = (producer_at st)(p := r)" "pr_task r = t" "pr_index r = i" "pr_group r = g"
    and rest: "consumer_at st' = consumer_at st" "hrm_consumers st' = hrm_consumers st"
      "hrm_producers st' = (hrm_producers st)(t := p # hrm_producers st t)"
  shows "hrm_base gs st'"
proof -
  have pg: "p \<notin> set (producers (group_at st h))" if "h \<in> set gs" for h
    using hrm_baseD(3) [OF b that] p by (auto simp: group_ok_def fresh_producer_def)
  have v: "hg_gid (group_at st' h) = hg_gid (group_at st h)" "consumers (group_at st' h) = consumers (group_at st h)"
    "h \<noteq> g \<Longrightarrow> producers (group_at st' h) = producers (group_at st h)"
    "h \<noteq> g \<Longrightarrow> counters_allocation (group_at st' h) = counters_allocation (group_at st h)"
    "h \<noteq> g \<Longrightarrow> timer_armed (group_at st' h) = timer_armed (group_at st h)"
    "h \<noteq> g \<Longrightarrow> timestamp (group_at st' h) = timestamp (group_at st h)"
    "producers (group_at st' g) = p # producers (group_at st g)" "counters_allocation (group_at st' g) = bm"
    "timer_armed (group_at st' g)" for h
    using view [of h] view [of g] by (simp_all add: hrm_view_def split: if_splits)
  have m: "map (\<lambda>q. pr_index (((producer_at st)(p := r)) q)) (producers (group_at st h)) =
      map (\<lambda>q. pr_index (producer_at st q)) (producers (group_at st h))" if "h \<in> set gs" for h
    using pg [OF that] by auto
  have own_g: "hc.owned bm (i # map (\<lambda>q. pr_index (((producer_at st)(p := r)) q)) (producers (group_at st g)))"
    unfolding m [OF g] by (rule own)
  have own_h: "hc.owned (counters_allocation (group_at st h)) (map (\<lambda>q. pr_index (((producer_at st)(p := r)) q)) (producers (group_at st h)))"
    if "h \<in> set gs" for h
    unfolding m [OF that] using hrm_baseD(3) [OF b that] by (simp only: group_ok_def)
  have "group_ok st' h" if h: "h \<in> set gs" for h
  proof (cases "h = g")
    case True
    then show ?thesis using hrm_baseD(3) [OF b g] pg [OF g] own_g r rest v
      by (auto simp: group_ok_def)
  next
    case False
    then show ?thesis using hrm_baseD(3) [OF b h] pg [OF h] own_h [OF h] r rest v
      by (auto simp: group_ok_def)
  qed
  moreover have "thread_ok gs st' u" for u
  proof -
    have mu: "map (\<lambda>q. pr_group (((producer_at st)(p := r)) q)) (hrm_producers st u) =
        map (\<lambda>q. pr_group (producer_at st q)) (hrm_producers st u)" for u
      using p by (auto simp: fresh_producer_def)
    have c: "q \<in> set (producers (group_at st' h))" if "q \<in> set (producers (group_at st h))" for q h
      using that v by (cases "h = g") auto
    have "q \<noteq> p" if "q \<in> set (hrm_producers st u)" for q u using that p by (auto simp: fresh_producer_def)
    moreover have "distinct (map (\<lambda>q. pr_group (((producer_at st)(p := r)) q)) (hrm_producers st u))"
      unfolding mu using hrm_baseD(4) [OF b, of u] by (simp only: thread_ok_def)
    ultimately show ?thesis using hrm_baseD(4) [OF b, of u] new g r v c
      by (cases "u = t") (auto simp: thread_ok_def rest)
  qed
  ultimately show ?thesis using b by (simp add: hrm_base_def v(1) rest)
qed

lemma hrm_base_enlist_consumer:
  assumes b: "hrm_base gs st" and g: "g \<in> set gs" and p: "fresh_consumer p st"
    and new: "\<forall>q \<in> set (hrm_consumers st t). co_group (consumer_at st q) \<noteq> g"
    and view: "\<And>h. hrm_view (group_at st' h) = (if h = g then
        (hg_gid (group_at st g), counters_allocation (group_at st g), producers (group_at st g), p # consumers (group_at st g),
         timer_armed (group_at st g), timestamp (group_at st g)) else hrm_view (group_at st h))"
    and r: "consumer_at st' = (consumer_at st)(p := r)" "co_group r = g"
    and rest: "producer_at st' = producer_at st" "hrm_producers st' = hrm_producers st"
      "hrm_consumers st' = (hrm_consumers st)(t := p # hrm_consumers st t)"
  shows "hrm_base gs st'"
proof -
  have pg: "p \<notin> set (consumers (group_at st h))" if "h \<in> set gs" for h
    using hrm_baseD(3) [OF b that] p by (auto simp: group_ok_def fresh_consumer_def)
  have v: "hg_gid (group_at st' h) = hg_gid (group_at st h)" "producers (group_at st' h) = producers (group_at st h)"
    "counters_allocation (group_at st' h) = counters_allocation (group_at st h)"
    "timer_armed (group_at st' h) = timer_armed (group_at st h)" "timestamp (group_at st' h) = timestamp (group_at st h)"
    "consumers (group_at st' h) = (if h = g then p # consumers (group_at st g) else consumers (group_at st h))" for h
    using view [of h] by (simp_all add: hrm_view_def split: if_splits)
  have pt: "q \<noteq> p" if "q \<in> set (hrm_consumers st u)" for q u using that p by (auto simp: fresh_consumer_def)
  have "group_ok st' h" if h: "h \<in> set gs" for h
  proof -
    have "co_group (((consumer_at st)(p := r)) q) = h" "\<exists>u. q \<in> set (hrm_consumers st' u)"
      if "q \<in> set (consumers (group_at st' h))" for q
      using hrm_baseD(3) [OF b h] that r(2) pg [OF h] by (auto simp: group_ok_def v rest split: if_splits)
    then show ?thesis using hrm_baseD(3) [OF b h] pg [OF h]
      unfolding group_ok_def v(1-5) rest(1,2) r(1) by (auto simp: v(6))
  qed
  moreover have "thread_ok gs st' u" for u
  proof -
    have mu: "map (\<lambda>q. co_group (((consumer_at st)(p := r)) q)) (hrm_consumers st u) =
        map (\<lambda>q. co_group (consumer_at st q)) (hrm_consumers st u)"
      using pt by auto
    have "distinct (map (\<lambda>q. co_group (((consumer_at st)(p := r)) q)) (hrm_consumers st u))"
      unfolding mu using hrm_baseD(4) [OF b, of u] by (simp only: thread_ok_def)
    then show ?thesis using hrm_baseD(4) [OF b, of u] new g r pt
      by (cases "u = t") (auto simp: thread_ok_def rest v)
  qed
  moreover have "u = u'" if "q \<in> set (hrm_consumers st' u)" "q \<in> set (hrm_consumers st' u')" for q u u'
    using that hrm_baseD(5) [OF b, of q u u'] pt [of q] by (auto simp: rest split: if_splits)
  ultimately show ?thesis using b unfolding hrm_base_def v(1) by blast
qed

section \<open>Leaving a group\<close>

lemma map_remove1:
  assumes "distinct (map f xs)" and "x \<in> set xs"
  shows "remove1 (f x) (map f xs) = map f (remove1 x xs)"
  using assms by (induction xs) (auto simp: image_iff)

lemma hrm_base_leave:
  assumes b: "hrm_base gs st" and p: "p \<in> set (hrm_producers st t)" and g: "pr_group (producer_at st p) = g"
    and view: "\<And>h. hrm_view (group_at st' h) = (if h = g then
        (hg_gid (group_at st g), bitmap_release_region (counters_allocation (group_at st g)) (pr_index (producer_at st p)) 0,
         remove1 p (producers (group_at st g)), consumers (group_at st g), timer_armed (group_at st g), timestamp (group_at st g))
        else hrm_view (group_at st h))"
    and rest: "producer_at st' = producer_at st" "consumer_at st' = consumer_at st" "hrm_consumers st' = hrm_consumers st"
      "hrm_producers st' = (hrm_producers st)(t := remove1 p (hrm_producers st t))"
  shows "hrm_base gs st'"
proof -
  have t: "thread_ok gs st t" by (rule hrm_baseD(4) [OF b])
  then have gs: "g \<in> set gs" and pg: "p \<in> set (producers (group_at st g))" and pt: "pr_task (producer_at st p) = t"
    and dt: "distinct (hrm_producers st t)" and dt': "distinct (map (\<lambda>q. pr_group (producer_at st q)) (hrm_producers st t))"
    using p g by (auto simp: thread_ok_def distinct_map)
  note gok = hrm_baseD(3) [OF b gs]
  then have own: "hc.owned (counters_allocation (group_at st g)) (map (\<lambda>p. pr_index (producer_at st p)) (producers (group_at st g)))"
    by (simp only: group_ok_def)
  then have dm: "distinct (map (\<lambda>p. pr_index (producer_at st p)) (producers (group_at st g)))"
    unfolding hc.owned_def by blast
  then have dp: "distinct (producers (group_at st g))" by (simp add: distinct_map)
  have v: "hg_gid (group_at st' h) = hg_gid (group_at st h)" "consumers (group_at st' h) = consumers (group_at st h)"
    "timer_armed (group_at st' h) = timer_armed (group_at st h)" "timestamp (group_at st' h) = timestamp (group_at st h)"
    "h \<noteq> g \<Longrightarrow> counters_allocation (group_at st' h) = counters_allocation (group_at st h)"
    "producers (group_at st' h) = (if h = g then remove1 p (producers (group_at st g)) else producers (group_at st h))"
    "counters_allocation (group_at st' g) = bitmap_release_region (counters_allocation (group_at st g)) (pr_index (producer_at st p)) 0" for h
    using view [of h] view [of g] by (simp_all add: hrm_view_def split: if_splits)
  have own': "hc.owned (counters_allocation (group_at st' g)) (map (\<lambda>p. pr_index (producer_at st p)) (producers (group_at st' g)))"
    using hc.owned_release [OF own, of "pr_index (producer_at st p)"] map_remove1 [OF dm pg] by (simp add: v(6,7))
  have mem: "q \<in> set (hrm_producers st' (pr_task (producer_at st q)))" "pr_group (producer_at st q) = h"
    if "q \<in> set (producers (group_at st' h))" "h \<in> set gs" for q h
  proof -
    have q: "q \<in> set (producers (group_at st h))" "q \<noteq> p"
      using that(1) dp hrm_baseD(3) [OF b that(2)] g by (auto simp: v(6) group_ok_def split: if_splits)
    then show "q \<in> set (hrm_producers st' (pr_task (producer_at st q)))" "pr_group (producer_at st q) = h"
      using hrm_baseD(3) [OF b that(2)] by (auto simp: rest group_ok_def)
  qed
  have "group_ok st' h" if h: "h \<in> set gs" for h
  proof (cases "h = g")
    case True
    then show ?thesis using gok own' mem [of _ g] gs unfolding group_ok_def rest(1-3) v(2-4)
      by (auto simp: v(6))
  next
    case False
    then show ?thesis using hrm_baseD(3) [OF b h] mem [of _ h] h unfolding group_ok_def rest(1-3) v(2-4) v(5) [OF False]
      by (auto simp: v(6))
  qed
  moreover have "thread_ok gs st' u" for u
  proof -
    have "distinct (map (\<lambda>q. pr_group (producer_at st q)) (remove1 p (hrm_producers st t)))"
      unfolding map_remove1 [OF dt' p, symmetric] by (rule distinct_remove1 [OF dt'])
    moreover have "q \<noteq> p" if "q \<in> set (hrm_producers st u)" "u \<noteq> t" for q
      using that pt hrm_baseD(4) [OF b, of u] by (auto simp: thread_ok_def)
    ultimately show ?thesis using hrm_baseD(4) [OF b, of u] dt dp pt
      by (cases "u = t") (auto simp: thread_ok_def rest v)
  qed
  ultimately show ?thesis using b unfolding hrm_base_def v(1) rest by blast
qed

lemma hrm_base_leave_consumer:
  assumes b: "hrm_base gs st" and p: "p \<in> set (hrm_consumers st t)" and g: "co_group (consumer_at st p) = g"
    and view: "\<And>h. hrm_view (group_at st' h) = (if h = g then
        (hg_gid (group_at st g), counters_allocation (group_at st g), producers (group_at st g),
         remove1 p (consumers (group_at st g)), timer_armed (group_at st g), timestamp (group_at st g))
        else hrm_view (group_at st h))"
    and rest: "producer_at st' = producer_at st" "consumer_at st' = consumer_at st" "hrm_producers st' = hrm_producers st"
      "hrm_consumers st' = (hrm_consumers st)(t := remove1 p (hrm_consumers st t))"
  shows "hrm_base gs st'"
proof -
  have t: "thread_ok gs st t" by (rule hrm_baseD(4) [OF b])
  then have gs: "g \<in> set gs" and pg: "p \<in> set (consumers (group_at st g))"
    and dt: "distinct (hrm_consumers st t)" and dt': "distinct (map (\<lambda>q. co_group (consumer_at st q)) (hrm_consumers st t))"
    using p g by (auto simp: thread_ok_def distinct_map)
  have dp: "distinct (consumers (group_at st g))" using hrm_baseD(3) [OF b gs] by (simp add: group_ok_def)
  have v: "hg_gid (group_at st' h) = hg_gid (group_at st h)" "producers (group_at st' h) = producers (group_at st h)"
    "counters_allocation (group_at st' h) = counters_allocation (group_at st h)"
    "timer_armed (group_at st' h) = timer_armed (group_at st h)" "timestamp (group_at st' h) = timestamp (group_at st h)"
    "consumers (group_at st' h) = (if h = g then remove1 p (consumers (group_at st g)) else consumers (group_at st h))" for h
    using view [of h] by (simp_all add: hrm_view_def split: if_splits)
  have mem: "\<exists>u. q \<in> set (hrm_consumers st' u)" "co_group (consumer_at st q) = h"
    if a: "q \<in> set (consumers (group_at st' h))" "h \<in> set gs" for q h
  proof -
    have q: "q \<in> set (consumers (group_at st h))" "q \<noteq> p"
      using a(1) dp hrm_baseD(3) [OF b a(2)] g by (auto simp: v(6) group_ok_def split: if_splits)
    then obtain u where "q \<in> set (hrm_consumers st u)" using hrm_baseD(3) [OF b a(2)] by (auto simp: group_ok_def)
    with q have "q \<in> set (hrm_consumers st' u)" by (auto simp: rest)
    then show "\<exists>u. q \<in> set (hrm_consumers st' u)" ..
    show "co_group (consumer_at st q) = h" using q hrm_baseD(3) [OF b a(2)] by (auto simp: group_ok_def)
  qed
  have "group_ok st' h" if h: "h \<in> set gs" for h
    using hrm_baseD(3) [OF b h] mem [of _ h] h dp unfolding group_ok_def rest(1-3) v(2-5)
    by (auto simp: v(6) distinct_remove1)
  moreover have "thread_ok gs st' u" for u
  proof -
    have "distinct (map (\<lambda>q. co_group (consumer_at st q)) (remove1 p (hrm_consumers st t)))"
      unfolding map_remove1 [OF dt' p, symmetric] by (rule distinct_remove1 [OF dt'])
    then show ?thesis using hrm_baseD(4) [OF b, of u] dt dp hrm_baseD(5) [OF b p, of u]
      by (cases "u = t") (auto simp: thread_ok_def rest v)
  qed
  moreover have "u = u'" if "q \<in> set (hrm_consumers st' u)" "q \<in> set (hrm_consumers st' u')" for q u u'
    using that hrm_baseD(5) [OF b, of q u u'] dt by (auto simp: rest split: if_splits dest: notin_set_remove1)
  ultimately show ?thesis using b unfolding hrm_base_def v(1) by blast
qed

lemma hrm_base_reap:
  assumes b: "hrm_base gs st" and g: "producers (group_at st g) = []" "consumers (group_at st g) = []"
    and e: "\<And>h. h \<noteq> g \<Longrightarrow> group_at st' h = group_at st h"
    and rest: "producer_at st' = producer_at st" "consumer_at st' = consumer_at st"
      "hrm_producers st' = hrm_producers st" "hrm_consumers st' = hrm_consumers st"
  shows "hrm_base (remove1 g gs) st'"
proof -
  have d: "distinct gs" by (rule hrm_baseD(1) [OF b])
  then have s: "set (remove1 g gs) = set gs - {g}" by simp
  have "group_ok st' h" if "h \<in> set (remove1 g gs)" for h
    using that hrm_baseD(3) [OF b, of h] e [of h] d by (simp add: s group_ok_def rest)
  moreover have "thread_ok (remove1 g gs) st' t" for t
  proof -
    have "pr_group (producer_at st p) \<noteq> g" if "p \<in> set (hrm_producers st t)" for p
      using that hrm_baseD(4) [OF b, of t] g by (auto simp: thread_ok_def)
    moreover have "co_group (consumer_at st p) \<noteq> g" if "p \<in> set (hrm_consumers st t)" for p
      using that hrm_baseD(4) [OF b, of t] g by (auto simp: thread_ok_def)
    ultimately show ?thesis using hrm_baseD(4) [OF b, of t] e by (simp add: thread_ok_def rest s)
  qed
  moreover have "distinct (map (\<lambda>h. hg_gid (group_at st' h)) (remove1 g gs))"
  proof -
    have "map (\<lambda>h. hg_gid (group_at st' h)) (remove1 g gs) = map (\<lambda>h. hg_gid (group_at st h)) (remove1 g gs)"
      using e s by simp
    moreover have "distinct (map (\<lambda>h. hg_gid (group_at st h)) (remove1 g gs))"
      using hrm_baseD(2) [OF b] d by (auto simp: distinct_map s inj_on_diff)
    ultimately show ?thesis by (simp only:)
  qed
  ultimately show ?thesis using b unfolding hrm_base_def rest by blast
qed

section \<open>The operations keep the invariant\<close>

lemma find_producer:
  assumes b: "hrm_base gs st"
  shows "hrm_find_producer_struct t gid st = None \<Longrightarrow> q \<in> set (hrm_producers st t) \<Longrightarrow>
      hg_gid (group_at st (pr_group (producer_at st q))) \<noteq> gid"
    and "hrm_find_producer_struct t gid st = Some p \<Longrightarrow>
      p \<in> set (hrm_producers st t) \<and> hg_gid (group_at st (pr_group (producer_at st p))) = gid"
  by (auto simp: hrm_find_producer_struct_def find_None_iff find_Some_iff)

lemma find_consumer:
  assumes b: "hrm_base gs st"
  shows "hrm_find_consumer_struct t gid st = None \<Longrightarrow> q \<in> set (hrm_consumers st t) \<Longrightarrow>
      hg_gid (group_at st (co_group (consumer_at st q))) \<noteq> gid"
    and "hrm_find_consumer_struct t gid st = Some p \<Longrightarrow>
      p \<in> set (hrm_consumers st t) \<and> hg_gid (group_at st (co_group (consumer_at st p))) = gid"
  by (auto simp: hrm_find_consumer_struct_def find_None_iff find_Some_iff)

lemma find_group:
  shows "hrm_find_group gid st = None \<Longrightarrow> \<forall>h \<in> set (hrm_groups st). hg_gid (group_at st h) \<noteq> gid"
    and "hrm_find_group gid st = Some g \<Longrightarrow> g \<in> set (hrm_groups st) \<and> hg_gid (group_at st g) = gid"
  by (auto simp: hrm_find_group_def find_None_iff find_Some_iff)

text \<open>The state after a thread has joined, with slot \<open>i\<close> and the bitmap \<open>bm\<close> the allocator left.\<close>

definition enlisted :: "tid \<Rightarrow> nat \<Rightarrow> nat \<Rightarrow> bool \<Rightarrow> timespec \<Rightarrow> bitmap \<Rightarrow> nat \<Rightarrow> hrm_state \<Rightarrow> hrm_state" where
  "enlisted t p g ex now bm i st =
     (let grp = group_at st g; start = (timespec_to_ns (timestamp grp) = 0)
      in st\<lparr>group_at := (group_at st)(g := grp\<lparr>counters_allocation := bm,
              slots := (slots grp)(i := (slots grp i)\<lparr>hc_tid := hrm_pid st t, hc_used := 1\<rparr>), producers := p # producers grp,
              timestamp := (if start then now else timestamp grp), window_cur := (if start then 1 else window_cur grp),
              buffered := (if start then 1 else buffered grp), timer_armed := (start \<or> timer_armed grp)\<rparr>),
           producer_at := (producer_at st)(p := \<lparr>pr_task = t, pr_index = i, pr_group = g,
              pr_counter_address = 0, pr_measures_address = 0, pr_goal_address = 0\<rparr>),
           hrm_groups := (if start \<and> \<not> ex then g # hrm_groups st else hrm_groups st),
           hrm_producers := (hrm_producers st)(t := p # hrm_producers st t)\<rparr>)"

lemma hrm_enlist_producer_eq:
  assumes "bitmap_find_free_region (counters_allocation (group_at st g)) HRM_GROUP_SIZE 0 = (bm, i)" and "0 \<le> i"
  shows "hrm_enlist_producer t p g ex now st = (enlisted t p g ex now bm (nat i) st, 0)"
proof -
  have i: "\<not> i < 0" using assms(2) by simp
  show ?thesis
    unfolding hrm_enlist_producer_def hrm_allocate_group_counter_def assms(1) prod.case if_not_P [OF i] enlisted_def upd_group_def
      hrm_add_group_def Let_def
    by (cases "timespec_to_ns (timestamp (group_at st g)) = 0"; cases ex; cases st) simp_all
qed

lemma hrm_enlist_producer_ok:
  assumes b: "hrm_base gs st" and g: "g \<in> set gs" and p: "fresh_producer p st"
    and new: "\<forall>q \<in> set (hrm_producers st t). pr_group (producer_at st q) \<noteq> g"
    and i: "bitmap_find_free_region (counters_allocation (group_at st g)) HRM_GROUP_SIZE 0 = (bm, i)" "0 \<le> i"
    and e: "hrm_enlist_producer t p g ex now st = (st', r)"
  shows "r = 0" and "hrm_base gs st'" and "h \<noteq> g \<Longrightarrow> group_at st' h = group_at st h"
    and "producers (group_at st' g) = p # producers (group_at st g)"
    and "hrm_groups st' = (if \<not> ex \<and> timespec_to_ns (timestamp (group_at st g)) = 0 then g # hrm_groups st else hrm_groups st)"
    and "hrm_producers st' = (hrm_producers st)(t := p # hrm_producers st t)"
proof -
  have own: "hc.owned (counters_allocation (group_at st g)) (map (\<lambda>p. pr_index (producer_at st p)) (producers (group_at st g)))"
    and arm: "timespec_to_ns (timestamp (group_at st g)) \<noteq> 0 \<Longrightarrow> timer_armed (group_at st g)"
    using hrm_baseD(3) [OF b g] unfolding group_ok_def by blast+
  have st': "st' = enlisted t p g ex now bm (nat i) st" and "r = 0"
    using e hrm_enlist_producer_eq [OF i] by simp_all
  then show "r = 0" by simp
  show "h \<noteq> g \<Longrightarrow> group_at st' h = group_at st h" "producers (group_at st' g) = p # producers (group_at st g)"
    "hrm_groups st' = (if \<not> ex \<and> timespec_to_ns (timestamp (group_at st g)) = 0 then g # hrm_groups st else hrm_groups st)"
    "hrm_producers st' = (hrm_producers st)(t := p # hrm_producers st t)"
    by (simp_all add: st' enlisted_def Let_def)
  let ?ts = "if timespec_to_ns (timestamp (group_at st g)) = 0 then now else timestamp (group_at st g)"
  show "hrm_base gs st'"
  proof (rule hrm_base_enlist [where ts = ?ts, OF b g p new hc.owned_alloc [OF own i]])
    show "hrm_view (group_at st' h) = (if h = g then (hg_gid (group_at st g), bm, p # producers (group_at st g),
        consumers (group_at st g), True, ?ts) else hrm_view (group_at st h))" for h
      using arm by (auto simp: st' enlisted_def Let_def hrm_view_def)
    let ?r = "\<lparr>pr_task = t, pr_index = nat i, pr_group = g, pr_counter_address = 0, pr_measures_address = 0, pr_goal_address = 0\<rparr>"
    show "producer_at st' = (producer_at st)(p := ?r)" "consumer_at st' = consumer_at st" "hrm_consumers st' = hrm_consumers st"
      "hrm_producers st' = (hrm_producers st)(t := p # hrm_producers st t)"
      by (simp_all add: st' enlisted_def Let_def)
  qed simp_all
qed

lemma hrm_enlist_producer_full:
  assumes b: "hrm_base gs st" and g: "g \<in> set gs"
    and i: "bitmap_find_free_region (counters_allocation (group_at st g)) HRM_GROUP_SIZE 0 = (bm, i)" "i < 0"
  shows "hrm_enlist_producer t p g True now st = (st, - ENOMEM)" and "length (producers (group_at st g)) = HRM_GROUP_SIZE"
proof -
  have own: "hc.owned (counters_allocation (group_at st g)) (map (\<lambda>p. pr_index (producer_at st p)) (producers (group_at st g)))"
    using hrm_baseD(3) [OF b g] by (simp only: group_ok_def)
  show "length (producers (group_at st g)) = HRM_GROUP_SIZE"
    using hc.owned_full(2) [OF own i] by simp
  have "bm = counters_allocation (group_at st g)" by (rule hc.owned_full(1) [OF own i])
  moreover have "i = - ENOMEM" using i bitmap_find_free_region_result [of "counters_allocation (group_at st g)" HRM_GROUP_SIZE 0] by auto
  ultimately show "hrm_enlist_producer t p g True now st = (st, - ENOMEM)"
    using i by (simp add: hrm_enlist_producer_def hrm_allocate_group_counter_def upd_group_def)
qed

lemma hrm_invD: "hrm_inv st \<Longrightarrow> hrm_base (hrm_groups st) st"
  by (simp add: hrm_inv_def)

text \<open>Joining an existing group, and a new one.\<close>

lemma hrm_join_ok:
  assumes inv: "hrm_inv st" and p: "fresh_producer p st" and g: "g \<in> set (hrm_groups st)"
    and new: "\<forall>q \<in> set (hrm_producers st t). pr_group (producer_at st q) \<noteq> g"
  shows "hrm_inv (fst (hrm_enlist_producer t p g True now st))"
proof -
  note b = hrm_invD [OF inv]
  obtain bm i where i: "bitmap_find_free_region (counters_allocation (group_at st g)) HRM_GROUP_SIZE 0 = (bm, i)" by fastforce
  obtain st' r where e: "hrm_enlist_producer t p g True now st = (st', r)" by fastforce
  show ?thesis
  proof (cases "0 \<le> i")
    case True
    note ok = hrm_enlist_producer_ok [OF b g p new i True e]
    have "producers (group_at st' h) \<noteq> [] \<or> consumers (group_at st' h) \<noteq> []" if "h \<in> set (hrm_groups st)" for h
      using inv that ok(3) [of h] ok(4) by (cases "h = g") (auto simp: hrm_inv_def)
    then show ?thesis using ok(2,5) by (simp add: hrm_inv_def e)
  next
    case False
    then show ?thesis using hrm_enlist_producer_full [OF b g i] inv by simp
  qed
qed

lemma hrm_found_ok:
  assumes inv: "hrm_inv st" and p: "fresh_producer p st" and g: "g \<notin> set (hrm_groups st)"
    and gid: "\<forall>h \<in> set (hrm_groups st). hg_gid (group_at st h) \<noteq> gid"
  shows "hrm_inv (fst (hrm_enlist_producer t p g False now (upd_group g (\<lambda>_. new_group gid) st)))"
proof -
  let ?st = "upd_group g (\<lambda>_. new_group gid) st"
  note b = hrm_base_create [OF hrm_invD [OF inv] g gid]
  have f: "hrm_groups ?st = hrm_groups st" "hrm_producers ?st = hrm_producers st" "producer_at ?st = producer_at st"
    "group_at ?st g = new_group gid" "h \<noteq> g \<Longrightarrow> group_at ?st h = group_at st h" for h
    by (simp_all add: upd_group_def)
  obtain bm i where i: "bitmap_find_free_region (counters_allocation (group_at ?st g)) HRM_GROUP_SIZE 0 = (bm, i)" by fastforce
  obtain st' r where e: "hrm_enlist_producer t p g False now ?st = (st', r)" by fastforce
  have "0 \<le> i"
  proof (rule ccontr)
    assume "\<not> 0 \<le> i"
    then have "length (producers (group_at ?st g)) = HRM_GROUP_SIZE"
      by (intro hrm_enlist_producer_full(2) [OF b _ i]) simp_all
    then show False by (simp add: f HRM_GROUP_SIZE_def)
  qed
  have new: "\<forall>q \<in> set (hrm_producers ?st t). pr_group (producer_at ?st q) \<noteq> g"
    using hrm_baseD(4) [OF hrm_invD [OF inv], of t] g by (auto simp: f thread_ok_def)
  have p': "fresh_producer p ?st" using p by (simp add: fresh_producer_def f)
  have g': "g \<in> set (g # hrm_groups st)" by simp
  note ok = hrm_enlist_producer_ok [OF b g' p' new i \<open>0 \<le> i\<close> e]
  have "producers (group_at st' h) \<noteq> [] \<or> consumers (group_at st' h) \<noteq> []" if "h \<in> set (g # hrm_groups st)" for h
    using inv that ok(3) [of h] ok(4) by (cases "h = g") (auto simp: hrm_inv_def f)
  then show ?thesis using ok(2,5) by (simp add: hrm_inv_def e f)
qed

definition fresh_alloc :: "group_alloc \<Rightarrow> hrm_state \<Rightarrow> bool" where
  "fresh_alloc al st \<longleftrightarrow> (case fst al of None \<Rightarrow> True | Some g \<Rightarrow> g \<notin> set (hrm_groups st))"

lemma hrm_inv_add_producer:
  assumes inv: "hrm_inv st" and kz: "\<forall>p. kz = Some p \<longrightarrow> fresh_producer p st" and al: "fresh_alloc al st"
  shows "hrm_inv (fst (hrm_add_producer_task_to_group task gid kz al now st))"
proof -
  note b = hrm_invD [OF inv]
  show ?thesis
  proof (cases "\<exists>t p. task = Some t \<and> kz = Some p \<and> hrm_find_producer_struct t gid st = None")
    case False
    then show ?thesis using inv
      by (auto simp: hrm_add_producer_task_to_group_def split: option.splits)
  next
    case True
    then obtain t p where tp: "task = Some t" "kz = Some p" "hrm_find_producer_struct t gid st = None" by blast
    have p: "fresh_producer p st" using kz tp by simp
    show ?thesis
    proof (cases "hrm_find_group gid st")
      case (Some g)
      have "\<forall>q \<in> set (hrm_producers st t). pr_group (producer_at st q) \<noteq> g"
        using find_producer(1) [OF b tp(3)] find_group(2) [OF Some] by blast
      from hrm_join_ok [OF inv p _ this] find_group(2) [OF Some] show ?thesis
        by (simp add: hrm_add_producer_task_to_group_def tp Some)
    next
      case None
      obtain go c m where a: "al = (go, c, m)" by (cases al)
      show ?thesis
      proof (cases "\<exists>g. go = Some g \<and> c \<and> m")
        case True
        then obtain g where g: "go = Some g" "c" "m" by blast
        have "g \<notin> set (hrm_groups st)" using al by (simp add: a g fresh_alloc_def)
        from hrm_found_ok [OF inv p this find_group(1) [OF None]] show ?thesis
          by (simp add: hrm_add_producer_task_to_group_def tp None hrm_create_group_def a g)
      next
        case False
        then show ?thesis using inv
          by (auto simp: hrm_add_producer_task_to_group_def tp None hrm_create_group_def a split: option.splits)
      qed
    qed
  qed
qed

lemma hrm_inv_reap:
  assumes b: "hrm_base (hrm_groups st) st" and g: "g \<in> set (hrm_groups st)"
    and ne: "\<And>h. h \<in> set (hrm_groups st) \<Longrightarrow> h \<noteq> g \<Longrightarrow> producers (group_at st h) \<noteq> [] \<or> consumers (group_at st h) \<noteq> []"
  shows "hrm_inv (hrm_reap_group g st)"
proof (cases "producers (group_at st g) = [] \<and> consumers (group_at st g) = []")
  case True
  let ?st = "hrm_destroy_group g (hrm_delete_group g st)"
  have "hrm_base (remove1 g (hrm_groups st)) ?st"
    by (rule hrm_base_reap [OF b]) (use True in \<open>simp_all add: hrm_destroy_group_def hrm_delete_group_def upd_group_def\<close>)
  moreover have "hrm_groups ?st = remove1 g (hrm_groups st)" "h \<noteq> g \<Longrightarrow> group_at ?st h = group_at st h" for h
    by (simp_all add: hrm_destroy_group_def hrm_delete_group_def upd_group_def)
  ultimately have "hrm_inv ?st"
    using ne hrm_baseD(1) [OF b] by (auto simp: hrm_inv_def)
  then show ?thesis using True by (simp add: hrm_reap_group_def)
next
  case False
  then show ?thesis using ne b by (auto simp: hrm_reap_group_def hrm_inv_def)
qed

lemma hrm_inv_drop_producer:
  assumes inv: "hrm_inv st" and p: "p \<in> set (hrm_producers st t)"
  shows "hrm_inv (hrm_drop_producer t p st)"
    and "hrm_producers (hrm_drop_producer t p st) = (hrm_producers st)(t := remove1 p (hrm_producers st t))"
proof -
  note b = hrm_invD [OF inv]
  let ?g = "pr_group (producer_at st p)"
  define st' where "st' = hrm_put_maps t ?g (upd_group ?g (\<lambda>grp. grp\<lparr>producers := remove1 p (producers grp)\<rparr>)
     ((hrm_release_group_counter ?g (pr_index (producer_at st p))
       (upd_group ?g (\<lambda>grp. grp\<lparr>history := u64 (history grp + hc_counter (slots grp (pr_index (producer_at st p))))\<rparr>) st))
       \<lparr>hrm_producers := (hrm_producers st)(t := remove1 p (hrm_producers st t))\<rparr>))"
  have e: "hrm_drop_producer t p st = hrm_reap_group ?g st'"
    by (simp add: hrm_drop_producer_def st'_def Let_def upd_group_def hrm_release_group_counter_def)
  have f: "hrm_groups st' = hrm_groups st" "h \<noteq> ?g \<Longrightarrow> group_at st' h = group_at st h"
    "hrm_producers st' = (hrm_producers st)(t := remove1 p (hrm_producers st t))" for h
    by (simp_all add: st'_def hrm_put_maps_def hrm_release_group_counter_def upd_group_def)
  have "hrm_base (hrm_groups st) st'"
    by (rule hrm_base_leave [OF b p refl])
      (simp_all add: st'_def hrm_put_maps_def hrm_release_group_counter_def upd_group_def hrm_view_def)
  moreover have "?g \<in> set (hrm_groups st)" using hrm_baseD(4) [OF b, of t] p by (auto simp: thread_ok_def)
  ultimately show "hrm_inv (hrm_drop_producer t p st)"
    unfolding e using inv f(2) by (intro hrm_inv_reap) (auto simp: f(1) hrm_inv_def)
  show "hrm_producers (hrm_drop_producer t p st) = (hrm_producers st)(t := remove1 p (hrm_producers st t))"
    unfolding e by (simp add: hrm_reap_group_def hrm_destroy_group_def hrm_delete_group_def upd_group_def f)
qed

lemma hrm_inv_view:
  assumes "hrm_inv st" and "\<And>g. hrm_view (group_at st' g) = hrm_view (group_at st g)"
    and "producer_at st' = producer_at st" "consumer_at st' = consumer_at st"
    and "hrm_producers st' = hrm_producers st" "hrm_consumers st' = hrm_consumers st" "hrm_groups st' = hrm_groups st"
  shows "hrm_inv st'"
proof -
  have "producers (group_at st' g) = producers (group_at st g)" "consumers (group_at st' g) = consumers (group_at st g)" for g
    using assms(2) [of g] by (simp_all add: hrm_view_def)
  then show ?thesis using assms(1) hrm_base_view [OF assms(2-6)] by (simp add: hrm_inv_def assms(7))
qed

lemma hrm_inv_delete_producer:
  assumes inv: "hrm_inv st"
  shows "hrm_inv (fst (hrm_delete_producer_task_from_group task gid st))"
proof (cases "\<exists>t p. task = Some t \<and> hrm_find_producer_struct t gid st = Some p")
  case True
  then obtain t p where tp: "task = Some t" "hrm_find_producer_struct t gid st = Some p" by blast
  let ?st = "upd_group (pr_group (producer_at st p)) (\<lambda>grp. grp\<lparr>slots := (slots grp)(pr_index (producer_at st p) :=
      (slots grp (pr_index (producer_at st p)))\<lparr>hc_used := 0\<rparr>)\<rparr>) st"
  have "hrm_inv ?st" by (rule hrm_inv_view [OF inv]) (simp_all add: upd_group_def hrm_view_def)
  moreover have "p \<in> set (hrm_producers ?st t)"
    using find_producer(2) [OF hrm_invD [OF inv] tp(2)] by (simp add: upd_group_def)
  ultimately have "hrm_inv (hrm_drop_producer t p ?st)" by (rule hrm_inv_drop_producer)
  then show ?thesis by (simp add: hrm_delete_producer_task_from_group_def tp)
next
  case False
  then show ?thesis using inv by (auto simp: hrm_delete_producer_task_from_group_def split: option.splits)
qed

lemma hrm_drop_all_producers:
  assumes "hrm_inv st" and "ps = hrm_producers st t"
  shows "hrm_inv (fold (hrm_drop_producer t) ps st) \<and> hrm_producers (fold (hrm_drop_producer t) ps st) t = []"
  using assms
proof (induction ps arbitrary: st)
  case (Cons p ps)
  have p: "p \<in> set (hrm_producers st t)" and e: "ps = hrm_producers (hrm_drop_producer t p st) t"
    using Cons.prems hrm_inv_drop_producer(2) [OF Cons.prems(1), of p t] by (auto simp flip: Cons.prems(2))
  from Cons.IH [OF hrm_inv_drop_producer(1) [OF Cons.prems(1) p] e] show ?case by simp
qed simp

lemma hrm_inv_delete_all_producers:
  "hrm_inv st \<Longrightarrow> hrm_inv (fst (hrm_delete_producer_task_from_all_groups task st))"
  using hrm_drop_all_producers [OF _ refl]
  by (auto simp: hrm_delete_producer_task_from_all_groups_def split: option.splits)

lemma hrm_enlist_consumer_ok:
  assumes b: "hrm_base gs st" and g: "g \<in> set gs" and p: "fresh_consumer p st"
    and new: "\<forall>q \<in> set (hrm_consumers st t). co_group (consumer_at st q) \<noteq> g"
  shows "hrm_base gs (hrm_enlist_consumer t p g ex st)"
    and "h \<noteq> g \<Longrightarrow> group_at (hrm_enlist_consumer t p g ex st) h = group_at st h"
    and "consumers (group_at (hrm_enlist_consumer t p g ex st) g) = p # consumers (group_at st g)"
    and "hrm_groups (hrm_enlist_consumer t p g ex st) = (if \<not> ex then g # hrm_groups st else hrm_groups st)"
proof -
  let ?st = "hrm_enlist_consumer t p g ex st"
  let ?r = "\<lparr>co_group = g, co_counter_address = 0, co_measures_address = 0, co_goal_address = 0\<rparr>"
  note d = hrm_enlist_consumer_def Let_def upd_group_def hrm_add_group_def hrm_view_def
  show "hrm_base gs ?st"
    by (rule hrm_base_enlist_consumer [where r = ?r, OF b g p new]) (simp_all add: d)
  show "h \<noteq> g \<Longrightarrow> group_at ?st h = group_at st h" "consumers (group_at ?st g) = p # consumers (group_at st g)"
    "hrm_groups ?st = (if \<not> ex then g # hrm_groups st else hrm_groups st)"
    by (simp_all add: d)
qed

lemma hrm_inv_add_consumer:
  assumes inv: "hrm_inv st" and kz: "\<forall>p. kz = Some p \<longrightarrow> fresh_consumer p st" and al: "fresh_alloc al st"
  shows "hrm_inv (fst (hrm_add_consumer_task_to_group task gid kz al st))"
proof (cases "\<exists>t p. task = Some t \<and> kz = Some p \<and> hrm_find_consumer_struct t gid st = None")
  case False
  then show ?thesis using inv
    by (auto simp: hrm_add_consumer_task_to_group_def split: option.splits)
next
  case True
  then obtain t p where tp: "task = Some t" "kz = Some p" "hrm_find_consumer_struct t gid st = None" by blast
  note b = hrm_invD [OF inv]
  have p: "fresh_consumer p st" using kz tp by simp
  show ?thesis
  proof (cases "hrm_find_group gid st")
    case (Some g)
    have g: "g \<in> set (hrm_groups st)" and "\<forall>q \<in> set (hrm_consumers st t). co_group (consumer_at st q) \<noteq> g"
      using find_consumer(1) [OF b tp(3)] find_group(2) [OF Some] by blast+
    note ok = hrm_enlist_consumer_ok [OF b g p this(2)]
    have "producers (group_at (hrm_enlist_consumer t p g True st) h) \<noteq> [] \<or>
        consumers (group_at (hrm_enlist_consumer t p g True st) h) \<noteq> []" if "h \<in> set (hrm_groups st)" for h
      using inv that ok(2) [of h True] ok(3) [of True] by (cases "h = g") (auto simp: hrm_inv_def)
    with ok(1,4) show ?thesis
      by (simp add: hrm_add_consumer_task_to_group_def tp Some hrm_inv_def)
  next
    case None
    obtain go c m where a: "al = (go, c, m)" by (cases al)
    show ?thesis
    proof (cases "\<exists>g. go = Some g \<and> c \<and> m")
      case True
      then obtain g where g: "go = Some g" "c" "m" by blast
      have n: "g \<notin> set (hrm_groups st)" using al by (simp add: a g fresh_alloc_def)
      let ?st = "upd_group g (\<lambda>_. new_group gid) st"
      have f: "hrm_groups ?st = hrm_groups st" "hrm_consumers ?st = hrm_consumers st" "consumer_at ?st = consumer_at st"
        "h \<noteq> g \<Longrightarrow> group_at ?st h = group_at st h" for h
        by (simp_all add: upd_group_def)
      note b' = hrm_base_create [OF b n find_group(1) [OF None]]
      have new: "\<forall>q \<in> set (hrm_consumers ?st t). co_group (consumer_at ?st q) \<noteq> g"
        using hrm_baseD(4) [OF b, of t] n by (auto simp: f thread_ok_def)
      have "fresh_consumer p ?st" using p by (simp add: fresh_consumer_def f)
      note ok = hrm_enlist_consumer_ok [OF b' _ this new]
      have "producers (group_at (hrm_enlist_consumer t p g False ?st) h) \<noteq> [] \<or>
          consumers (group_at (hrm_enlist_consumer t p g False ?st) h) \<noteq> []" if "h \<in> set (g # hrm_groups st)" for h
        using inv that ok(2) [of h False] ok(3) [of False] by (cases "h = g") (auto simp: hrm_inv_def f)
      then have "hrm_inv (hrm_enlist_consumer t p g False ?st)" using ok(1,4) [of False] by (simp add: hrm_inv_def f)
      then show ?thesis by (simp add: hrm_add_consumer_task_to_group_def tp None hrm_create_group_def a g)
    next
      case False
      then show ?thesis using inv
        by (auto simp: hrm_add_consumer_task_to_group_def tp None hrm_create_group_def a split: option.splits)
    qed
  qed
qed

lemma hrm_inv_drop_consumer:
  assumes inv: "hrm_inv st" and p: "p \<in> set (hrm_consumers st t)"
  shows "hrm_inv (hrm_drop_consumer t p st)"
    and "hrm_consumers (hrm_drop_consumer t p st) = (hrm_consumers st)(t := remove1 p (hrm_consumers st t))"
proof -
  note b = hrm_invD [OF inv]
  let ?g = "co_group (consumer_at st p)"
  define st' where "st' = hrm_put_maps t ?g (upd_group ?g (\<lambda>grp. grp\<lparr>consumers := remove1 p (consumers grp)\<rparr>)
     (st\<lparr>hrm_consumers := (hrm_consumers st)(t := remove1 p (hrm_consumers st t))\<rparr>))"
  have e: "hrm_drop_consumer t p st = hrm_reap_group ?g st'"
    by (simp add: hrm_drop_consumer_def st'_def Let_def)
  have f: "hrm_groups st' = hrm_groups st" "h \<noteq> ?g \<Longrightarrow> group_at st' h = group_at st h"
    "hrm_consumers st' = (hrm_consumers st)(t := remove1 p (hrm_consumers st t))" for h
    by (simp_all add: st'_def hrm_put_maps_def upd_group_def)
  have "hrm_base (hrm_groups st) st'"
    by (rule hrm_base_leave_consumer [OF b p refl]) (simp_all add: st'_def hrm_put_maps_def upd_group_def hrm_view_def)
  moreover have "?g \<in> set (hrm_groups st)" using hrm_baseD(4) [OF b, of t] p by (auto simp: thread_ok_def)
  ultimately show "hrm_inv (hrm_drop_consumer t p st)"
    unfolding e using inv f(2) by (intro hrm_inv_reap) (auto simp: f(1) hrm_inv_def)
  show "hrm_consumers (hrm_drop_consumer t p st) = (hrm_consumers st)(t := remove1 p (hrm_consumers st t))"
    unfolding e by (simp add: hrm_reap_group_def hrm_destroy_group_def hrm_delete_group_def upd_group_def f)
qed

lemma hrm_inv_delete_consumer:
  assumes inv: "hrm_inv st"
  shows "hrm_inv (fst (hrm_delete_consumer_task_from_group task gid st))"
  using inv hrm_inv_drop_consumer(1) [OF inv] find_consumer(2) [OF hrm_invD [OF inv]]
  by (auto simp: hrm_delete_consumer_task_from_group_def split: option.splits)

lemma hrm_drop_all_consumers:
  assumes "hrm_inv st" and "ps = hrm_consumers st t"
  shows "hrm_inv (fold (hrm_drop_consumer t) ps st) \<and> hrm_consumers (fold (hrm_drop_consumer t) ps st) t = []"
  using assms
proof (induction ps arbitrary: st)
  case (Cons p ps)
  have p: "p \<in> set (hrm_consumers st t)" and e: "ps = hrm_consumers (hrm_drop_consumer t p st) t"
    using Cons.prems hrm_inv_drop_consumer(2) [OF Cons.prems(1), of p t] by (auto simp flip: Cons.prems(2))
  from Cons.IH [OF hrm_inv_drop_consumer(1) [OF Cons.prems(1) p] e] show ?case by simp
qed simp

lemma hrm_inv_delete_all_consumers:
  "hrm_inv st \<Longrightarrow> hrm_inv (fst (hrm_delete_consumer_task_from_all_groups task st))"
  using hrm_drop_all_consumers [OF _ refl]
  by (auto simp: hrm_delete_consumer_task_from_all_groups_def split: option.splits)

lemma hrm_inv_tick:
  assumes inv: "hrm_inv st"
  shows "hrm_inv (hrm_update_group_measures g now st)"
proof -
  let ?st = "upd_group g (\<lambda>grp. grp\<lparr>timer_armed := True\<rparr>) st"
  have f: "hg_gid (group_at ?st h) = hg_gid (group_at st h)" "counters_allocation (group_at ?st h) = counters_allocation (group_at st h)"
    "producers (group_at ?st h) = producers (group_at st h)" "consumers (group_at ?st h) = consumers (group_at st h)"
    "timestamp (group_at ?st h) = timestamp (group_at st h)" "producer_at ?st = producer_at st" "consumer_at ?st = consumer_at st"
    "hrm_producers ?st = hrm_producers st" "hrm_consumers ?st = hrm_consumers st"
    and a: "timer_armed (group_at st h) \<Longrightarrow> timer_armed (group_at ?st h)" for h
    by (simp_all add: upd_group_def)
  have "hrm_base gs ?st" if "hrm_base gs st" for gs
    using that a unfolding hrm_base_def group_ok_def thread_ok_def f by blast
  then have "hrm_inv (upd_group g (\<lambda>grp. grp\<lparr>timer_armed := True\<rparr>) st)"
    using inv by (auto simp: hrm_inv_def upd_group_def)
  then show ?thesis
    by (rule hrm_inv_view) (simp_all add: hrm_update_group_measures_eq upd_group_def tick_group_def Let_def hrm_view_def)
qed

section \<open>The total of a group\<close>

lemma fold_u64: "fold (\<lambda>p s. u64 (s + f p)) ps h = (if ps = [] then h else u64 (h + (\<Sum>p\<leftarrow>ps. f p)))"
  by (induction ps arbitrary: h) (auto simp: add.assoc)

lemma hrm_sum_u64: "u64 (hrm_sum g st) = u64 (history (group_at st g) + (\<Sum>p\<leftarrow>producers (group_at st g). hc_counter (hrm_counter_of p st)))"
  by (simp add: hrm_sum_def fold_u64)

text \<open>The fields of the group a producer leaves.\<close>

lemma hrm_drop_producer_group:
  fixes t p st
  defines "g \<equiv> pr_group (producer_at st p)" and "st' \<equiv> hrm_drop_producer t p st"
  shows "history (group_at st' g) = u64 (history (group_at st g) + hc_counter (slots (group_at st g) (pr_index (producer_at st p))))"
    and "producers (group_at st' g) = remove1 p (producers (group_at st g))"
    and "slots (group_at st' h) = slots (group_at st h)" and "producer_at st' = producer_at st"
    and "hg_gid (group_at st' h) = hg_gid (group_at st h)"
proof -
  have r: "history (group_at (hrm_reap_group k s) h) = history (group_at s h)" "producers (group_at (hrm_reap_group k s) h) = producers (group_at s h)"
    "slots (group_at (hrm_reap_group k s) h) = slots (group_at s h)" "producer_at (hrm_reap_group k s) = producer_at s"
    "hg_gid (group_at (hrm_reap_group k s) h) = hg_gid (group_at s h)" for k s h
    by (simp_all add: hrm_reap_group_def hrm_destroy_group_def hrm_delete_group_def upd_group_def)
  show "history (group_at st' g) = u64 (history (group_at st g) + hc_counter (slots (group_at st g) (pr_index (producer_at st p))))"
    "producers (group_at st' g) = remove1 p (producers (group_at st g))"
    "slots (group_at st' h) = slots (group_at st h)" "producer_at st' = producer_at st" "hg_gid (group_at st' h) = hg_gid (group_at st h)"
    unfolding st'_def g_def hrm_drop_producer_def Let_def r
    by (simp_all add: hrm_put_maps_def hrm_release_group_counter_def upd_group_def)
qed

lemma hrm_drop_producer_sum:
  assumes inv: "hrm_inv st" and p: "p \<in> set (hrm_producers st t)" and g: "g = pr_group (producer_at st p)"
  shows "hrm_sum g (hrm_drop_producer t p st) = hrm_sum g st"
proof -
  note d = hrm_drop_producer_group [where p = p and st = st and t = t, folded g]
  have c: "hrm_counter_of q (hrm_drop_producer t p st) = hrm_counter_of q st" for q
    by (simp add: hrm_counter_of_def d(3,4))
  have mem: "p \<in> set (producers (group_at st g))"
    using hrm_baseD(4) [OF hrm_invD [OF inv], of t] p g by (auto simp: thread_ok_def)
  have hc: "hc_counter (slots (group_at st g) (pr_index (producer_at st p))) = hc_counter (hrm_counter_of p st)"
    by (simp add: hrm_counter_of_def g)
  have "hrm_sum g st = u64 (history (group_at st g) + (\<Sum>q\<leftarrow>producers (group_at st g). hc_counter (hrm_counter_of q st)))"
    using mem by (auto simp: hrm_sum_def fold_u64)
  also have "\<dots> = u64 (history (group_at st g) + (hc_counter (hrm_counter_of p st) +
      (\<Sum>q\<leftarrow>remove1 p (producers (group_at st g)). hc_counter (hrm_counter_of q st))))"
    by (simp add: sum_list_map_remove1 [OF mem, of "\<lambda>q. hc_counter (hrm_counter_of q st)"])
  also have "\<dots> = hrm_sum g (hrm_drop_producer t p st)"
    by (simp add: hrm_sum_def c d(1,2) fold_u64 hc add.assoc)
  finally show ?thesis by simp
qed

lemma hrm_drop_producer_disabled:
  assumes inv: "hrm_inv st" and p: "p \<in> set (hrm_producers st t)"
  shows "hrm_find_producer_struct t (hg_gid (group_at st (pr_group (producer_at st p)))) (hrm_drop_producer t p st) = None"
proof -
  note b = hrm_invD [OF inv] and d = hrm_drop_producer_group [where p = p and st = st and t = t]
  note th = hrm_baseD(4) [OF b, of t]
  have ps: "hrm_producers (hrm_drop_producer t p st) t = remove1 p (hrm_producers st t)"
    by (simp add: hrm_inv_drop_producer(2) [OF inv p])
  have "hg_gid (group_at st (pr_group (producer_at st q))) \<noteq> hg_gid (group_at st (pr_group (producer_at st p)))"
    if "q \<in> set (remove1 p (hrm_producers st t))" for q
  proof -
    have "q \<in> set (hrm_producers st t)" "q \<noteq> p" using that th by (auto simp: thread_ok_def distinct_map)
    then have "pr_group (producer_at st q) \<noteq> pr_group (producer_at st p)" "pr_group (producer_at st q) \<in> set (hrm_groups st)"
      "pr_group (producer_at st p) \<in> set (hrm_groups st)"
      using th p by (auto simp: thread_ok_def distinct_map inj_on_def)
    with hrm_baseD(2) [OF b] show ?thesis by (auto dest: inj_onD)
  qed
  then show ?thesis
    by (auto simp: hrm_find_producer_struct_def find_None_iff ps d(4,5))
qed

text \<open>The flag \<open>used\<close> of a slot is of no concern to totals and lists.\<close>

lemma hrm_slot_unused:
  fixes st p
  defines "st' \<equiv> upd_group (pr_group (producer_at st p)) (\<lambda>grp. grp\<lparr>slots := (slots grp)(pr_index (producer_at st p) :=
      (slots grp (pr_index (producer_at st p)))\<lparr>hc_used := 0\<rparr>)\<rparr>) st"
  shows "hrm_inv st \<Longrightarrow> hrm_inv st'" and "hrm_sum g st' = hrm_sum g st" and "producer_at st' = producer_at st"
    and "hrm_producers st' = hrm_producers st" and "hg_gid (group_at st' h) = hg_gid (group_at st h)"
proof -
  show "hrm_inv st'" if "hrm_inv st"
    by (rule hrm_inv_view [OF that]) (simp_all add: st'_def upd_group_def hrm_view_def)
  have c: "hc_counter (hrm_counter_of q st') = hc_counter (hrm_counter_of q st)" for q
    by (simp add: st'_def hrm_counter_of_def upd_group_def)
  show "hrm_sum g st' = hrm_sum g st"
    unfolding hrm_sum_def c by (simp add: st'_def upd_group_def)
qed (simp_all add: st'_def upd_group_def)

text \<open>C34. A thread that leaves a group takes none of the group's heartbeats with it: the count of the thread goes to the history
  of the group, and the total that the next tick publishes is the same as before, in the 64-bit arithmetic
  of the sum.  The thread is a producer of the group no more.\<close>

theorem hrm_leave_keeps_total:
  assumes inv: "hrm_inv st" and f: "hrm_find_producer_struct t gid st = Some p"
  shows "\<exists>st'. hrm_delete_producer_task_from_group (Some t) gid st = (st', 0) \<and>
      hrm_sum (pr_group (producer_at st p)) st' = hrm_sum (pr_group (producer_at st p)) st \<and>
      hrm_producer_task_enabled_group (Some t) gid st' = 0"
proof -
  note u = hrm_slot_unused [where st = st and p = p]
  note p = find_producer(2) [OF hrm_invD [OF inv] f]
  show ?thesis
    using hrm_drop_producer_sum [OF u(1) [OF inv]] hrm_drop_producer_disabled [OF u(1) [OF inv], where p = p and t = t] p
    by (simp add: hrm_delete_producer_task_from_group_def f u(2-5) hrm_producer_task_enabled_group_def)
qed

definition watched_group :: hrm_state where
  "watched_group = one_group\<lparr>group_at := (\<lambda>_. (group_at one_group 0)\<lparr>counters_allocation := (\<lambda>i. if i = 0 then 1 else 0),
      consumers := [9], timer_armed := True\<rparr>), hrm_consumers := (\<lambda>t. if t = 2 then [9] else [])\<rparr>"

lemma watched_group_inv: "hrm_inv watched_group"
proof -
  have "test_bit j (\<lambda>i. if i = 0 then 1 else 0) \<longleftrightarrow> j = 0" for j
    by (auto simp: test_bit_iff bit_1_iff)
  then have "hc.owned (\<lambda>i. if i = 0 then 1 else 0) [0]"
    unfolding hc.owned_def by (simp add: HRM_GROUP_SIZE_def)
  then show ?thesis
    by (simp add: hrm_inv_def hrm_base_def group_ok_def thread_ok_def watched_group_def one_group_def)
qed

theorem hrm_leave_keeps_total_witness:
  "\<exists>st'. hrm_delete_producer_task_from_group (Some 1) 7 watched_group = (st', 0) \<and> hrm_sum 0 st' = 42"
proof -
  have "hrm_find_producer_struct 1 7 watched_group = Some 3"
    by (simp add: hrm_find_producer_struct_def watched_group_def one_group_def)
  from hrm_leave_keeps_total [OF watched_group_inv this] show ?thesis
    by (auto simp: watched_group_def one_group_def new_group_def hrm_sum_def hrm_counter_of_def u64_def)
qed

text \<open>A counter slot is not cleared when it is given to a new producer: the count its last owner left there, which is in the
  history of the group already, is added to the total once more.\<close>

theorem hrm_join_counts_old_slot:
  assumes b: "hrm_base gs st" and g: "g \<in> set gs" and p: "fresh_producer p st"
    and i: "bitmap_find_free_region (counters_allocation (group_at st g)) HRM_GROUP_SIZE 0 = (bm, i)" "0 \<le> i"
  shows "hrm_sum g (fst (hrm_enlist_producer t p g ex now st)) = u64 (hrm_sum g st + hc_counter (slots (group_at st g) (nat i)))"
proof -
  obtain st' r where e: "hrm_enlist_producer t p g ex now st = (st', r)" by fastforce
  have f: "history (group_at st' g) = history (group_at st g)" "producers (group_at st' g) = p # producers (group_at st g)"
    "producer_at st' = (producer_at st)(p := \<lparr>pr_task = t, pr_index = nat i, pr_group = g, pr_counter_address = 0,
       pr_measures_address = 0, pr_goal_address = 0\<rparr>)"
    and s: "hc_counter (slots (group_at st' h) j) = hc_counter (slots (group_at st h) j)" for h j
    using e hrm_enlist_producer_eq [OF i] by (auto simp: enlisted_def Let_def)
  have pg: "p \<notin> set (producers (group_at st g))"
    using hrm_baseD(3) [OF b g] p by (auto simp: group_ok_def fresh_producer_def)
  have "hc_counter (hrm_counter_of q st') = hc_counter (hrm_counter_of q st)" if "q \<in> set (producers (group_at st g))" for q
    using that pg by (auto simp: hrm_counter_of_def s f(3))
  then have "(\<Sum>q\<leftarrow>producers (group_at st g). hc_counter (hrm_counter_of q st')) =
      (\<Sum>q\<leftarrow>producers (group_at st g). hc_counter (hrm_counter_of q st))"
    by (intro arg_cong [where f = sum_list] map_cong) simp_all
  moreover have "hc_counter (hrm_counter_of p st') = hc_counter (slots (group_at st g) (nat i))"
    by (simp add: hrm_counter_of_def s f(3))
  ultimately have "hrm_sum g st' = u64 (u64 (hrm_sum g st) + hc_counter (slots (group_at st g) (nat i)))"
    unfolding hrm_sum_u64 by (simp add: hrm_sum_def fold_u64 f add_ac)
  then show ?thesis by (simp add: e)
qed

text \<open>C37. Joining a group that exists, for a thread not yet in it.  As long as the group has a free counter slot, the call succeeds,
  the thread is then a producer of the group, and its slot is used by no other producer.  Once all 64 slots are taken
  it fails with \<open>ENOMEM\<close> and changes nothing.\<close>

theorem hrm_join_outcome:
  assumes inv: "hrm_inv st" and g: "hrm_find_group gid st = Some g" and n: "hrm_find_producer_struct t gid st = None"
    and p: "fresh_producer p st" and e: "hrm_add_producer_task_to_group (Some t) gid (Some p) al now st = (st', r)"
  shows "if length (producers (group_at st g)) < 64
         then r = 0 \<and> hrm_producer_task_enabled_group (Some t) gid st' = 1 \<and>
           (\<forall>q \<in> set (producers (group_at st g)). pr_index (producer_at st' q) \<noteq> pr_index (producer_at st' p))
         else r = - ENOMEM \<and> st' = st"
proof -
  note b = hrm_invD [OF inv] and gg = find_group(2) [OF g]
  have new: "\<forall>q \<in> set (hrm_producers st t). pr_group (producer_at st q) \<noteq> g"
    using find_producer(1) [OF b n] gg by blast
  have gs: "g \<in> set (hrm_groups st)" using gg by simp
  have e': "hrm_enlist_producer t p g True now st = (st', r)"
    using e by (simp add: hrm_add_producer_task_to_group_def n g)
  obtain bm i where i: "bitmap_find_free_region (counters_allocation (group_at st g)) HRM_GROUP_SIZE 0 = (bm, i)" by fastforce
  have own: "hc.owned (counters_allocation (group_at st g)) (map (\<lambda>p. pr_index (producer_at st p)) (producers (group_at st g)))"
    using hrm_baseD(3) [OF b gs] unfolding group_ok_def by blast
  show ?thesis
  proof (cases "0 \<le> i")
    case True
    note ok = hrm_enlist_producer_ok [OF b gs p new i True e']
    have "hc.owned (counters_allocation (group_at st' g)) (map (\<lambda>p. pr_index (producer_at st' p)) (producers (group_at st' g)))"
      using hrm_baseD(3) [OF ok(2) gs] unfolding group_ok_def by blast
    then have d: "distinct (map (\<lambda>p. pr_index (producer_at st' p)) (producers (group_at st' g)))"
      and l: "set (map (\<lambda>p. pr_index (producer_at st' p)) (producers (group_at st' g))) \<subseteq> {..<64}"
      unfolding hc.owned_def by (auto simp: HRM_GROUP_SIZE_def)
    have "length (producers (group_at st' g)) \<le> 64"
      using card_mono [OF _ l] distinct_card [OF d] by simp
    moreover have "hrm_find_producer_struct t gid st' \<noteq> None"
    proof -
      have "p \<in> set (hrm_producers st' t)" "hg_gid (group_at st' (pr_group (producer_at st' p))) = gid"
        using e' hrm_enlist_producer_eq [OF i True] gg by (auto simp: enlisted_def Let_def)
      then show ?thesis by (auto simp: hrm_find_producer_struct_def find_None_iff)
    qed
    moreover have "\<forall>q \<in> set (producers (group_at st g)). pr_index (producer_at st' q) \<noteq> pr_index (producer_at st' p)"
      using d unfolding ok(4) by (auto simp: image_iff)
    ultimately show ?thesis using ok(1,4) by (simp add: hrm_producer_task_enabled_group_def)
  next
    case False
    then show ?thesis using hrm_enlist_producer_full [OF b gs i] e' by (simp add: HRM_GROUP_SIZE_def)
  qed
qed

theorem hrm_join_outcome_witness:
  "\<exists>st'. hrm_add_producer_task_to_group (Some 2) 7 (Some 4) (None, False, False) \<lparr>tv_sec = 11, tv_nsec = 0\<rparr> watched_group = (st', 0) \<and>
     hrm_producer_task_enabled_group (Some 2) 7 st' = 1"
proof -
  obtain st' r where e: "hrm_add_producer_task_to_group (Some 2) 7 (Some 4) (None, False, False) \<lparr>tv_sec = 11, tv_nsec = 0\<rparr> watched_group = (st', r)"
    by fastforce
  have w: "hrm_find_group 7 watched_group = Some 0" "hrm_find_producer_struct 2 7 watched_group = None" "fresh_producer 4 watched_group"
    "length (producers (group_at watched_group 0)) < 64"
    by (simp_all add: hrm_find_group_def hrm_find_producer_struct_def fresh_producer_def watched_group_def one_group_def)
  from hrm_join_outcome [OF watched_group_inv w(1-3) e] w(4) e show ?thesis by simp
qed

end
