(* ===== verification/Hrm_Proc.thy ===== *)
theory Hrm_Proc
  imports Hrm_Group Kstring
begin

text \<open>
  The files of the heart rate monitor under \<open>/proc\<close> (\<open>fs/proc/hrm.c\<close>): joining and leaving a group by writing its
  number, mapping the pages of a group, reading the addresses they are mapped at, and the report
  \<open>/proc/hrm\<close>.  With the timer and the hooks in \<open>do_exit\<close> and \<open>copy_process\<close> these are all the ways the state of the
  monitor changes; the last part takes them as the steps of a transition system.

  The task the file belongs to is an argument, None when it is gone.  What the calls to the memory manager
  return, and which bytes user memory holds, are arguments as well.
\<close>

section \<open>Writing the number of a group\<close>

text \<open>The bytes \<open>buf\<close> of user memory go to a zeroed array of 1024 bytes.  \<open>copy_from_user\<close> does not copy more than the
  array can hold, and then reports failure.  A number without an end in the array would make the parser read on
  behind it.\<close>

definition KBUF_SIZE :: nat where [simp]: "KBUF_SIZE = 1024"

definition read_gid :: "string \<Rightarrow> bool \<Rightarrow> (int + int) outcome" where
  "read_gid buf readable =
     (if length buf > KBUF_SIZE \<or> \<not> readable then Returns (Inl (- EFAULT))
      else let kbuf = cstr (buf @ replicate (KBUF_SIZE - length buf) (CHR 0x00));
               (v, rest) = simple_strtol kbuf 10
           in if rest = [] \<and> length kbuf = KBUF_SIZE then Oops else Returns (Inr (s32 v)))"

definition hrm_producer_group_write ::
  "tid \<Rightarrow> tid option \<Rightarrow> string \<Rightarrow> bool \<Rightarrow> nat option \<Rightarrow> group_alloc \<Rightarrow> timespec \<Rightarrow> hrm_state \<Rightarrow> (hrm_state \<times> int) outcome" where
  "hrm_producer_group_write current task buf readable kz al now st =
     (case task of
        None \<Rightarrow> Oops
      | Some t \<Rightarrow>
          if t \<noteq> current then Returns (st, - EPERM)
          else case read_gid buf readable of
              Oops \<Rightarrow> Oops
            | Returns (Inl e) \<Rightarrow> Returns (st, e)
            | Returns (Inr gid) \<Rightarrow>
                if gid > 0 then
                  (case hrm_add_producer_task_to_group task gid kz al now st of
                     (st, r) \<Rightarrow> Returns (st, if r < 0 then r else int (length buf)))
                else if gid < 0 then
                  (case hrm_delete_producer_task_from_group task (s32 (- gid)) st of
                     (st, r) \<Rightarrow> Returns (st, if r < 0 then r else int (length buf)))
                else Returns (st, - EINVAL))"

definition hrm_consumer_group_write ::
  "tid \<Rightarrow> tid option \<Rightarrow> string \<Rightarrow> bool \<Rightarrow> nat option \<Rightarrow> group_alloc \<Rightarrow> hrm_state \<Rightarrow> (hrm_state \<times> int) outcome" where
  "hrm_consumer_group_write current task buf readable kz al st =
     (case task of
        None \<Rightarrow> Oops
      | Some t \<Rightarrow>
          if t \<noteq> current then Returns (st, - EPERM)
          else case read_gid buf readable of
              Oops \<Rightarrow> Oops
            | Returns (Inl e) \<Rightarrow> Returns (st, e)
            | Returns (Inr gid) \<Rightarrow>
                if gid > 0 then
                  (case hrm_add_consumer_task_to_group task gid kz al st of
                     (st, r) \<Rightarrow> Returns (st, if r < 0 then r else int (length buf)))
                else if gid < 0 then
                  (case hrm_delete_consumer_task_from_group task (s32 (- gid)) st of
                     (st, r) \<Rightarrow> Returns (st, if r < 0 then r else int (length buf)))
                else Returns (st, - EINVAL))"

section \<open>Mapping\<close>

text \<open>The part of the four \<open>mmap\<close> handlers that works on the memory of the group: the new memory, the value to return,
  and the address in user space unless the mapping failed.\<close>

definition hrm_map_memory :: "int \<Rightarrow> int \<Rightarrow> int \<Rightarrow> int \<Rightarrow> bool \<Rightarrow> hrm_memory \<Rightarrow> hrm_memory \<times> int \<times> int option" where
  "hrm_map_memory tgid vm_start vm_end remap mem m =
     (let user_address = hrm_find_group_memory_map tgid m
      in if user_address \<noteq> 0 then
           (case hrm_get_group_memory_map tgid m of
              (m, r) \<Rightarrow> if r < 0 then (m, r, None) else (m, r, Some user_address))
         else if u64 (vm_end - vm_start) \<noteq> mem_size m then (m, - EINVAL, None)
         else if remap < 0 then (m, remap, None)
         else (case hrm_add_group_memory_map mem tgid vm_start m of
                 (m, r) \<Rightarrow> if r < 0 then (m, r, None) else (m, r, Some vm_start)))"

definition HRM_COUNTER_ADDR :: "int \<Rightarrow> nat \<Rightarrow> int" where
  "HRM_COUNTER_ADDR address i = u64 (address + L1_CACHE_BYTES * int i)"

definition HRM_COUNTERS_ADDR :: "int \<Rightarrow> int" where
  "HRM_COUNTERS_ADDR address = address"

definition HRM_MEASURES_ADDR :: "int \<Rightarrow> int" where
  "HRM_MEASURES_ADDR address = address"

text \<open>\<open>struct hrm_goal\<close> has the lock, three 64-bit fields and the 32 sizes: 288 bytes.\<close>

definition HRM_GOAL_ADDR :: "int \<Rightarrow> int" where
  "HRM_GOAL_ADDR address = u64 (address + PAGE_SIZE - (8 + 3 * 8 + 8 * int HRM_MAX_WINDOWS))"

definition hrm_producer_counter_mmap ::
  "tid \<Rightarrow> tid option \<Rightarrow> int \<Rightarrow> int \<Rightarrow> int \<Rightarrow> bool \<Rightarrow> hrm_state \<Rightarrow> (hrm_state \<times> int) outcome" where
  "hrm_producer_counter_mmap current task vm_start vm_end remap mem st =
     (case task of
        None \<Rightarrow> Oops
      | Some t \<Rightarrow>
          if t \<noteq> current then Returns (st, - EPERM)
          else if hrm_producer_task_enabled task st = 0 then Returns (st, - EPERM)
          else let p = hd (hrm_producers st t); g = pr_group (producer_at st p)
               in case hrm_map_memory (hrm_tgid st t) vm_start vm_end remap mem (counters (group_at st g)) of
                    (m, r, ua) \<Rightarrow>
                      let st = upd_group g (\<lambda>grp. grp\<lparr>counters := m\<rparr>) st
                      in Returns (case ua of
                           None \<Rightarrow> st
                         | Some a \<Rightarrow> st\<lparr>producer_at := (producer_at st)(p := (producer_at st p)\<lparr>pr_counter_address :=
                             HRM_COUNTER_ADDR a (pr_index (producer_at st p))\<rparr>)\<rparr>, r))"

definition hrm_consumer_counter_mmap ::
  "tid \<Rightarrow> tid option \<Rightarrow> int \<Rightarrow> int \<Rightarrow> int \<Rightarrow> bool \<Rightarrow> hrm_state \<Rightarrow> (hrm_state \<times> int) outcome" where
  "hrm_consumer_counter_mmap current task vm_start vm_end remap mem st =
     (case task of
        None \<Rightarrow> Oops
      | Some t \<Rightarrow>
          if t \<noteq> current then Returns (st, - EPERM)
          else if hrm_consumer_task_enabled task st = 0 then Returns (st, - EPERM)
          else let p = hd (hrm_consumers st t); g = co_group (consumer_at st p)
               in case hrm_map_memory (hrm_tgid st t) vm_start vm_end remap mem (counters (group_at st g)) of
                    (m, r, ua) \<Rightarrow>
                      let st = upd_group g (\<lambda>grp. grp\<lparr>counters := m\<rparr>) st
                      in Returns (case ua of
                           None \<Rightarrow> st
                         | Some a \<Rightarrow> st\<lparr>consumer_at := (consumer_at st)(p := (consumer_at st p)\<lparr>co_counter_address :=
                             HRM_COUNTERS_ADDR a\<rparr>)\<rparr>, r))"

definition hrm_producer_measures_goal_mmap ::
  "tid \<Rightarrow> tid option \<Rightarrow> int \<Rightarrow> int \<Rightarrow> int \<Rightarrow> bool \<Rightarrow> hrm_state \<Rightarrow> (hrm_state \<times> int) outcome" where
  "hrm_producer_measures_goal_mmap current task vm_start vm_end remap mem st =
     (case task of
        None \<Rightarrow> Oops
      | Some t \<Rightarrow>
          if t \<noteq> current then Returns (st, - EPERM)
          else if hrm_producer_task_enabled task st = 0 then Returns (st, - EPERM)
          else let p = hd (hrm_producers st t); g = pr_group (producer_at st p)
               in case hrm_map_memory (hrm_tgid st t) vm_start vm_end remap mem (measures_goal (group_at st g)) of
                    (m, r, ua) \<Rightarrow>
                      let st = upd_group g (\<lambda>grp. grp\<lparr>measures_goal := m\<rparr>) st
                      in Returns (case ua of
                           None \<Rightarrow> st
                         | Some a \<Rightarrow> st\<lparr>producer_at := (producer_at st)(p := (producer_at st p)\<lparr>
                             pr_measures_address := HRM_MEASURES_ADDR a, pr_goal_address := HRM_GOAL_ADDR a\<rparr>)\<rparr>, r))"

definition hrm_consumer_measures_goal_mmap ::
  "tid \<Rightarrow> tid option \<Rightarrow> int \<Rightarrow> int \<Rightarrow> int \<Rightarrow> bool \<Rightarrow> hrm_state \<Rightarrow> (hrm_state \<times> int) outcome" where
  "hrm_consumer_measures_goal_mmap current task vm_start vm_end remap mem st =
     (case task of
        None \<Rightarrow> Oops
      | Some t \<Rightarrow>
          if t \<noteq> current then Returns (st, - EPERM)
          else if hrm_consumer_task_enabled task st = 0 then Returns (st, - EPERM)
          else let p = hd (hrm_consumers st t); g = co_group (consumer_at st p)
               in case hrm_map_memory (hrm_tgid st t) vm_start vm_end remap mem (measures_goal (group_at st g)) of
                    (m, r, ua) \<Rightarrow>
                      let st = upd_group g (\<lambda>grp. grp\<lparr>measures_goal := m\<rparr>) st
                      in Returns (case ua of
                           None \<Rightarrow> st
                         | Some a \<Rightarrow> st\<lparr>consumer_at := (consumer_at st)(p := (consumer_at st p)\<lparr>
                             co_measures_address := HRM_MEASURES_ADDR a, co_goal_address := HRM_GOAL_ADDR a\<rparr>)\<rparr>, r))"

section \<open>Reading the addresses\<close>

text \<open>The copy to user space leaves out the last \<open>ret\<close> bytes.  The result is the value, the new position, and what
  user space got.\<close>

definition simple_read_from_buffer :: "int \<Rightarrow> int \<Rightarrow> string \<Rightarrow> int \<Rightarrow> int \<times> int \<times> string" where
  "simple_read_from_buffer count pos from ret =
     (if pos < 0 then (- EINVAL, pos, [])
      else if pos \<ge> int (length from) \<or> count = 0 then (0, pos, [])
      else let count = (if count > int (length from) - pos then int (length from) - pos else count)
           in if ret = count then (- EFAULT, pos, [])
              else let count = count - ret
                   in (count, pos + count, take (nat count) (drop (nat pos) from)))"

definition luspec :: printf_spec where
  "luspec = dspec\<lparr>fl_sign := False\<rparr>"

definition fmt_lu :: "int \<Rightarrow> string" where
  "fmt_lu x = number luspec x"

text \<open>The guards and the buffer the four read handlers share.\<close>

definition hrm_read :: "tid \<Rightarrow> tid option \<Rightarrow> int \<Rightarrow> string \<Rightarrow> int \<Rightarrow> int \<Rightarrow> int \<Rightarrow> (int \<times> int \<times> string) outcome" where
  "hrm_read current task enabled kbuf sz off ret =
     (case task of
        None \<Rightarrow> Oops
      | Some t \<Rightarrow>
          if t \<noteq> current then Returns (- EPERM, off, [])
          else if enabled = 0 then Returns (- EPERM, off, [])
          else Returns (simple_read_from_buffer sz off kbuf ret))"

definition hrm_producer_counter_read :: "tid \<Rightarrow> tid option \<Rightarrow> int \<Rightarrow> int \<Rightarrow> int \<Rightarrow> hrm_state \<Rightarrow> (int \<times> int \<times> string) outcome" where
  "hrm_producer_counter_read current task sz off ret st =
     hrm_read current task (hrm_producer_task_enabled task st)
       (fmt_lu (pr_counter_address (producer_at st (hd (hrm_producers st current))))) sz off ret"

definition hrm_consumer_counter_read :: "tid \<Rightarrow> tid option \<Rightarrow> int \<Rightarrow> int \<Rightarrow> int \<Rightarrow> hrm_state \<Rightarrow> (int \<times> int \<times> string) outcome" where
  "hrm_consumer_counter_read current task sz off ret st =
     hrm_read current task (hrm_consumer_task_enabled task st)
       (fmt_lu (co_counter_address (consumer_at st (hd (hrm_consumers st current))))) sz off ret"

definition hrm_producer_measures_goal_read :: "tid \<Rightarrow> tid option \<Rightarrow> int \<Rightarrow> int \<Rightarrow> int \<Rightarrow> hrm_state \<Rightarrow> (int \<times> int \<times> string) outcome" where
  "hrm_producer_measures_goal_read current task sz off ret st =
     hrm_read current task (hrm_producer_task_enabled task st)
       (fmt_lu (pr_measures_address (producer_at st (hd (hrm_producers st current)))) @ '' '' @
        fmt_lu (pr_goal_address (producer_at st (hd (hrm_producers st current))))) sz off ret"

definition hrm_consumer_measures_goal_read :: "tid \<Rightarrow> tid option \<Rightarrow> int \<Rightarrow> int \<Rightarrow> int \<Rightarrow> hrm_state \<Rightarrow> (int \<times> int \<times> string) outcome" where
  "hrm_consumer_measures_goal_read current task sz off ret st =
     hrm_read current task (hrm_consumer_task_enabled task st)
       (fmt_lu (co_measures_address (consumer_at st (hd (hrm_consumers st current)))) @ '' '' @
        fmt_lu (co_goal_address (consumer_at st (hd (hrm_consumers st current))))) sz off ret"

section \<open>The report\<close>








section \<open>Exit and fork\<close>

definition hrm_do_exit :: "tid \<Rightarrow> hrm_state \<Rightarrow> hrm_state" where
  "hrm_do_exit t st =
     (let st = (if hrm_producer_task_enabled (Some t) st \<noteq> 0 then fst (hrm_delete_producer_task_from_all_groups (Some t) st) else st)
      in if hrm_consumer_task_enabled (Some t) st \<noteq> 0 then fst (hrm_delete_consumer_task_from_all_groups (Some t) st) else st)"

definition hrm_copy_process :: "tid \<Rightarrow> int \<Rightarrow> int \<Rightarrow> hrm_state \<Rightarrow> hrm_state" where
  "hrm_copy_process t pid tgid st =
     st\<lparr>hrm_pid := (hrm_pid st)(t := pid), hrm_tgid := (hrm_tgid st)(t := tgid),
       hrm_producers := (hrm_producers st)(t := []), hrm_consumers := (hrm_consumers st)(t := [])\<rparr>"

section \<open>The monitor as a transition system\<close>

text \<open>The state after booting: no groups, no members.\<close>

definition hrm_boot :: "hrm_state \<Rightarrow> bool" where
  "hrm_boot st \<longleftrightarrow> hrm_groups st = [] \<and> (\<forall>t. hrm_producers st t = [] \<and> hrm_consumers st t = [])"

text \<open>The steps.  The last one is what threads do in the pages they have mapped: they write any counters, goals and measures.
  Allocations return memory that is not in use, and a new thread is one that is a member of no group.\<close>

inductive hrm_step :: "hrm_state \<Rightarrow> hrm_state \<Rightarrow> bool" where
  producer_write: "hrm_producer_group_write current task buf readable kz al now st = Returns (st', r) \<Longrightarrow>
     \<forall>p. kz = Some p \<longrightarrow> fresh_producer p st \<Longrightarrow> fresh_alloc al st \<Longrightarrow> hrm_step st st'"
| consumer_write: "hrm_consumer_group_write current task buf readable kz al st = Returns (st', r) \<Longrightarrow>
     \<forall>p. kz = Some p \<longrightarrow> fresh_consumer p st \<Longrightarrow> fresh_alloc al st \<Longrightarrow> hrm_step st st'"
| producer_counter_mmap: "hrm_producer_counter_mmap current task vm_start vm_end remap mem st = Returns (st', r) \<Longrightarrow> hrm_step st st'"
| consumer_counter_mmap: "hrm_consumer_counter_mmap current task vm_start vm_end remap mem st = Returns (st', r) \<Longrightarrow> hrm_step st st'"
| producer_goal_mmap: "hrm_producer_measures_goal_mmap current task vm_start vm_end remap mem st = Returns (st', r) \<Longrightarrow> hrm_step st st'"
| consumer_goal_mmap: "hrm_consumer_measures_goal_mmap current task vm_start vm_end remap mem st = Returns (st', r) \<Longrightarrow> hrm_step st st'"
| timer: "g \<in> set (hrm_groups st) \<Longrightarrow> timer_armed (group_at st g) \<Longrightarrow> hrm_step st (hrm_update_group_measures g now st)"
| exit: "hrm_step st (hrm_do_exit t st)"
| clone: "hrm_producers st t = [] \<Longrightarrow> hrm_consumers st t = [] \<Longrightarrow> hrm_step st (hrm_copy_process t pid tgid st)"
| user: "hrm_step st (upd_group g (\<lambda>grp. grp\<lparr>slots := sl, measures := me, goal := go\<rparr>) st)"

inductive hrm_reachable :: "hrm_state \<Rightarrow> bool" where
  boot: "hrm_boot st \<Longrightarrow> hrm_reachable st"
| step: "hrm_reachable st \<Longrightarrow> hrm_step st st' \<Longrightarrow> hrm_reachable st'"

lemma hrm_inv_boot: "hrm_boot st \<Longrightarrow> hrm_inv st"
  by (simp add: hrm_boot_def hrm_inv_def hrm_base_def thread_ok_def)

text \<open>Recording an address leaves the rest of a producer or consumer alone.\<close>

lemma hrm_inv_producer_address:
  assumes inv: "hrm_inv st" and r: "pr_task r = pr_task (producer_at st p)" "pr_index r = pr_index (producer_at st p)"
    "pr_group r = pr_group (producer_at st p)"
  shows "hrm_inv (st\<lparr>producer_at := (producer_at st)(p := r)\<rparr>)"
proof -
  have "pr_task (((producer_at st)(p := r)) q) = pr_task (producer_at st q)" "pr_index (((producer_at st)(p := r)) q) = pr_index (producer_at st q)"
    "pr_group (((producer_at st)(p := r)) q) = pr_group (producer_at st q)" for q
    using r by simp_all
  then show ?thesis using inv by (simp add: hrm_inv_def hrm_base_def group_ok_def thread_ok_def del: fun_upd_apply)
qed

lemma hrm_inv_consumer_address:
  assumes inv: "hrm_inv st" and r: "co_group r = co_group (consumer_at st p)"
  shows "hrm_inv (st\<lparr>consumer_at := (consumer_at st)(p := r)\<rparr>)"
proof -
  have "co_group (((consumer_at st)(p := r)) q) = co_group (consumer_at st q)" for q
    using r by simp
  then show ?thesis using inv by (simp add: hrm_inv_def hrm_base_def group_ok_def thread_ok_def del: fun_upd_apply)
qed

lemma hrm_inv_memory:
  "hrm_inv st \<Longrightarrow> hrm_inv (upd_group g (\<lambda>grp. grp\<lparr>counters := m\<rparr>) st)"
  "hrm_inv st \<Longrightarrow> hrm_inv (upd_group g (\<lambda>grp. grp\<lparr>measures_goal := m\<rparr>) st)"
  "hrm_inv st \<Longrightarrow> hrm_inv (upd_group g (\<lambda>grp. grp\<lparr>slots := sl, measures := me, goal := go\<rparr>) st)"
  by (erule hrm_inv_view; simp add: upd_group_def hrm_view_def)+

lemma hrm_inv_mmap:
  "hrm_producer_counter_mmap current task vm_start vm_end remap mem st = Returns (st', r) \<Longrightarrow> hrm_inv st \<Longrightarrow> hrm_inv st'"
  "hrm_consumer_counter_mmap current task vm_start vm_end remap mem st = Returns (st', r) \<Longrightarrow> hrm_inv st \<Longrightarrow> hrm_inv st'"
  "hrm_producer_measures_goal_mmap current task vm_start vm_end remap mem st = Returns (st', r) \<Longrightarrow> hrm_inv st \<Longrightarrow> hrm_inv st'"
  "hrm_consumer_measures_goal_mmap current task vm_start vm_end remap mem st = Returns (st', r) \<Longrightarrow> hrm_inv st \<Longrightarrow> hrm_inv st'"
  by (auto simp: hrm_producer_counter_mmap_def hrm_consumer_counter_mmap_def hrm_producer_measures_goal_mmap_def
      hrm_consumer_measures_goal_mmap_def Let_def split: option.splits if_splits prod.splits
      intro!: hrm_inv_producer_address hrm_inv_consumer_address hrm_inv_memory)

lemma hrm_inv_write:
  "hrm_producer_group_write current task buf readable kz al now st = Returns (st', r) \<Longrightarrow> hrm_inv st \<Longrightarrow>
     \<forall>p. kz = Some p \<longrightarrow> fresh_producer p st \<Longrightarrow> fresh_alloc al st \<Longrightarrow> hrm_inv st'"
  "hrm_consumer_group_write current task buf readable kz al st = Returns (st', r) \<Longrightarrow> hrm_inv st \<Longrightarrow>
     \<forall>p. kz = Some p \<longrightarrow> fresh_consumer p st \<Longrightarrow> fresh_alloc al st \<Longrightarrow> hrm_inv st'"
  using hrm_inv_add_producer [of st kz al] hrm_inv_delete_producer [of st] hrm_inv_add_consumer [of st kz al] hrm_inv_delete_consumer [of st]
  by (auto simp: hrm_producer_group_write_def hrm_consumer_group_write_def split: option.splits if_splits outcome.splits sum.splits prod.splits)
     (metis fst_conv)+

lemma hrm_inv_exit: "hrm_inv st \<Longrightarrow> hrm_inv (hrm_do_exit t st)"
  by (simp add: hrm_do_exit_def Let_def hrm_inv_delete_all_producers hrm_inv_delete_all_consumers)

lemma hrm_inv_copy:
  assumes "hrm_inv st" "hrm_producers st t = []" "hrm_consumers st t = []"
  shows "hrm_inv (hrm_copy_process t pid tgid st)"
proof -
  have "(hrm_producers st)(t := []) = hrm_producers st" "(hrm_consumers st)(t := []) = hrm_consumers st"
    using assms(2,3) by auto
  then show ?thesis
    by (intro hrm_inv_view [OF assms(1)]) (simp_all add: hrm_copy_process_def)
qed

lemma hrm_inv_step: "hrm_step st st' \<Longrightarrow> hrm_inv st \<Longrightarrow> hrm_inv st'"
  by (induction rule: hrm_step.induct)
     (auto intro: hrm_inv_write hrm_inv_mmap hrm_inv_tick hrm_inv_exit hrm_inv_copy hrm_inv_memory(3))

lemma hrm_inv_reachable: "hrm_reachable st \<Longrightarrow> hrm_inv st"
  by (induction rule: hrm_reachable.induct) (auto intro: hrm_inv_boot hrm_inv_step)

section \<open>Properties\<close>


definition boot_state :: hrm_state where
  "boot_state = \<lparr>group_at = (\<lambda>_. new_group 0),
     producer_at = (\<lambda>_. \<lparr>pr_task = 0, pr_index = 0, pr_group = 0, pr_counter_address = 0, pr_measures_address = 0, pr_goal_address = 0\<rparr>),
     consumer_at = (\<lambda>_. \<lparr>co_group = 0, co_counter_address = 0, co_measures_address = 0, co_goal_address = 0\<rparr>),
     hrm_groups = [], hrm_producers = (\<lambda>_. []), hrm_consumers = (\<lambda>_. []), hrm_pid = int, hrm_tgid = int\<rparr>"

definition first_join :: "hrm_state \<times> int" where
  "first_join = hrm_add_producer_task_to_group (Some 1) 7 (Some 3) (Some 0, True, True) \<lparr>tv_sec = 5, tv_nsec = 0\<rparr> boot_state"

lemma boot_state_boot: "hrm_boot boot_state"
  by (simp add: hrm_boot_def boot_state_def)

lemma first_join_ok:
  "producers (group_at (fst first_join) 0) = [3]" "hrm_groups (fst first_join) = [0]" "snd first_join = 0"
  "hrm_producers (fst first_join) 1 = [3]"
proof -
  let ?st = "upd_group 0 (\<lambda>_. new_group 7) boot_state"
  obtain bm i where i: "bitmap_find_free_region (counters_allocation (group_at ?st 0)) HRM_GROUP_SIZE 0 = (bm, i)" by fastforce
  obtain st' r where e: "hrm_enlist_producer 1 3 0 False \<lparr>tv_sec = 5, tv_nsec = 0\<rparr> ?st = (st', r)" by fastforce
  have b: "hrm_base [0] ?st"
    using hrm_base_create [OF hrm_invD [OF hrm_inv_boot [OF boot_state_boot]], of 0 7] by (simp add: boot_state_def)
  have f: "group_at ?st 0 = new_group 7" "hrm_groups ?st = []" "hrm_producers ?st = (\<lambda>_. [])"
    by (simp_all add: upd_group_def boot_state_def)
  have i0: "0 \<le> i"
    using hrm_enlist_producer_full(2) [OF b _ i] by (force simp: f HRM_GROUP_SIZE_def)
  note ok = hrm_enlist_producer_ok [OF b _ _ _ i i0 e]
  have fj: "first_join = (st', r)"
    using e by (simp add: first_join_def hrm_add_producer_task_to_group_def hrm_find_producer_struct_def hrm_find_group_def
      hrm_create_group_def boot_state_def)
  show "producers (group_at (fst first_join) 0) = [3]" "hrm_groups (fst first_join) = [0]" "snd first_join = 0"
    "hrm_producers (fst first_join) 1 = [3]"
    using ok unfolding fj by (simp_all add: f fresh_producer_def)
qed

lemma read_gid_7: "read_gid ''7'' True = Returns (Inr 7)"
  by code_simp

lemma first_join_reachable: "hrm_reachable (fst first_join)"
proof (rule hrm_reachable.step [OF hrm_reachable.boot [OF boot_state_boot]])
  have "hrm_producer_group_write 1 (Some 1) ''7'' True (Some 3) (Some 0, True, True) \<lparr>tv_sec = 5, tv_nsec = 0\<rparr> boot_state =
      Returns (fst first_join, 1)"
    using first_join_ok(3) by (auto simp: hrm_producer_group_write_def read_gid_7 first_join_def split: prod.splits)
  then show "hrm_step boot_state (fst first_join)"
    by (rule hrm_step.producer_write) (simp_all add: fresh_producer_def fresh_alloc_def boot_state_def)
qed


lemma hrm_drop_consumer_producers:
  "hrm_producers (fold (hrm_drop_consumer t) ps st) = hrm_producers st"
  by (rule fold_frame) (simp add: hrm_drop_consumer_def Let_def hrm_reap_group_def hrm_put_maps_def hrm_destroy_group_def
    hrm_delete_group_def upd_group_def)

lemma hrm_exit_members:
  assumes "hrm_inv st"
  shows "hrm_producers (hrm_do_exit t st) t = []" and "hrm_consumers (hrm_do_exit t st) t = []"
proof -
  define s where "s = (if hrm_producer_task_enabled (Some t) st \<noteq> 0 then fst (hrm_delete_producer_task_from_all_groups (Some t) st) else st)"
  have s: "hrm_inv s" "hrm_producers s t = []"
    using hrm_drop_all_producers [OF assms refl, of t] assms
    by (auto simp: s_def hrm_delete_producer_task_from_all_groups_def hrm_producer_task_enabled_def)
  have e: "hrm_do_exit t st = (if hrm_consumers s t \<noteq> [] then fold (hrm_drop_consumer t) (hrm_consumers s t) s else s)"
    by (simp add: hrm_do_exit_def s_def [symmetric] Let_def hrm_delete_consumer_task_from_all_groups_def hrm_consumer_task_enabled_def)
  show "hrm_producers (hrm_do_exit t st) t = []" by (simp add: e hrm_drop_consumer_producers s(2))
  show "hrm_consumers (hrm_do_exit t st) t = []" using hrm_drop_all_consumers [OF s(1) refl, of t] by (simp add: e)
qed

text \<open>C35. A thread that exits leaves nothing behind in the monitor: it has no producers and consumers, and no group still
  on the list has a producer that points to it.\<close>

theorem hrm_exit_leaves_nothing:
  assumes r: "hrm_reachable st"
  shows "hrm_producers (hrm_do_exit t st) t = [] \<and> hrm_consumers (hrm_do_exit t st) t = [] \<and>
    (\<forall>g \<in> set (hrm_groups (hrm_do_exit t st)). \<forall>p \<in> set (producers (group_at (hrm_do_exit t st) g)).
       pr_task (producer_at (hrm_do_exit t st) p) \<noteq> t)"
proof -
  note inv = hrm_inv_reachable [OF r]
  have "p \<in> set (hrm_producers (hrm_do_exit t st) (pr_task (producer_at (hrm_do_exit t st) p)))"
    if "g \<in> set (hrm_groups (hrm_do_exit t st))" "p \<in> set (producers (group_at (hrm_do_exit t st) g))" for g p
    using hrm_baseD(3) [OF hrm_invD [OF hrm_inv_exit [OF inv]] that(1)] that(2) unfolding group_ok_def by blast
  then show ?thesis
    using hrm_exit_members [OF inv] by (metis empty_iff empty_set)
qed

theorem hrm_exit_leaves_nothing_witness:
  "hrm_producers (fst first_join) 1 = [3] \<and> hrm_producers (hrm_do_exit 1 (fst first_join)) 1 = []"
  using hrm_exit_leaves_nothing [OF first_join_reachable, of 1] first_join_ok(4) by simp









section \<open>Ranges\<close>

definition ring_ok :: "hrm_group \<Rightarrow> bool" where
  "ring_ok grp \<longleftrightarrow> 0 \<le> window_cur grp \<and> window_cur grp < HRM_MAX_WINDOW_SIZE \<and> 0 \<le> buffered grp \<and> buffered grp \<le> HRM_MAX_WINDOW_SIZE \<and>
     in_u64 (history grp)"

definition rings_ok :: "hrm_state \<Rightarrow> bool" where
  "rings_ok st \<longleftrightarrow> (\<forall>g \<in> set (hrm_groups st). ring_ok (group_at st g))"

lemma ring_ok_new: "ring_ok (new_group gid)"
  by (simp add: ring_ok_def new_group_def in_u64_def)

lemma rings_ok_frame:
  assumes "rings_ok st" and "set (hrm_groups st') \<subseteq> set (hrm_groups st)"
    and "\<And>g. ring_ok (group_at st g) \<Longrightarrow> ring_ok (group_at st' g)"
  shows "rings_ok st'"
  using assms by (auto simp: rings_ok_def)

lemma rings_ok_enlist:
  assumes "rings_ok st" and "ring_ok (group_at st g)"
  shows "rings_ok (fst (hrm_enlist_producer t p g ex now st))"
proof -
  obtain bm i where i: "bitmap_find_free_region (counters_allocation (group_at st g)) HRM_GROUP_SIZE 0 = (bm, i)" by fastforce
  show ?thesis
  proof (cases "0 \<le> i")
    case True
    then show ?thesis using assms by (auto simp: hrm_enlist_producer_eq [OF i] enlisted_def Let_def rings_ok_def ring_ok_def)
  next
    case False
    then show ?thesis using assms
      by (auto simp: hrm_enlist_producer_def hrm_allocate_group_counter_def i rings_ok_def ring_ok_def upd_group_def hrm_destroy_group_def)
  qed
qed

lemma rings_ok_create:
  "rings_ok st \<Longrightarrow> rings_ok (upd_group g (\<lambda>_. new_group gid) st)" "ring_ok (group_at (upd_group g (\<lambda>_. new_group gid) st) g)"
  by (auto simp: rings_ok_def upd_group_def ring_ok_new)

lemma rings_ok_add_producer:
  assumes "rings_ok st"
  shows "rings_ok (fst (hrm_add_producer_task_to_group task gid kz al now st))"
  using assms rings_ok_enlist rings_ok_create
  by (auto simp: hrm_add_producer_task_to_group_def hrm_create_group_def split: option.splits prod.splits if_splits
    dest!: find_group(2)) (auto simp: rings_ok_def)

lemma rings_ok_add_consumer:
  assumes "rings_ok st"
  shows "rings_ok (fst (hrm_add_consumer_task_to_group task gid kz al st))"
proof -
  have e: "rings_ok (hrm_enlist_consumer t p g ex s)" if "rings_ok s" "ring_ok (group_at s g)" for t p g ex s
    using that by (auto simp: rings_ok_def ring_ok_def hrm_enlist_consumer_def Let_def upd_group_def hrm_add_group_def)
  then show ?thesis using assms rings_ok_create
    by (auto simp: hrm_add_consumer_task_to_group_def hrm_create_group_def split: option.splits prod.splits if_splits
      dest!: find_group(2)) (auto simp: rings_ok_def)
qed

lemma rings_ok_reap: "rings_ok st \<Longrightarrow> rings_ok (hrm_reap_group g st)"
  using set_remove1_subset [of g "hrm_groups st"]
  by (auto simp: rings_ok_def hrm_reap_group_def hrm_destroy_group_def hrm_delete_group_def upd_group_def ring_ok_def)

lemma rings_ok_drop: "rings_ok st \<Longrightarrow> rings_ok (hrm_drop_producer t p st)" "rings_ok st \<Longrightarrow> rings_ok (hrm_drop_consumer t p st)"
  unfolding hrm_drop_producer_def hrm_drop_consumer_def Let_def
  by (rule rings_ok_reap, erule rings_ok_frame;
    auto simp: hrm_put_maps_def hrm_release_group_counter_def upd_group_def ring_ok_def)+

lemma rings_ok_tick:
  assumes "rings_ok st"
  shows "rings_ok (hrm_update_group_measures g now st)"
  using assms
proof (rule rings_ok_frame)
  have "ring_ok (tick_group grp hb el)" if "ring_ok grp" for grp hb el
    using that by (simp add: tick_group_def Let_def ring_ok_def and_1023)
  then show "ring_ok (group_at (hrm_update_group_measures g now st) h)" if "ring_ok (group_at st h)" for h
    using that by (auto simp: hrm_update_group_measures_eq upd_group_def)
qed (simp add: hrm_update_group_measures_eq upd_group_def)

lemma rings_ok_drop_all:
  "rings_ok st \<Longrightarrow> rings_ok (fold (hrm_drop_producer t) ps st)" "rings_ok st \<Longrightarrow> rings_ok (fold (hrm_drop_consumer t) ps st)"
  by (erule fold_invariant_set [where P = rings_ok], simp add: rings_ok_drop)+

lemma rings_ok_members:
  "rings_ok st \<Longrightarrow> rings_ok (fst (hrm_delete_producer_task_from_group task gid st))"
  "rings_ok st \<Longrightarrow> rings_ok (fst (hrm_delete_producer_task_from_all_groups task st))"
  "rings_ok st \<Longrightarrow> rings_ok (fst (hrm_delete_consumer_task_from_group task gid st))"
  "rings_ok st \<Longrightarrow> rings_ok (fst (hrm_delete_consumer_task_from_all_groups task st))"
proof -
  assume st: "rings_ok st"
  have u: "rings_ok (upd_group g (\<lambda>grp. grp\<lparr>slots := f grp\<rparr>) st)" for g f
    using st by (auto simp: rings_ok_def upd_group_def ring_ok_def)
  show "rings_ok (fst (hrm_delete_producer_task_from_group task gid st))"
    using st u by (auto simp: hrm_delete_producer_task_from_group_def Let_def rings_ok_drop split: option.splits)
  show "rings_ok (fst (hrm_delete_producer_task_from_all_groups task st))"
    using st by (auto simp: hrm_delete_producer_task_from_all_groups_def rings_ok_drop_all split: option.splits)
  show "rings_ok (fst (hrm_delete_consumer_task_from_group task gid st))"
    using st by (auto simp: hrm_delete_consumer_task_from_group_def rings_ok_drop split: option.splits)
  show "rings_ok (fst (hrm_delete_consumer_task_from_all_groups task st))"
    using st by (auto simp: hrm_delete_consumer_task_from_all_groups_def rings_ok_drop_all split: option.splits)
qed

lemma rings_ok_write:
  "hrm_producer_group_write current task buf readable kz al now st = Returns (st', r) \<Longrightarrow> rings_ok st \<Longrightarrow> rings_ok st'"
  "hrm_consumer_group_write current task buf readable kz al st = Returns (st', r) \<Longrightarrow> rings_ok st \<Longrightarrow> rings_ok st'"
  using rings_ok_add_producer [where st = st and al = al] rings_ok_add_consumer [where st = st and al = al] rings_ok_members [of st]
  by (auto simp: hrm_producer_group_write_def hrm_consumer_group_write_def split: option.splits if_splits outcome.splits sum.splits prod.splits)
     (metis fst_conv)+

lemma rings_ok_address [simp]:
  "rings_ok (st\<lparr>producer_at := x\<rparr>) = rings_ok st" "rings_ok (st\<lparr>consumer_at := y\<rparr>) = rings_ok st"
  by (simp_all add: rings_ok_def)

lemma rings_ok_memory:
  "rings_ok st \<Longrightarrow> rings_ok (upd_group g (\<lambda>grp. grp\<lparr>counters := m\<rparr>) st)"
  "rings_ok st \<Longrightarrow> rings_ok (upd_group g (\<lambda>grp. grp\<lparr>measures_goal := m\<rparr>) st)"
  by (auto simp: rings_ok_def upd_group_def ring_ok_def)

lemma rings_ok_mmap:
  "hrm_producer_counter_mmap current task vm_start vm_end remap mem st = Returns (st', r) \<Longrightarrow> rings_ok st \<Longrightarrow> rings_ok st'"
  "hrm_consumer_counter_mmap current task vm_start vm_end remap mem st = Returns (st', r) \<Longrightarrow> rings_ok st \<Longrightarrow> rings_ok st'"
  "hrm_producer_measures_goal_mmap current task vm_start vm_end remap mem st = Returns (st', r) \<Longrightarrow> rings_ok st \<Longrightarrow> rings_ok st'"
  "hrm_consumer_measures_goal_mmap current task vm_start vm_end remap mem st = Returns (st', r) \<Longrightarrow> rings_ok st \<Longrightarrow> rings_ok st'"
  by (auto simp: hrm_producer_counter_mmap_def hrm_consumer_counter_mmap_def hrm_producer_measures_goal_mmap_def
      hrm_consumer_measures_goal_mmap_def Let_def rings_ok_memory split: option.splits if_splits prod.splits)

lemma rings_ok_step: "hrm_step st st' \<Longrightarrow> rings_ok st \<Longrightarrow> rings_ok st'"
proof (induction rule: hrm_step.induct)
  case (exit st t)
  then show ?case by (simp add: hrm_do_exit_def Let_def rings_ok_members)
next
  case (clone st t pid tgid)
  then show ?case by (simp add: hrm_copy_process_def rings_ok_def)
next
  case (user st g sl me go)
  then show ?case by (auto simp: rings_ok_def upd_group_def ring_ok_def)
qed (auto intro: rings_ok_write rings_ok_mmap rings_ok_tick)

lemma rings_ok_reachable: "hrm_reachable st \<Longrightarrow> rings_ok st"
proof (induction rule: hrm_reachable.induct)
  case (boot st)
  then show ?case by (simp add: rings_ok_def hrm_boot_def)
qed (rule rings_ok_step)

text \<open>C38. The fields of a group keep their ranges, so the timer never leaves the array of samples: in every reachable state the
  position where the next sample goes is between 0 and 1023, the number of samples is at most 1024, the history and
  the sum fit in 64 bits, and for any window size that user space has written, the position of the first sample
  of the window is between 0 and 1023.\<close>

theorem hrm_group_ranges:
  assumes "hrm_reachable st" and g: "g \<in> set (hrm_groups st)"
  shows "0 \<le> window_cur (group_at st g) \<and> window_cur (group_at st g) < 1024 \<and> 0 \<le> buffered (group_at st g) \<and>
    buffered (group_at st g) \<le> 1024 \<and> in_u64 (history (group_at st g)) \<and> in_u64 (hrm_sum g st) \<and>
    (\<forall>ws. 0 \<le> u64 (window_cur (group_at st g) - ws) AND (HRM_MAX_WINDOW_SIZE - 1) \<and>
       u64 (window_cur (group_at st g) - ws) AND (HRM_MAX_WINDOW_SIZE - 1) < 1024)"
  using rings_ok_reachable [OF assms(1)] g
  by (auto simp: rings_ok_def ring_ok_def hrm_sum_def fold_u64 and_1023)

theorem hrm_group_ranges_witness:
  "hrm_groups (fst first_join) = [0] \<and> window_cur (group_at (fst first_join) 0) < 1024"
  using hrm_group_ranges [OF first_join_reachable, of 0] first_join_ok(2) by simp

end
