(* ===== verification/Libhrm.thy ===== *)
theory Libhrm
  imports Hrm_Proc
begin

text \<open>
  The user side of the heart rate monitor (\<open>tools/libhrm/hrm.c\<close>).  An attached thread works on the pages of its
  group directly: it counts heartbeats in its slot, and reads and writes windows, goals and measures there.  The
  pages are the fields \<open>slots\<close>, \<open>measures\<close> and \<open>goal\<close> of the group.  The library is configured with the window size of the kernel.

  A NULL monitor is None.  The functions that take the lock of the goal have the result None when the lock is held: they
  spin until another thread releases it.  Otherwise a function returns the changed group, its value, and the error
  number it sets, if any.  Floating-point values are kept symbolic: a rate is the expression it is computed from.
\<close>

record hrm =
  m_gid :: int
  m_consumer :: bool
  m_slot :: nat

datatype lib_error = E_FAULT | E_PERM | E_INVAL | E_DOM | E_NOMEM

text \<open>The value 0, a count divided by a time times the nanoseconds in a second, and a goal divided by the scale.\<close>

datatype hr_value = HR_zero | HR_rate int int | HR_goal int

definition add_window :: "int \<Rightarrow> hrm_group \<Rightarrow> (hrm_group \<times> int \<times> lib_error option) option" where
  "add_window ws grp =
     (if goal_lock (goal grp) \<noteq> 0 then None
      else case find (\<lambda>i. window_size (goal grp) i = ws \<or> window_size (goal grp) i = 0) [0..<HRM_MAX_WINDOWS] of
          None \<Rightarrow> Some (grp, - 1, Some E_NOMEM)
        | Some i \<Rightarrow> Some (if window_size (goal grp) i = ws then grp
             else grp\<lparr>goal := (goal grp)\<lparr>window_size := (window_size (goal grp))(i := ws)\<rparr>\<rparr>, int i + 1, None))"

definition hrm_add_window :: "hrm option \<Rightarrow> int \<Rightarrow> hrm_group \<Rightarrow> (hrm_group \<times> int \<times> lib_error option) option" where
  "hrm_add_window monitor ws grp =
     (case monitor of None \<Rightarrow> Some (grp, - 1, Some E_FAULT) | Some m \<Rightarrow> add_window ws grp)"

definition hrm_del_window :: "hrm option \<Rightarrow> int \<Rightarrow> hrm_group \<Rightarrow> (hrm_group \<times> int \<times> lib_error option) option" where
  "hrm_del_window monitor ws grp =
     (case monitor of
        None \<Rightarrow> Some (grp, - 1, Some E_FAULT)
      | Some m \<Rightarrow>
          if m_consumer m then Some (grp, - 1, Some E_PERM)
          else if ws = 0 then Some (grp, - 1, Some E_INVAL)
          else if ws = goal_scope (goal grp) then Some (grp, - 1, Some E_INVAL)
          else if goal_lock (goal grp) \<noteq> 0 then None
          else case find (\<lambda>i. window_size (goal grp) i = ws) [0..<HRM_MAX_WINDOWS] of
              None \<Rightarrow> Some (grp, - 1, Some E_INVAL)
            | Some i \<Rightarrow> Some (grp\<lparr>goal := (goal grp)\<lparr>window_size := (window_size (goal grp))(i := 0)\<rparr>\<rparr>, 0, None))"

text \<open>\<open>lt\<close> is the comparison of the floating-point goals, \<open>scaled\<close> the product with the scale as an integer.\<close>

definition hrm_set_goal ::
  "('d \<Rightarrow> 'd \<Rightarrow> bool) \<Rightarrow> ('d \<Rightarrow> int) \<Rightarrow> hrm option \<Rightarrow> int \<Rightarrow> 'd \<Rightarrow> 'd \<Rightarrow> hrm_group \<Rightarrow> (hrm_group \<times> int \<times> lib_error option) option" where
  "hrm_set_goal lt scaled monitor ws min_hr max_hr grp =
     (case monitor of
        None \<Rightarrow> Some (grp, - 1, Some E_FAULT)
      | Some m \<Rightarrow>
          if m_consumer m then Some (grp, - 1, Some E_PERM)
          else if lt max_hr min_hr then Some (grp, - 1, Some E_DOM)
          else if ws > HRM_MAX_WINDOW_SIZE then Some (grp, - 1, Some E_DOM)
          else case (if ws > 0 then add_window ws grp else Some (grp, - 1, None)) of
              None \<Rightarrow> None
            | Some (grp, key, e) \<Rightarrow>
                if ws > 0 \<and> key = - 1 then Some (grp, - 1, e)
                else if goal_lock (goal grp) \<noteq> 0 then None
                else Some (grp\<lparr>goal := (goal grp)\<lparr>min_heart_rate := scaled min_hr, max_heart_rate := scaled max_hr, goal_scope := ws\<rparr>\<rparr>, key, None))"

definition hrm_unset_goal :: "hrm option \<Rightarrow> hrm_group \<Rightarrow> (hrm_group \<times> int \<times> lib_error option) option" where
  "hrm_unset_goal monitor grp =
     (case monitor of
        None \<Rightarrow> Some (grp, - 1, Some E_FAULT)
      | Some m \<Rightarrow>
          if m_consumer m then Some (grp, - 1, Some E_PERM)
          else if goal_lock (goal grp) \<noteq> 0 then None
          else Some (grp\<lparr>goal := (goal grp)\<lparr>min_heart_rate := 0, max_heart_rate := 0, goal_scope := 0\<rparr>\<rparr>, 0, None))"

text \<open>This function does not check for NULL.\<close>

definition hrm_get_windows_number :: "hrm option \<Rightarrow> hrm_group \<Rightarrow> int outcome option" where
  "hrm_get_windows_number monitor grp =
     (case monitor of
        None \<Rightarrow> Some Oops
      | Some m \<Rightarrow>
          if goal_lock (goal grp) \<noteq> 0 then None
          else Some (Returns (fold (\<lambda>i count. if window_size (goal grp) i \<noteq> 0 then count + 1 else count) [0..<HRM_MAX_WINDOWS - 1] 0)))"


definition rate_of :: "hrm_measure \<Rightarrow> hr_value" where
  "rate_of m = (if hm_time m \<noteq> 0 then HR_rate (hm_count m) (hm_time m) else HR_zero)"

text \<open>When the window is not found, the function still reads the measure behind the last one; the value is not used.\<close>

definition lib_seek_heart_rate :: "hrm option \<Rightarrow> int \<Rightarrow> hrm_group \<Rightarrow> (hr_value \<times> int \<times> lib_error option) option" where
  "lib_seek_heart_rate monitor ws grp =
     (case monitor of
        None \<Rightarrow> Some (HR_zero, - 1, Some E_FAULT)
      | Some m \<Rightarrow>
          if ws > HRM_MAX_WINDOW_SIZE then Some (HR_zero, - 1, Some E_INVAL)
          else if goal_lock (goal grp) \<noteq> 0 then None
          else if ws = 0 then Some (rate_of (ms_global (measures grp)), 0, None)
          else case find (\<lambda>i. window_size (goal grp) i = ws) [0..<HRM_MAX_WINDOWS] of
              Some i \<Rightarrow> Some (rate_of (ms_window (measures grp) i), int i + 1, None)
            | None \<Rightarrow> Some (HR_zero, - 1, Some E_INVAL))"


definition lib_get_min_heart_rate :: "hrm option \<Rightarrow> hrm_group \<Rightarrow> (hr_value \<times> int \<times> lib_error option) option" where
  "lib_get_min_heart_rate monitor grp =
     (case monitor of
        None \<Rightarrow> Some (HR_zero, HRM_MAX_WINDOW_SIZE, Some E_FAULT)
      | Some m \<Rightarrow>
          if goal_lock (goal grp) \<noteq> 0 then None
          else Some (HR_goal (min_heart_rate (goal grp)), goal_scope (goal grp), None))"

definition lib_get_max_heart_rate :: "hrm option \<Rightarrow> hrm_group \<Rightarrow> (hr_value \<times> int \<times> lib_error option) option" where
  "lib_get_max_heart_rate monitor grp =
     (case monitor of
        None \<Rightarrow> Some (HR_zero, HRM_MAX_WINDOW_SIZE, Some E_FAULT)
      | Some m \<Rightarrow>
          if goal_lock (goal grp) \<noteq> 0 then None
          else Some (HR_goal (max_heart_rate (goal grp)), goal_scope (goal grp), None))"

definition heartbeat :: "hrm option \<Rightarrow> int \<Rightarrow> hrm_group \<Rightarrow> hrm_group \<times> int \<times> lib_error option" where
  "heartbeat monitor n grp =
     (case monitor of
        None \<Rightarrow> (grp, - 1, Some E_FAULT)
      | Some m \<Rightarrow>
          if m_consumer m then (grp, - 1, Some E_PERM)
          else (grp\<lparr>slots := (slots grp)(m_slot m := (slots grp (m_slot m))\<lparr>hc_counter := u64 (hc_counter (slots grp (m_slot m)) + n)\<rparr>)\<rparr>, 0, None))"

text \<open>\<open>room\<close> is the number of elements of the array \<open>tids\<close>, None when the pointer is NULL; the result has the elements that
  are written.  Writing behind the array, which includes every negative \<open>n\<close>, is an oops.\<close>

definition hrm_get_tids :: "hrm option \<Rightarrow> nat option \<Rightarrow> int \<Rightarrow> bool \<Rightarrow> hrm_group \<Rightarrow> (int list \<times> int \<times> lib_error option) outcome" where
  "hrm_get_tids monitor room n mem grp =
     (case monitor of
        None \<Rightarrow> Returns ([], - 1, Some E_FAULT)
      | Some m \<Rightarrow>
          if \<not> m_consumer m then Returns ([], - 1, Some E_PERM)
          else case room of
              None \<Rightarrow> Returns ([], - 1, None)
            | Some len \<Rightarrow>
                if \<not> mem then Returns ([], - 1, None)
                else let tids' = map (\<lambda>i. hc_tid (slots grp i)) (filter (\<lambda>i. hc_used (slots grp i) \<noteq> 0) [0..<64]);
                         k = (if int (length tids') < n then int (length tids') else n)
                     in if k < 0 \<or> int len \<le> k then Oops
                        else Returns (take (nat k) tids' @ [0], 0, None))"

section \<open>Properties\<close>




lemma hrm_sum_other:
  assumes "h \<noteq> g" and "\<forall>p \<in> set (producers (group_at st h)). pr_group (producer_at st p) = h"
  shows "hrm_sum h (upd_group g f st) = hrm_sum h st"
proof -
  have "hrm_counter_of p (upd_group g f st) = hrm_counter_of p st" if "p \<in> set (producers (group_at st h))" for p
    using assms that by (simp add: hrm_counter_of_def upd_group_def)
  then have "map (\<lambda>p. hc_counter (hrm_counter_of p (upd_group g f st))) (producers (group_at st h)) =
      map (\<lambda>p. hc_counter (hrm_counter_of p st)) (producers (group_at st h))"
    by simp
  moreover have "group_at (upd_group g f st) h = group_at st h" using assms(1) by (simp add: upd_group_def)
  ultimately show ?thesis unfolding hrm_sum_def fold_u64 by (simp only:)
qed

lemma heartbeat_sum:
  assumes inv: "hrm_inv st" and g: "g \<in> set (hrm_groups st)" and p: "p \<in> set (producers (group_at st g))"
    and i: "i = pr_index (producer_at st p)"
    and st': "st' = upd_group g (\<lambda>grp. grp\<lparr>slots := (slots grp)(i := (slots grp i)\<lparr>hc_counter := u64 (hc_counter (slots grp i) + n)\<rparr>)\<rparr>) st"
  shows "hrm_sum g st' = u64 (hrm_sum g st + n)"
proof -
  let ?ps = "producers (group_at st g)" and ?c = "\<lambda>q. hc_counter (hrm_counter_of q st)" and ?c' = "\<lambda>q. hc_counter (hrm_counter_of q st')"
  note gok = hrm_baseD(3) [OF hrm_invD [OF inv] g]
  have own: "hc.owned (counters_allocation (group_at st g)) (map (\<lambda>p. pr_index (producer_at st p)) ?ps)"
    and grp: "\<forall>q \<in> set ?ps. pr_group (producer_at st q) = g"
    using gok unfolding group_ok_def by blast+
  then have d: "distinct (map (\<lambda>p. pr_index (producer_at st p)) ?ps)" unfolding hc.owned_def by blast
  have "?c' q = ?c q" if "q \<in> set (remove1 p ?ps)" for q
  proof -
    have "q \<in> set ?ps" "q \<noteq> p" using that d by (auto simp: distinct_map)
    then have "pr_index (producer_at st q) \<noteq> i" using d p by (auto simp: distinct_map inj_on_def i)
    then show ?thesis by (auto simp: hrm_counter_of_def st' upd_group_def)
  qed
  then have r: "map ?c' (remove1 p ?ps) = map ?c (remove1 p ?ps)" by simp
  have cp: "?c' p = u64 (?c p + n)" using grp p by (simp add: hrm_counter_of_def st' upd_group_def i)
  have f: "producers (group_at st' g) = ?ps" "history (group_at st' g) = history (group_at st g)" by (simp_all add: st' upd_group_def)
  have ne: "?ps \<noteq> []" using p by auto
  have "hrm_sum g st' = u64 (history (group_at st g) + (?c' p + (\<Sum>q\<leftarrow>remove1 p ?ps. ?c' q)))"
    using ne by (simp add: hrm_sum_def fold_u64 f sum_list_map_remove1 [OF p, of ?c'])
  also have "\<dots> = u64 (history (group_at st g) + (u64 (?c p + n) + (\<Sum>q\<leftarrow>remove1 p ?ps. ?c q)))"
    unfolding cp r ..
  also have "\<dots> = u64 (u64 (?c p + n) + (history (group_at st g) + (\<Sum>q\<leftarrow>remove1 p ?ps. ?c q)))"
    by (simp add: add_ac)
  also have "\<dots> = u64 (u64 (history (group_at st g) + (?c p + (\<Sum>q\<leftarrow>remove1 p ?ps. ?c q))) + n)"
    unfolding u64_add_left by (simp add: add_ac)
  also have "\<dots> = u64 (hrm_sum g st + n)"
    using ne by (simp add: hrm_sum_def fold_u64 sum_list_map_remove1 [OF p, of ?c])
  finally show ?thesis .
qed

text \<open>C33. Heartbeats arrive: when a producer thread of a group counts \<open>n\<close> heartbeats, the total that the next tick of the
  group publishes is larger by \<open>n\<close>, in 64-bit arithmetic, and the total of no other group changes.\<close>

theorem heartbeat_published:
  assumes inv: "hrm_inv st" and g: "g \<in> set (hrm_groups st)" and p: "p \<in> set (producers (group_at st g))"
    and m: "m_slot m = pr_index (producer_at st p)" "\<not> m_consumer m"
    and b: "heartbeat (Some m) n (group_at st g) = (grp', r, e)"
    and st': "st' = hrm_update_group_measures g now (upd_group g (\<lambda>_. grp') st)"
  shows "r = 0 \<and> hm_count (ms_global (measures (group_at st' g))) = u64 (hrm_sum g st + n) \<and>
    (\<forall>h \<in> set (hrm_groups st). h \<noteq> g \<longrightarrow> hrm_sum h st' = hrm_sum h st)"
proof -
  let ?i = "pr_index (producer_at st p)"
  let ?f = "\<lambda>grp. grp\<lparr>slots := (slots grp)(?i := (slots grp ?i)\<lparr>hc_counter := u64 (hc_counter (slots grp ?i) + n)\<rparr>)\<rparr>"
  have r: "r = 0" and e: "upd_group g (\<lambda>_. grp') st = upd_group g ?f st"
    using b m by (auto simp: heartbeat_def upd_group_def)
  have "hm_count (ms_global (measures (group_at (hrm_update_group_measures g now s) g))) = hrm_sum g s" for s
    by (simp add: hrm_update_group_measures_eq upd_group_def tick_group_def Let_def fold_hrm_window(2))
  then have "hm_count (ms_global (measures (group_at st' g))) = hrm_sum g (upd_group g ?f st)"
    unfolding st' e .
  moreover have "hrm_sum h st' = hrm_sum h st" if "h \<in> set (hrm_groups st)" "h \<noteq> g" for h
  proof -
    have o: "\<forall>p \<in> set (producers (group_at st h)). pr_group (producer_at st p) = h"
      using hrm_baseD(3) [OF hrm_invD [OF inv] that(1)] unfolding group_ok_def by blast
    have "\<forall>p \<in> set (producers (group_at (upd_group g ?f st) h)). pr_group (producer_at (upd_group g ?f st) p) = h"
      using o that(2) by (simp add: upd_group_def)
    from hrm_sum_other [OF that(2) this] hrm_sum_other [OF that(2) o] show ?thesis
      unfolding st' e hrm_update_group_measures_eq by simp
  qed
  ultimately show ?thesis using r heartbeat_sum [OF inv g p refl refl] by simp
qed

theorem heartbeat_published_witness:
  "hm_count (ms_global (measures (group_at (hrm_update_group_measures 0 \<lparr>tv_sec = 11, tv_nsec = 0\<rparr>
     (upd_group 0 (\<lambda>_. fst (heartbeat (Some \<lparr>m_gid = 7, m_consumer = False, m_slot = 0\<rparr>) 8 (group_at watched_group 0))) watched_group)) 0))) = 50"
proof -
  let ?m = "\<lparr>m_gid = 7, m_consumer = False, m_slot = 0\<rparr>"
  obtain grp' r e where b: "heartbeat (Some ?m) 8 (group_at watched_group 0) = (grp', r, e)" by (metis prod_cases3)
  have "hrm_sum 0 watched_group = 42"
    by (simp add: watched_group_def one_group_def new_group_def hrm_sum_def hrm_counter_of_def u64_def)
  moreover have "0 \<in> set (hrm_groups watched_group)" "3 \<in> set (producers (group_at watched_group 0))"
    "m_slot ?m = pr_index (producer_at watched_group 3)" "\<not> m_consumer ?m"
    by (simp_all add: watched_group_def one_group_def)
  ultimately show ?thesis
    using heartbeat_published [OF watched_group_inv _ _ _ _ b refl] by (simp add: b u64_def)
qed

text \<open>The number of windows leaves out the last one.\<close>

theorem hrm_get_windows_number_misses_last:
  assumes "goal_lock (goal grp) = 0" and "\<forall>i<32. window_size (goal grp) i \<noteq> 0"
  shows "hrm_get_windows_number (Some m) grp = Some (Returns 31)"
  using assms by (simp add: hrm_get_windows_number_def upt_rec numeral_eq_Suc)

text \<open>Removing a window and adding one that is there already gives two entries of the same size: the search stops at the first
  free entry.\<close>

theorem hrm_add_window_duplicates:
  "\<exists>grp grp' key. window_size (goal grp) 1 = 9 \<and> hrm_add_window (Some m) 9 grp = Some (grp', key, None) \<and> key = 1 \<and>
     window_size (goal grp') 0 = 9 \<and> window_size (goal grp') 1 = 9"
proof -
  let ?grp = "(new_group 7)\<lparr>goal := (goal (new_group 7))\<lparr>window_size := (\<lambda>i. if i = 1 then 9 else 0)\<rparr>\<rparr>"
  have "[0..<32] = 0 # [1..<32]" by (simp add: upt_rec)
  then have "hrm_add_window (Some m) 9 ?grp = Some (?grp\<lparr>goal := (goal ?grp)\<lparr>window_size := (window_size (goal ?grp))(0 := 9)\<rparr>\<rparr>, 1, None)"
    by (simp add: hrm_add_window_def add_window_def) (simp add: new_group_def)
  then show ?thesis
    by (intro exI [of _ ?grp] exI [of _ "?grp\<lparr>goal := (goal ?grp)\<lparr>window_size := (window_size (goal ?grp))(0 := 9)\<rparr>\<rparr>"]
      exI [of _ 1]) simp
qed

text \<open>Setting a goal for the global rate succeeds, and returns the value that means failure.\<close>

theorem hrm_set_goal_global_returns_failure:
  assumes "\<not> m_consumer m" and "\<not> lt hi lo" and "goal_lock (goal grp) = 0"
  shows "\<exists>grp'. hrm_set_goal lt scaled (Some m) 0 lo hi grp = Some (grp', - 1, None) \<and>
    min_heart_rate (goal grp') = scaled lo \<and> max_heart_rate (goal grp') = scaled hi"
  using assms by (simp add: hrm_set_goal_def)

end
