(* ===== verification/Spec2Isabelle.thy ===== *)
theory Spec2Isabelle
  imports Idle_Inject Kbitmap Kstring Sched_Affinity Libhrm
begin

text \<open>
  Verification of the idle-injecting BFS scheduler and of the heart rate monitor of this kernel
  tree.
\<close>

end
